(* ===== verification/Prelude.thy ===== *)
theory Prelude
  imports Main "HOL-Library.AList" "HOL-Library.Word" "HOL-Library.List_Lexorder"
    "HOL-Library.Char_ord"
begin

text \<open>
  What the components share: the outcome of a Go call (a value, an error, a panic or no
  return), state passing with early return, Go maps as association lists, the wrap-around of
  the signed integer types, the byte and string functions of the standard library that several
  files use, and the collections the component proofs are run with.
\<close>

unbundle bit_operations_syntax

named_theorems go_simps \<open>rewrite rules that evaluate the Go control structures\<close>
named_theorems keeps \<open>introduction rules for what an operation keeps of the state\<close>

section \<open>Outcomes and state passing\<close>

text \<open>
  Errors: the sentinel values the code compares with (\<open>errors.Is\<close>), the errors it makes with
  \<open>errors.New\<close> (with the constant part of their message), those of the operating system and
  those of the libraries it calls.
\<close>

datatype error =
    ErrStorageNotFound
  | ErrDoNotRespondResult
  | ErrKeyFormatInvalid
  | ErrNotPrimaryNode
  | ErrorMsg string
  | OsError string
  | LibError string

text \<open>
  \<open>Ok v\<close> is a normal return, \<open>Err e\<close> a return with a non-nil \<open>error\<close>, \<open>Panic m\<close> a run-time
  panic (index out of range, assignment to a nil map, an explicit \<open>panic\<close>) and \<open>Diverge\<close> a loop
  that never returns.
\<close>

datatype 'a res = Ok 'a | Err error | Panic string | Diverge

fun bindR :: "'a res \<Rightarrow> ('a \<Rightarrow> 'b res) \<Rightarrow> 'b res" where
  "bindR (Ok a) f = f a"
| "bindR (Err e) f = Err e"
| "bindR (Panic p) f = Panic p"
| "bindR Diverge f = Diverge"

text \<open>The message of an error.\<close>

fun errText :: "error \<Rightarrow> string" where
  "errText ErrStorageNotFound = ''not found''"
| "errText ErrDoNotRespondResult = ''internal: do not respond''"
| "errText ErrKeyFormatInvalid = ''key format invalid''"
| "errText ErrNotPrimaryNode = ''not primary node''"
| "errText (ErrorMsg s) = s"
| "errText (OsError s) = s"
| "errText (LibError s) = s"

text \<open>\<open>if err != nil { panic(err) }\<close>\<close>

definition must :: "'a res \<Rightarrow> 'a res" where
  "must r = (case r of Err e \<Rightarrow> Panic (errText e) | _ \<Rightarrow> r)"

type_synonym ('s, 'a) prog = "'s \<Rightarrow> 'a res \<times> 's"

definition returnS :: "'a \<Rightarrow> ('s, 'a) prog" where
  "returnS a s = (Ok a, s)"

definition failS :: "error \<Rightarrow> ('s, 'a) prog" where
  "failS e s = (Err e, s)"

definition bindS :: "('s, 'a) prog \<Rightarrow> ('a \<Rightarrow> ('s, 'b) prog) \<Rightarrow> ('s, 'b) prog" where
  "bindS m f s =
     (case m s of
        (Ok a, s') \<Rightarrow> f a s'
      | (Err e, s') \<Rightarrow> (Err e, s')
      | (Panic p, s') \<Rightarrow> (Panic p, s')
      | (Diverge, s') \<Rightarrow> (Diverge, s'))"

definition getS :: "('s, 's) prog" where
  "getS s = (Ok s, s)"

definition modifyS :: "('s \<Rightarrow> 's) \<Rightarrow> ('s, unit) prog" where
  "modifyS f s = (Ok (), f s)"

definition liftR :: "'a res \<Rightarrow> ('s, 'a) prog" where
  "liftR r s = (r, s)"

text \<open>A call whose error is handled: \<open>f\<close> goes on with the value, \<open>h\<close> with the error.\<close>

definition tryS :: "('s, 'a) prog \<Rightarrow> ('a \<Rightarrow> ('s, 'b) prog) \<Rightarrow> (error \<Rightarrow> ('s, 'b) prog) \<Rightarrow> ('s, 'b) prog" where
  "tryS m f h s =
     (case m s of
        (Ok a, s') \<Rightarrow> f a s'
      | (Err e, s') \<Rightarrow> h e s'
      | (Panic p, s') \<Rightarrow> (Panic p, s')
      | (Diverge, s') \<Rightarrow> (Diverge, s'))"

definition panicS :: "string \<Rightarrow> ('s, 'a) prog" where
  "panicS p s = (Panic p, s)"

text \<open>A deferred \<open>recover\<close>: the panic ends the call and \<open>h\<close> runs in its place.\<close>

definition recoverS :: "('s, 'a) prog \<Rightarrow> (string \<Rightarrow> ('s, 'a) prog) \<Rightarrow> ('s, 'a) prog" where
  "recoverS m h s = (case m s of (Panic p, s') \<Rightarrow> h p s' | out \<Rightarrow> out)"

text \<open>An operation on the first (second) part of a pair of states.\<close>

definition onFst :: "('s, 'a) prog \<Rightarrow> ('s \<times> 't, 'a) prog" where
  "onFst m st = (case m (fst st) of (r, s') \<Rightarrow> (r, (s', snd st)))"

definition onSnd :: "('t, 'a) prog \<Rightarrow> ('s \<times> 't, 'a) prog" where
  "onSnd m st = (case m (snd st) of (r, t') \<Rightarrow> (r, (fst st, t')))"

text \<open>The definitions that evaluate a sequence completely.\<close>

lemmas run_simps = returnS_def failS_def getS_def modifyS_def liftR_def bindS_def

lemma tryS_Ok [go_simps]: "m s = (Ok a, s') \<Longrightarrow> tryS m f h s = f a s'"
  by (simp add: tryS_def)

lemma tryS_Err [go_simps]: "m s = (Err e, s') \<Longrightarrow> tryS m f h s = h e s'"
  by (simp add: tryS_def)

lemma onFst_run [go_simps]: "onFst m (a, b) = (fst (m a), (snd (m a), b))"
  by (simp add: onFst_def split: prod.splits)

lemma onSnd_run [go_simps]: "onSnd m (a, b) = (fst (m b), (a, snd (m b)))"
  by (simp add: onSnd_def split: prod.splits)

lemma bindS_liftR_res [go_simps]:
  "bindS (liftR (Panic p)) f s = (Panic p, s)" "bindS (liftR (Err e)) f s = (Err e, s)"
  by (simp_all add: bindS_def liftR_def)

lemma tryS_liftR [go_simps]:
  "tryS (liftR (Ok a)) f h s = f a s" "tryS (liftR (Err e)) f h s = h e s"
  by (simp_all add: tryS_def liftR_def)

lemma tryS_eq_Ok:
  "tryS m f h s = (Ok b, s') \<longleftrightarrow>
     (\<exists>a s1. m s = (Ok a, s1) \<and> f a s1 = (Ok b, s')) \<or> (\<exists>e s1. m s = (Err e, s1) \<and> h e s1 = (Ok b, s'))"
  by (auto simp: tryS_def split: prod.splits res.splits)

lemma bindS_liftR_Ok [go_simps]: "bindS (liftR (Ok a)) f s = f a s"
  by (simp add: bindS_def liftR_def)

lemma bindS_return [go_simps]: "bindS (returnS a) f s = f a s"
  by (simp add: bindS_def returnS_def)

lemma bindS_get [go_simps]: "bindS getS f s = f s s"
  by (simp add: bindS_def getS_def)

lemma bindS_modify [go_simps]: "bindS (modifyS g) f s = f () (g s)"
  by (simp add: bindS_def modifyS_def)

lemma bindS_fail [go_simps]: "bindS (failS e) f s = (Err e, s)"
  by (simp add: bindS_def failS_def)

lemma bindS_Ok [go_simps]: "m s = (Ok a, s') \<Longrightarrow> bindS m f s = f a s'"
  by (simp add: bindS_def)

lemma bindS_eq_Ok:
  "bindS m f s = (Ok b, s') \<longleftrightarrow> (\<exists>a s1. m s = (Ok a, s1) \<and> f a s1 = (Ok b, s'))"
  by (auto simp: bindS_def split: prod.splits res.splits)

lemma bindS_OkE:
  assumes "bindS m f s = (Ok b, s')"
  obtains a s1 where "m s = (Ok a, s1)" "f a s1 = (Ok b, s')"
  using assms by (auto simp: bindS_eq_Ok)

text \<open>A relation between the states before and after holds for a sequence if it is reflexive on
  the parts and transitive: the frame rule the component proofs use.\<close>

lemma bindS_rel:
  assumes "\<And>s. R s (snd (m s))" and "\<And>a s. R s (snd (f a s))"
    and "\<And>x y z. R x y \<Longrightarrow> R y z \<Longrightarrow> R x z"
  shows "R s (snd (bindS m f s))"
proof -
  obtain r s1 where m: "m s = (r, s1)" by fastforce
  have "R s s1" using assms(1)[of s] m by simp
  then show ?thesis
    using assms(2)[of s1] assms(3)[of s s1] m by (cases r) (auto simp: bindS_def)
qed

text \<open>A \<open>range\<close> loop whose body may return early.\<close>

fun forEach :: "('a \<Rightarrow> ('s, unit) prog) \<Rightarrow> 'a list \<Rightarrow> ('s, unit) prog" where
  "forEach f [] = returnS ()"
| "forEach f (x # xs) = bindS (f x) (\<lambda>_. forEach f xs)"

lemma forEach_cong: "(\<And>x. x \<in> set xs \<Longrightarrow> f x = g x) \<Longrightarrow> forEach f xs = forEach g xs"
  by (induction xs) auto

lemma bindS_assoc: "bindS (bindS m f) g = bindS m (\<lambda>a. bindS (f a) g)"
  by (rule ext) (auto simp: bindS_def split: prod.splits res.splits)

lemma forEach_append: "forEach f (xs @ ys) = bindS (forEach f xs) (\<lambda>_. forEach f ys)"
  by (induction xs) (auto simp: bindS_assoc go_simps)

lemma onSnd_return: "onSnd (returnS a) = returnS a"
  by (rule ext) (simp add: onSnd_def returnS_def)

lemma onSnd_bind: "onSnd (bindS m f) = bindS (onSnd m) (\<lambda>a. onSnd (f a))"
  by (rule ext) (auto simp: onSnd_def bindS_def split: prod.splits res.splits)

lemma onSnd_forEach: "forEach (\<lambda>x. onSnd (f x)) xs = onSnd (forEach f xs)"
  by (induction xs) (simp_all add: onSnd_return onSnd_bind)

text \<open>An operation keeps a property of the state, however it ends.\<close>

definition keepsS :: "('s \<Rightarrow> bool) \<Rightarrow> ('s, 'a) prog \<Rightarrow> bool" where
  "keepsS I m \<longleftrightarrow> (\<forall>s. I s \<longrightarrow> I (snd (m s)))"

lemma keepsSD: "keepsS I m \<Longrightarrow> I s \<Longrightarrow> I (snd (m s))"
  by (simp add: keepsS_def)

lemma keepsS_pure [keeps]: "keepsS I (returnS a)" "keepsS I (failS e)" "keepsS I (panicS p)" "keepsS I (liftR r)" "keepsS I getS"
  by (simp_all add: keepsS_def returnS_def failS_def panicS_def liftR_def getS_def)

lemma keepsS_modify [keeps]: "(\<And>s. I s \<Longrightarrow> I (f s)) \<Longrightarrow> keepsS I (modifyS f)"
  by (simp add: keepsS_def modifyS_def)

lemma keepsS_bind [keeps]: "keepsS I m \<Longrightarrow> (\<And>a. keepsS I (f a)) \<Longrightarrow> keepsS I (bindS m f)"
  unfolding keepsS_def bindS_def by (auto split: prod.splits res.splits)

lemma keepsS_try [keeps]: "keepsS I m \<Longrightarrow> (\<And>a. keepsS I (f a)) \<Longrightarrow> (\<And>e. keepsS I (h e)) \<Longrightarrow> keepsS I (tryS m f h)"
  unfolding keepsS_def tryS_def by (auto split: prod.splits res.splits)

lemma keepsS_if [keeps]: "(b \<Longrightarrow> keepsS I m) \<Longrightarrow> (\<not> b \<Longrightarrow> keepsS I n) \<Longrightarrow> keepsS I (if b then m else n)"
  by simp

lemma keepsS_option [keeps]:
  "keepsS I m \<Longrightarrow> (\<And>a. keepsS I (n a)) \<Longrightarrow> keepsS I (case x of None \<Rightarrow> m | Some a \<Rightarrow> n a)"
  by (cases x) auto

lemma keepsS_forEach [keeps]: "(\<And>x. keepsS I (f x)) \<Longrightarrow> keepsS I (forEach f xs)"
  by (induction xs) (auto intro!: keeps)

lemma keepsS_onFst [keeps]: "keepsS I m \<Longrightarrow> keepsS (\<lambda>s. I (fst s)) (onFst m)" "keepsS (\<lambda>s. J (snd s)) (onFst m)"
  by (simp_all add: keepsS_def onFst_def case_prod_beta)

lemma keepsS_onSnd [keeps]: "keepsS J m \<Longrightarrow> keepsS (\<lambda>s. J (snd s)) (onSnd m)" "keepsS (\<lambda>s. I (fst s)) (onSnd m)"
  by (simp_all add: keepsS_def onSnd_def case_prod_beta)

section \<open>Go maps\<close>

text \<open>
  A Go map is an association list with distinct keys. The list order stands for the order in
  which \<open>range\<close> visits the entries, which Go leaves open: a property that is to hold for every
  order is stated over all lists, and over \<open>map_of\<close>.
\<close>

type_synonym ('k, 'v) gomap = "('k \<times> 'v) list"

abbreviation mget :: "('k, 'v) gomap \<Rightarrow> 'k \<Rightarrow> 'v option" where
  "mget m k \<equiv> map_of m k"

abbreviation mput :: "'k \<Rightarrow> 'v \<Rightarrow> ('k, 'v) gomap \<Rightarrow> ('k, 'v) gomap" where
  "mput k v m \<equiv> AList.update k v m"

abbreviation mdel :: "'k \<Rightarrow> ('k, 'v) gomap \<Rightarrow> ('k, 'v) gomap" where
  "mdel k m \<equiv> AList.delete k m"

abbreviation mkeys :: "('k, 'v) gomap \<Rightarrow> 'k list" where
  "mkeys m \<equiv> map fst m"

abbreviation mwf :: "('k, 'v) gomap \<Rightarrow> bool" where
  "mwf m \<equiv> distinct (map fst m)"

declare map_of_eq_Some_iff [simp del] Some_eq_map_of_iff [simp del]

lemma mget_mput [simp, go_simps]: "mget (mput k v m) k' = (if k' = k then Some v else mget m k')"
  by (simp add: update_conv)

lemma mget_mdel [simp, go_simps]: "mget (mdel k m) k' = (if k' = k then None else mget m k')"
  by (simp add: delete_conv)

lemma mwf_mput [simp, intro]: "mwf m \<Longrightarrow> mwf (mput k v m)"
  by (rule distinct_update)

lemma mwf_mdel [simp, intro]: "mwf m \<Longrightarrow> mwf (mdel k m)"
  by (rule distinct_delete)

lemma mdel_Nil_iff: "mdel k m = [] \<longleftrightarrow> (\<forall>k'. k' \<noteq> k \<longrightarrow> mget m k' = None)"
  by (induction m) (auto split: if_splits)

lemma mget_None_all: "(\<forall>k. mget m k = None) \<longleftrightarrow> m = []"
  by (cases m) auto

section \<open>Signed integers\<close>

text \<open>The value of an \<open>int64\<close> (\<open>int32\<close>) after a wrapping operation.\<close>

definition i64 :: "int \<Rightarrow> int" where
  "i64 x = (x + 2 ^ 63) mod 2 ^ 64 - 2 ^ 63"

definition i32 :: "int \<Rightarrow> int" where
  "i32 x = (x + 2 ^ 31) mod 2 ^ 32 - 2 ^ 31"

definition in_i64 :: "int \<Rightarrow> bool" where
  "in_i64 x \<longleftrightarrow> - (2 ^ 63) \<le> x \<and> x < 2 ^ 63"

lemma i64_id: "in_i64 x \<Longrightarrow> i64 x = x"
  by (simp add: i64_def in_i64_def)

lemma i64_in: "in_i64 (i64 x)"
  using pos_mod_bound[of "2 ^ 64 :: int" "x + 2 ^ 63"] pos_mod_sign[of "2 ^ 64 :: int" "x + 2 ^ 63"]
  by (simp add: i64_def in_i64_def)

lemma i32_id: "- (2 ^ 31) \<le> x \<Longrightarrow> x < 2 ^ 31 \<Longrightarrow> i32 x = x"
  by (simp add: i32_def)

lemma i64_small [go_simps]: "0 \<le> x \<Longrightarrow> x < 9223372036854775808 \<Longrightarrow> i64 x = x"
  by (rule i64_id) (simp add: in_i64_def)

lemma i32_small [go_simps]: "0 \<le> x \<Longrightarrow> x < 2147483648 \<Longrightarrow> i32 x = x"
  by (rule i32_id) simp_all

section \<open>Bytes and strings\<close>

type_synonym byte = "8 word"
type_synonym bytes = "8 word list"

text \<open>\<open>strings.ToLower\<close> on ASCII names: the host names and configuration keys it is applied to.\<close>

definition to_lower_char :: "char \<Rightarrow> char" where
  "to_lower_char c =
     (let n = (of_char c :: nat) in if 65 \<le> n \<and> n \<le> 90 then char_of (n + 32) else c)"

definition ToLower :: "string \<Rightarrow> string" where
  "ToLower s = map to_lower_char s"

lemma to_lower_char_idem [simp]: "to_lower_char (to_lower_char c) = to_lower_char c"
proof -
  have "n + 32 < 256" if "n \<le> 90" for n :: nat using that by simp
  then show ?thesis by (auto simp: to_lower_char_def Let_def)
qed

lemma ToLower_idem [simp]: "ToLower (ToLower s) = ToLower s"
  by (simp add: ToLower_def)

lemma ToLower_append [simp]: "ToLower (s @ t) = ToLower s @ ToLower t"
  by (simp add: ToLower_def)

lemma length_ToLower [simp]: "length (ToLower s) = length s"
  by (simp add: ToLower_def)

definition HasPrefix :: "string \<Rightarrow> string \<Rightarrow> bool" where
  "HasPrefix s p \<longleftrightarrow> take (length p) s = p"

definition HasSuffix :: "string \<Rightarrow> string \<Rightarrow> bool" where
  "HasSuffix s p \<longleftrightarrow> length p \<le> length s \<and> drop (length s - length p) s = p"

lemma HasSuffix_iff: "HasSuffix s p \<longleftrightarrow> (\<exists>t. s = t @ p)"
proof
  assume "HasSuffix s p"
  then have "s = take (length s - length p) s @ p"
    by (metis HasSuffix_def append_take_drop_id)
  then show "\<exists>t. s = t @ p" by blast
qed (auto simp: HasSuffix_def)

lemma HasPrefix_iff: "HasPrefix s p \<longleftrightarrow> (\<exists>t. s = p @ t)"
  by (metis HasPrefix_def append_eq_conv_conj append_take_drop_id)

lemma HasSuffix_append [simp]: "HasSuffix (t @ p) p"
  by (simp add: HasSuffix_def)

end
