(* ===== verification/Mem_Store.thy ===== *)
theory Mem_Store
  imports Prelude
begin

text \<open>
  The in-memory store of a node (\<open>storage.mem.go\<close>, \<open>storage.shared.go\<close>): static domains, the
  services the node publishes, what it has received from its peers, and the changes each peer
  still has to fetch. Every operation runs under the lock of the store, so each is one step.
\<close>

section \<open>Data\<close>

datatype DomainType = DomainTypeA | DomainTypeTxt | DomainTypeSrv | DomainTypePtr | DomainTypeAAAA

record ServiceItem =
  Addr :: string
  NodeId :: string

record dataTransferNodeData =
  ServiceName :: string
  NodeName :: string
  InfoAddr :: string

record pending =
  Add :: "dataTransferNodeData list"
  Del :: "dataTransferNodeData list"

text \<open>
  The maps a node makes itself are never nil. The ones decoded from a peer's JSON may be, outside
  and inside (\<open>None\<close>): reading a nil map finds nothing, writing to it panics.
\<close>

type_synonym svc_map = "(string, (string, string) gomap) gomap"
type_synonym recv_map = "(string, (string, string) gomap option) gomap option"

record memNodeData =
  ServiceMapping :: recv_map

text \<open>
  A payload is JSON text, up to what the two decoders of the store make of it: \<open>null\<close>, an object
  or an array (whose elements may be \<open>null\<close>, decoded to nil pointers) of the expected shape, or
  text one of them refuses. A nil slice is written as \<open>null\<close> and decoded to an empty one.
\<close>

datatype payload =
    PNull
  | PNode memNodeData
  | PList "dataTransferNodeData option list"
  | PBad

definition json_err :: error where
  "json_err = LibError ''json''"

definition memNodeDataUnmarshall :: "payload \<Rightarrow> memNodeData res" where
  "memNodeDataUnmarshall p =
     (case p of PNull \<Rightarrow> Ok \<lparr>ServiceMapping = None\<rparr> | PNode d \<Rightarrow> Ok d | _ \<Rightarrow> Err json_err)"

definition dataTransferNodeDataList :: "payload \<Rightarrow> dataTransferNodeData option list res" where
  "dataTransferNodeDataList p =
     (case p of PNull \<Rightarrow> Ok [] | PList l \<Rightarrow> Ok l | _ \<Rightarrow> Err json_err)"

definition marshalList :: "dataTransferNodeData list \<Rightarrow> payload" where
  "marshalList l = (if l = [] then PNull else PList (map Some l))"

definition marshalNode :: "svc_map \<Rightarrow> payload" where
  "marshalNode sm = PNode \<lparr>ServiceMapping = Some (map (\<lambda>(k, v). (k, Some v)) sm)\<rparr>"

definition DefaultDataKey :: string where
  "DefaultDataKey = ''__default__''"

record MemStore =
  staticDomainMapping :: "(DomainType, (string, string) gomap) gomap"
  services :: svc_map
  currentServices :: svc_map
  dataFrom :: "(string, memNodeData) gomap"
  dataTo :: "(string, pending) gomap"

definition NewMemStore :: MemStore where
  "NewMemStore = \<lparr>staticDomainMapping = [], services = [], currentServices = [], dataFrom = [], dataTo = []\<rparr>"

section \<open>Services of the node\<close>

definition GetServiceList :: "string \<Rightarrow> (MemStore, ServiceItem list) prog" where
  "GetServiceList service =
     bindS getS (\<lambda>m.
       case mget (services m) service of
         None \<Rightarrow> returnS []
       | Some li \<Rightarrow> returnS (map (\<lambda>(k, v). \<lparr>Addr = v, NodeId = k\<rparr>) li))"

definition put_service :: "string \<Rightarrow> ServiceItem \<Rightarrow> svc_map \<Rightarrow> svc_map" where
  "put_service service item sm =
     (let p = (case mget sm service of None \<Rightarrow> [] | Some p \<Rightarrow> p)
      in mput service (mput (NodeId item) (Addr item) p) sm)"

definition del_service :: "string \<Rightarrow> ServiceItem \<Rightarrow> svc_map \<Rightarrow> svc_map" where
  "del_service service item sm =
     (case mget sm service of
        None \<Rightarrow> sm
      | Some p \<Rightarrow>
          let p' = mdel (NodeId item) p in
          if p' = [] then mdel service sm else mput service p' sm)"

definition rebuildServiceItemList ::
  "dataTransferNodeData list \<Rightarrow> string \<Rightarrow> ServiceItem \<Rightarrow> dataTransferNodeData list" where
  "rebuildServiceItemList del service item =
     filter (\<lambda>v. \<not> (ServiceName v = service \<and> NodeName v = NodeId item)) del"

definition transfer :: "string \<Rightarrow> ServiceItem \<Rightarrow> dataTransferNodeData" where
  "transfer service item = \<lparr>ServiceName = service, NodeName = NodeId item, InfoAddr = Addr item\<rparr>"

definition PublishService :: "string \<Rightarrow> ServiceItem \<Rightarrow> (MemStore, unit) prog" where
  "PublishService service item =
     bindS (modifyS (\<lambda>m. m\<lparr>services := put_service service item (services m)\<rparr>)) (\<lambda>_.
     bindS (modifyS (\<lambda>m. m\<lparr>currentServices := put_service service item (currentServices m)\<rparr>)) (\<lambda>_.
       modifyS (\<lambda>m. m\<lparr>dataTo := map (\<lambda>(node, v).
         (node, v\<lparr>Del := rebuildServiceItemList (Del v) service item,
                  Add := Add v @ [transfer service item]\<rparr>)) (dataTo m)\<rparr>)))"

definition DeleteService :: "string \<Rightarrow> ServiceItem \<Rightarrow> (MemStore, unit) prog" where
  "DeleteService service item =
     bindS (modifyS (\<lambda>m. m\<lparr>services := del_service service item (services m)\<rparr>)) (\<lambda>_.
     bindS (modifyS (\<lambda>m. m\<lparr>currentServices := del_service service item (currentServices m)\<rparr>)) (\<lambda>_.
       modifyS (\<lambda>m. m\<lparr>dataTo := map (\<lambda>(node, v).
         (node, v\<lparr>Del := Del v @ [transfer service item],
                  Add := rebuildServiceItemList (Add v) service item\<rparr>)) (dataTo m)\<rparr>)))"

section \<open>Merging\<close>

definition copyMap :: "svc_map \<Rightarrow> svc_map \<Rightarrow> svc_map" where
  "copyMap src dst =
     foldl (\<lambda>dst (k, v).
       let sub = (case mget dst k of None \<Rightarrow> [] | Some sub \<Rightarrow> sub)
       in mput k (foldl (\<lambda>sub (i, j). mput i j sub) sub v) dst) dst src"

text \<open>What \<open>range\<close> sees of a received mapping: a nil map has no entries.\<close>

definition range_of :: "recv_map \<Rightarrow> svc_map" where
  "range_of rm = (case rm of None \<Rightarrow> [] | Some sm \<Rightarrow>
     map (\<lambda>(k, v). (k, case v of None \<Rightarrow> [] | Some p \<Rightarrow> p)) sm)"

definition buildMemData :: "(MemStore, unit) prog" where
  "buildMemData =
     modifyS (\<lambda>m. m\<lparr>services :=
       foldl (\<lambda>newServiceMap (node, v). copyMap (range_of (ServiceMapping v)) newServiceMap)
         (copyMap (currentServices m) []) (dataFrom m)\<rparr>)"

section \<open>Receiving from a peer\<close>

definition FullFrom :: "string \<Rightarrow> (string, payload) gomap \<Rightarrow> (MemStore, unit) prog" where
  "FullFrom node dat =
     (case mget dat DefaultDataKey of
        None \<Rightarrow> failS (ErrorMsg ''no data found'')
      | Some d \<Rightarrow>
          bindS (liftR (memNodeDataUnmarshall d)) (\<lambda>nd.
          bindS (modifyS (\<lambda>m. m\<lparr>dataFrom := mput node nd (dataFrom m)\<rparr>)) (\<lambda>_.
            buildMemData)))"

definition nil_deref :: string where
  "nil_deref = ''invalid memory address or nil pointer dereference''"

definition nil_map_write :: string where
  "nil_map_write = ''assignment to entry in nil map''"

definition syncDel :: "dataTransferNodeData option \<Rightarrow> (recv_map, unit) prog" where
  "syncDel e mapping =
     (case e of
        None \<Rightarrow> (Panic nil_deref, mapping)
      | Some v \<Rightarrow>
          (case mapping of
             None \<Rightarrow> (Ok (), mapping)
           | Some sm \<Rightarrow>
               (case mget sm (ServiceName v) of
                  None \<Rightarrow> (Ok (), mapping)
                | Some serviceMap \<Rightarrow>
                    let serviceMap' = map_option (mdel (NodeName v)) serviceMap in
                    if serviceMap' = None \<or> serviceMap' = Some []
                    then (Ok (), Some (mdel (ServiceName v) sm))
                    else (Ok (), Some (mput (ServiceName v) serviceMap' sm)))))"

definition syncAdd :: "dataTransferNodeData option \<Rightarrow> (recv_map, unit) prog" where
  "syncAdd e mapping =
     (case e of
        None \<Rightarrow> (Panic nil_deref, mapping)
      | Some v \<Rightarrow>
          (case mapping of
             None \<Rightarrow> (Panic nil_map_write, mapping)
           | Some sm \<Rightarrow>
               (case mget sm (ServiceName v) of
                  None \<Rightarrow> (Ok (), Some (mput (ServiceName v) (Some [(NodeName v, InfoAddr v)]) sm))
                | Some None \<Rightarrow> (Panic nil_map_write, mapping)
                | Some (Some p) \<Rightarrow>
                    (Ok (), Some (mput (ServiceName v) (Some (mput (NodeName v) (InfoAddr v) p)) sm)))))"

text \<open>The mapping of the node is changed in place.\<close>

definition onMapping :: "string \<Rightarrow> memNodeData \<Rightarrow> (recv_map, unit) prog \<Rightarrow> (MemStore, unit) prog" where
  "onMapping node nd f m =
     (case f (ServiceMapping nd) of
        (r, mapping) \<Rightarrow> (r, m\<lparr>dataFrom := mput node (nd\<lparr>ServiceMapping := mapping\<rparr>) (dataFrom m)\<rparr>))"

definition SyncFrom ::
  "string \<Rightarrow> string \<Rightarrow> (string, payload) gomap \<Rightarrow> (string, payload) gomap \<Rightarrow> (MemStore, unit) prog" where
  "SyncFrom node origNode add del =
     (case mget add DefaultDataKey of
        None \<Rightarrow> failS (ErrorMsg ''no add data found'')
      | Some ad \<Rightarrow>
     bindS (liftR (dataTransferNodeDataList ad)) (\<lambda>adata.
     case mget del DefaultDataKey of
        None \<Rightarrow> failS (ErrorMsg ''no del data found'')
      | Some dd \<Rightarrow>
     bindS (liftR (dataTransferNodeDataList dd)) (\<lambda>ddata.
     bindS getS (\<lambda>m.
     case mget (dataFrom m) node of
        None \<Rightarrow> failS (ErrorMsg ''node not exist'')
      | Some mapping \<Rightarrow>
          bindS (onMapping node mapping (bindS (forEach syncDel ddata) (\<lambda>_. forEach syncAdd adata))) (\<lambda>_.
            buildMemData)))))"

definition Abandon :: "string \<Rightarrow> (MemStore, unit) prog" where
  "Abandon node =
     bindS getS (\<lambda>m.
       if mget (dataFrom m) node \<noteq> None then
         bindS (modifyS (\<lambda>m. m\<lparr>dataFrom := mdel node (dataFrom m)\<rparr>)) (\<lambda>_. buildMemData)
       else returnS ())"

section \<open>Sending to a peer\<close>

definition FetchFullAndWatch :: "string \<Rightarrow> (MemStore, (string, payload) gomap) prog" where
  "FetchFullAndWatch node =
     bindS (modifyS (\<lambda>m.
       if mget (dataTo m) node = None
       then m\<lparr>dataTo := mput node \<lparr>Add = [], Del = []\<rparr> (dataTo m)\<rparr> else m)) (\<lambda>_.
     bindS getS (\<lambda>m. returnS [(DefaultDataKey, marshalNode (currentServices m))]))"

definition FetchChangesForPeerNodeRequest ::
  "string \<Rightarrow> (MemStore, (string, payload) gomap \<times> (string, payload) gomap) prog" where
  "FetchChangesForPeerNodeRequest node =
     bindS getS (\<lambda>m.
       case mget (dataTo m) node of
         None \<Rightarrow> failS (ErrorMsg ''node not registered'')
       | Some s \<Rightarrow>
           bindS (modifyS (\<lambda>m. m\<lparr>dataTo := mput node \<lparr>Add = [], Del = []\<rparr> (dataTo m)\<rparr>)) (\<lambda>_.
             returnS ([(DefaultDataKey, marshalList (Add s))], [(DefaultDataKey, marshalList (Del s))])))"

definition Unwatch :: "string \<Rightarrow> (MemStore, unit) prog" where
  "Unwatch node = modifyS (\<lambda>m. m\<lparr>dataTo := mdel node (dataTo m)\<rparr>)"

section \<open>Static domains\<close>

text \<open>\<open>dns.Fqdn\<close> is the library's; a nested store is its \<open>ResolveDomain\<close>.\<close>

type_synonym resolver = "string \<Rightarrow> DomainType \<Rightarrow> string res"

definition PutDomain :: "(string \<Rightarrow> string) \<Rightarrow> string \<Rightarrow> string \<Rightarrow> DomainType \<Rightarrow> (MemStore, unit) prog" where
  "PutDomain Fqdn domain resolve domainType =
     modifyS (\<lambda>m.
       let fqdn = Fqdn (ToLower domain);
           sub = (case mget (staticDomainMapping m) domainType of None \<Rightarrow> [] | Some sub \<Rightarrow> sub)
       in m\<lparr>staticDomainMapping := mput domainType (mput fqdn resolve sub) (staticDomainMapping m)\<rparr>)"

definition resolveStatic :: "MemStore \<Rightarrow> resolver" where
  "resolveStatic m domain domainType =
     (case mget (staticDomainMapping m) domainType of
        None \<Rightarrow> Err ErrStorageNotFound
      | Some sub \<Rightarrow> (case mget sub domain of None \<Rightarrow> Err ErrStorageNotFound | Some r \<Rightarrow> Ok r))"

fun resolveNested :: "resolver list \<Rightarrow> resolver" where
  "resolveNested [] domain domainType = Err ErrStorageNotFound"
| "resolveNested (store # stores) domain domainType =
     (case store domain domainType of
        Err e \<Rightarrow> resolveNested stores domain domainType
      | r \<Rightarrow> r)"

definition ResolveDomain :: "resolver list \<Rightarrow> MemStore \<Rightarrow> resolver" where
  "ResolveDomain dnsStores m domain domainType =
     (let domain = ToLower domain in
      case resolveStatic m domain domainType of
        Err e \<Rightarrow> if e = ErrStorageNotFound then resolveNested dnsStores domain domainType else Err e
      | r \<Rightarrow> r)"

end
