(* ===== verification/Dns_Msg.thy ===== *)
theory Dns_Msg
  imports Mem_Store
begin

text \<open>
  What the DNS components share: the parts of \<open>dns.Msg\<close> they read and write, the functions of the
  \<open>miekg/dns\<close> library they call (fields of a record, a parameter of the model), decimal numbers in
  messages, and the trace of a request (\<open>internal/dnscore/tracing.go\<close>).
\<close>

section \<open>Messages\<close>

record DnsQuestion =
  Name :: string
  Qtype :: "16 word"

record RR_Header =
  rrName :: string
  Rrtype :: "16 word"
  Class :: "16 word"
  Ttl :: "32 word"

datatype rdata =
    RdA "bytes option"
  | RdAAAA "bytes option"
  | RdTXT "string list"
  | RdSRV "16 word" "16 word" "16 word" string
  | RdPTR string
  | RdOther string

record RR =
  Hdr :: "RR_Header option"
  Rdata :: rdata

record Msg =
  Id :: "16 word"
  Opcode :: nat
  Rcode :: nat
  Question :: "DnsQuestion list"
  Answer :: "RR list"

definition newMsg :: Msg where
  "newMsg = \<lparr>Id = 0, Opcode = 0, Rcode = 0, Question = [], Answer = []\<rparr>"

text \<open>The values of RFC 1035, RFC 2782 and RFC 3596.\<close>

definition TypeA :: "16 word" where "TypeA = 1"
definition TypePTR :: "16 word" where "TypePTR = 12"
definition TypeTXT :: "16 word" where "TypeTXT = 16"
definition TypeAAAA :: "16 word" where "TypeAAAA = 28"
definition TypeSRV :: "16 word" where "TypeSRV = 33"
definition ClassINET :: "16 word" where "ClassINET = 1"
definition RcodeSuccess :: nat where "RcodeSuccess = 0"
definition RcodeNameError :: nat where "RcodeNameError = 3"
definition OpcodeQuery :: nat where "OpcodeQuery = 0"

lemmas dns_consts = TypeA_def TypePTR_def TypeTXT_def TypeAAAA_def TypeSRV_def ClassINET_def
  RcodeSuccess_def RcodeNameError_def OpcodeQuery_def

definition DefaultResponseTTL :: "32 word" where
  "DefaultResponseTTL = 3600"

section \<open>The library\<close>

text \<open>
  The receiver of a method is its first argument. \<open>SrvUnmarshal\<close> is \<open>json.Unmarshal\<close> into the
  structure of a service record.
\<close>

record dnslib =
  Fqdn :: "string \<Rightarrow> string"
  SetReply :: "Msg \<Rightarrow> Msg \<Rightarrow> Msg"
  SetRcode :: "Msg \<Rightarrow> Msg \<Rightarrow> nat \<Rightarrow> Msg"
  SetRcodeFormatError :: "Msg \<Rightarrow> Msg \<Rightarrow> Msg"
  CopyMsg :: "Msg \<Rightarrow> Msg"
  RRString :: "RR \<Rightarrow> string"
  SrvUnmarshal :: "string \<Rightarrow> (16 word \<times> 16 word \<times> 16 word \<times> string) res"

text \<open>
  Its documented behaviour, as far as the properties need it. A final dot after a backslash is
  part of the last label.
\<close>

definition is_fqdn :: "string \<Rightarrow> bool" where
  "is_fqdn s \<longleftrightarrow> HasSuffix s ''.''"

locale dns_library =
  fixes L :: dnslib
  assumes fqdn_fqdn: "is_fqdn s \<Longrightarrow> CHR 0x5C \<notin> set s \<Longrightarrow> Fqdn L s = s"
    and fqdn_add: "\<not> is_fqdn s \<Longrightarrow> Fqdn L s = s @ ''.''"
    and reply_question: "Question r = [q] \<Longrightarrow> Question (SetReply L m r) = [q]"
    and reply_answer: "Answer (SetReply L m r) = Answer m"
    and reply_id: "Id (SetReply L m r) = Id r"
    and reply_rcode: "Rcode (SetReply L m r) = RcodeSuccess"
    and rcode_rcode: "Rcode (SetRcode L m r c) = c"
    and rcode_answer: "Answer (SetRcode L m r c) = Answer m"
    and rcode_id: "Id (SetRcode L m r c) = Id r"
    and format_id: "Id (SetRcodeFormatError L m r) = Id r"
    and format_answer: "Answer (SetRcodeFormatError L m r) = Answer m"
    and copy: "CopyMsg L m = m"
begin

lemma fqdn_ends: "CHR 0x5C \<notin> set s \<Longrightarrow> HasSuffix (Fqdn L s) ''.''"
  by (cases "is_fqdn s") (simp_all add: fqdn_fqdn fqdn_add, simp add: is_fqdn_def)

end

text \<open>A library for names without escapes, to run the model on.\<close>

definition plain_dns :: dnslib where
  "plain_dns = \<lparr>Fqdn = (\<lambda>s. if is_fqdn s then s else s @ ''.''),
     SetReply = (\<lambda>m r. m\<lparr>Id := Id r, Opcode := Opcode r, Rcode := RcodeSuccess, Question := take 1 (Question r)\<rparr>),
     SetRcode = (\<lambda>m r c. m\<lparr>Id := Id r, Opcode := Opcode r, Rcode := c, Question := take 1 (Question r)\<rparr>),
     SetRcodeFormatError = (\<lambda>m r. m\<lparr>Id := Id r, Rcode := 1\<rparr>),
     CopyMsg = (\<lambda>m. m), RRString = (\<lambda>rr. []), SrvUnmarshal = (\<lambda>s. Ok (0, 0, 0, s))\<rparr>"

interpretation pdns: dns_library plain_dns
  by unfold_locales (auto simp: plain_dns_def is_fqdn_def)

lemma plain_dns_library: "dns_library plain_dns"
  by unfold_locales

section \<open>Decimal numbers\<close>

fun dec_digits :: "nat \<Rightarrow> string" where
  "dec_digits n = (if n < 10 then [char_of (48 + n)] else dec_digits (n div 10) @ [char_of (48 + n mod 10)])"

declare dec_digits.simps [simp del]

definition digit_value :: "char \<Rightarrow> nat" where
  "digit_value c = of_char c - 48"

definition is_digit :: "char \<Rightarrow> bool" where
  "is_digit c \<longleftrightarrow> 48 \<le> (of_char c :: nat) \<and> (of_char c :: nat) \<le> 57"

definition dec_value :: "string \<Rightarrow> nat" where
  "dec_value s = foldl (\<lambda>v c. 10 * v + digit_value c) 0 s"

lemma digit_char: "n < 10 \<Longrightarrow> digit_value (char_of (48 + n)) = n" "n < 10 \<Longrightarrow> is_digit (char_of (48 + n))"
  by (simp_all add: digit_value_def is_digit_def)

lemma dec_value_digits: "dec_value (dec_digits n) = n"
proof (induction n rule: dec_digits.induct)
  case (1 n)
  then show ?case
    by (subst dec_digits.simps) (auto simp: dec_value_def digit_char)
qed

lemma dec_digits_inj: "dec_digits m = dec_digits n \<longleftrightarrow> m = n"
  by (metis dec_value_digits)

lemma dec_digits_digit: "c \<in> set (dec_digits n) \<Longrightarrow> is_digit c"
proof (induction n rule: dec_digits.induct)
  case (1 n)
  show ?case
  proof (cases "n < 10")
    case True
    then show ?thesis using "1.prems" by (simp add: dec_digits.simps[of n] digit_char)
  next
    case False
    then show ?thesis using 1 by (auto simp: dec_digits.simps[of n] digit_char)
  qed
qed

lemma dec_digits_ne: "dec_digits n \<noteq> []"
  by (subst dec_digits.simps) auto

section \<open>Trace\<close>

type_synonym trace = "string list"

definition NewRequestContext :: trace where
  "NewRequestContext = []"

declare NewRequestContext_def [simp]

definition AddTraceInfo :: "string \<Rightarrow> (trace, unit) prog" where
  "AddTraceInfo info = modifyS (\<lambda>traceInfos. traceInfos @ [info])"

definition AddTraceInfoWithDnsAnswersIfNoError :: "dnslib \<Rightarrow> string \<Rightarrow> Msg \<Rightarrow> (trace, unit) prog" where
  "AddTraceInfoWithDnsAnswersIfNoError L info msg =
     AddTraceInfo (info @ ''['' @ concat (map (\<lambda>v. RRString L v @ '','') (Answer msg)) @ '']'')"

fun GetTraceInfoString :: "trace \<Rightarrow> string" where
  "GetTraceInfoString [] = []"
| "GetTraceInfoString [s] = s"
| "GetTraceInfoString (s # ss) = s @ ''|'' @ GetTraceInfoString ss"

lemma AddTraceInfo_run: "AddTraceInfo s t = (Ok (), t @ [s])"
  by (simp add: AddTraceInfo_def modifyS_def)

lemma bind_trace [go_simps]: "bindS (AddTraceInfo s) f t = f () (t @ [s])"
  by (simp add: bindS_def AddTraceInfo_run)

type_synonym handler = "Msg \<Rightarrow> (trace, Msg) prog"

definition question0 :: "Msg \<Rightarrow> DnsQuestion res" where
  "question0 m = (case Question m of [] \<Rightarrow> Panic ''index out of range'' | q # _ \<Rightarrow> Ok q)"

end
