(* ===== verification/Sequence_Id.thy ===== *)
theory Sequence_Id
  imports Prelude
begin

text \<open>
  Log positions (\<open>internal/iface/wal.go\<close>) and the names of the log files
  (\<open>filename\<close> and \<open>walfilename\<close> of \<open>internal/wal/wal.go\<close>): the comparison of positions is a
  linear order, a file name can be read back, and the names sort as the positions do.
\<close>

section \<open>Positions\<close>

datatype SequenceId = SequenceId (Term: int) (Collection: int) (Seq: int)

definition EmptySequenceId :: SequenceId where
  "EmptySequenceId = SequenceId 0 0 0"

definition StartWalSequence :: SequenceId where
  "StartWalSequence = SequenceId 1 1 1"

fun Compare :: "SequenceId \<Rightarrow> SequenceId \<Rightarrow> int" where
  "Compare s to =
     (if Term s < Term to then -1
      else if Term s > Term to then 1
      else if Collection s < Collection to then -1
      else if Collection s > Collection to then 1
      else if Seq s < Seq to then -1
      else if Seq s = Seq to then 0
      else 1)"

instantiation SequenceId :: linorder
begin

definition less_eq_SequenceId :: "SequenceId \<Rightarrow> SequenceId \<Rightarrow> bool" where
  "less_eq_SequenceId a b \<longleftrightarrow> Compare a b \<le> 0"

definition less_SequenceId :: "SequenceId \<Rightarrow> SequenceId \<Rightarrow> bool" where
  "less_SequenceId a b \<longleftrightarrow> Compare a b < 0"

instance
proof
  fix x y z :: SequenceId
  show "(x < y) = (x \<le> y \<and> \<not> y \<le> x)"
    by (auto simp: less_eq_SequenceId_def less_SequenceId_def)
  show "x \<le> x"
    by (simp add: less_eq_SequenceId_def)
  show "x \<le> z" if "x \<le> y" "y \<le> z"
    using that by (auto simp: less_eq_SequenceId_def split: if_splits)
  show "x = y" if "x \<le> y" "y \<le> x"
    using that by (cases x; cases y) (auto simp: less_eq_SequenceId_def split: if_splits)
  show "x \<le> y \<or> y \<le> x"
    by (auto simp: less_eq_SequenceId_def)
qed

end

lemma Compare_lex:
  "Compare a b < 0 \<longleftrightarrow> Term a < Term b \<or> Term a = Term b \<and>
     (Collection a < Collection b \<or> Collection a = Collection b \<and> Seq a < Seq b)"
  by auto

lemma Compare_0_iff: "Compare a b = 0 \<longleftrightarrow> a = b"
  by (cases a; cases b) auto

lemma Compare_pos_iff: "0 < Compare a b \<longleftrightarrow> b < a"
  by (auto simp: less_SequenceId_def)

section \<open>Hexadecimal numbers\<close>

definition hex_digit :: "nat \<Rightarrow> char" where
  "hex_digit n = ''0123456789abcdef'' ! n"

definition hex_value :: "char \<Rightarrow> nat" where
  "hex_value c =
     (let n = of_char c in if n < 58 then n - 48 else if n < 71 then n - 55 else n - 87)"

definition is_hex :: "char \<Rightarrow> bool" where
  "is_hex c \<longleftrightarrow> c \<in> set ''0123456789abcdefABCDEF''"

fun hex_digits :: "nat \<Rightarrow> string" where
  "hex_digits n = (if n < 16 then [hex_digit n] else hex_digits (n div 16) @ [hex_digit (n mod 16)])"

declare hex_digits.simps [simp del]

fun hex_number :: "nat \<Rightarrow> string \<Rightarrow> nat" where
  "hex_number acc [] = acc"
| "hex_number acc (c # cs) = hex_number (16 * acc + hex_value c) cs"

definition pad0 :: "nat \<Rightarrow> string \<Rightarrow> string" where
  "pad0 w s = replicate (w - length s) (CHR ''0'') @ s"

text \<open>\<open>%016x\<close> on an \<open>int64\<close>: the sign of a negative number takes one place of the width.\<close>

definition fmt016x :: "int \<Rightarrow> string" where
  "fmt016x v =
     (if v < 0 then CHR ''-'' # pad0 15 (hex_digits (nat (- v))) else pad0 16 (hex_digits (nat v)))"

text \<open>The fixed-width form the proofs use.\<close>

fun hexw :: "nat \<Rightarrow> nat \<Rightarrow> string" where
  "hexw 0 n = []"
| "hexw (Suc w) n = hexw w (n div 16) @ [hex_digit (n mod 16)]"

lemma length_hexw [simp]: "length (hexw w n) = w"
  by (induction w arbitrary: n) auto

lemma hexw_0: "hexw w 0 = replicate w (CHR ''0'')"
proof -
  have "hex_digit 0 = CHR ''0''" by code_simp
  then show ?thesis
    by (induction w) (simp_all flip: replicate_append_same)
qed

lemma length_hex_digits: "n < 16 ^ Suc w \<Longrightarrow> length (hex_digits n) \<le> Suc w"
proof (induction w arbitrary: n)
  case 0
  then show ?case by (subst hex_digits.simps) simp
next
  case (Suc w)
  show ?case
  proof (cases "n < 16")
    case True
    then show ?thesis by (subst hex_digits.simps) simp
  next
    case False
    from Suc.prems have "n div 16 < 16 ^ Suc w"
      by (simp add: less_mult_imp_div_less)
    then have "length (hex_digits (n div 16)) \<le> Suc w" by (rule Suc.IH)
    with False show ?thesis by (subst hex_digits.simps) simp
  qed
qed

lemma pad0_hex_digits: "n < 16 ^ Suc w \<Longrightarrow> pad0 (Suc w) (hex_digits n) = hexw (Suc w) n"
proof (induction w arbitrary: n)
  case 0
  then show ?case by (subst hex_digits.simps) (simp add: pad0_def)
next
  case (Suc w)
  show ?case
  proof (cases "n < 16")
    case True
    then have "n div 16 = 0" by simp
    then show ?thesis
      using True by (subst hex_digits.simps)
        (simp add: pad0_def hexw_0 flip: replicate_append_same)
  next
    case False
    from Suc.prems have n: "n div 16 < 16 ^ Suc w"
      by (simp add: less_mult_imp_div_less)
    have "pad0 (Suc (Suc w)) (hex_digits n) = pad0 (Suc w) (hex_digits (n div 16)) @ [hex_digit (n mod 16)]"
      using False by (subst hex_digits.simps) (simp add: pad0_def)
    then show ?thesis using Suc.IH[OF n] by simp
  qed
qed

lemma fmt016x_hexw:
  assumes "0 \<le> v" "in_i64 v" shows "fmt016x v = hexw 16 (nat v)"
proof -
  have "nat v < 16 ^ Suc 15" using assms by (simp add: in_i64_def)
  from pad0_hex_digits[OF this] have "pad0 16 (hex_digits (nat v)) = hexw 16 (nat v)"
    by (simp only: Suc_numeral Num.numeral_plus_one BitM_plus_one semiring_norm)
  then show ?thesis
    using assms(1) by (simp add: fmt016x_def del: hexw.simps)
qed


section \<open>Log file names\<close>

definition filename :: "int \<Rightarrow> int \<Rightarrow> string" where
  "filename term collection = fmt016x term @ fmt016x collection"

text \<open>
  \<open>fmt.Sscanf\<close> with the verb \<open>%016x\<close>: leading blanks are skipped (a newline is an error), then
  at most 16 characters are read, an optional sign and at least one digit, and the number must
  fit an \<open>int64\<close>.
\<close>

fun skip_space :: "string \<Rightarrow> string option" where
  "skip_space [] = Some []"
| "skip_space (c # cs) =
     (if c = CHR 0x0A then None
      else if c \<in> {CHR 0x20, CHR 0x09, CHR 0x0B, CHR 0x0C, CHR 0x0D} then skip_space cs
      else Some (c # cs))"

definition scan_sign :: "string \<Rightarrow> bool \<times> string" where
  "scan_sign s =
     (case s of [] \<Rightarrow> (False, [])
      | c # cs \<Rightarrow> if c = CHR ''-'' then (True, cs) else if c = CHR ''+'' then (False, cs) else (False, s))"

definition scan_016x :: "string \<Rightarrow> (int \<times> string) option" where
  "scan_016x s =
     (case skip_space s of None \<Rightarrow> None
      | Some s1 \<Rightarrow>
        let (neg, s2) = scan_sign s1;
            w = 16 - (length s1 - length s2);
            ds = takeWhile is_hex (take w s2);
            n = int (hex_number 0 ds);
            v = (if neg then - n else n)
        in if ds = [] \<or> \<not> in_i64 v then None else Some (v, drop (length ds) s2))"

definition walfilename :: "string \<Rightarrow> (string \<times> SequenceId) res" where
  "walfilename name =
     (if length name \<noteq> 32 then Err (ErrorMsg ''file name length mismatch'')
      else case scan_016x name of None \<Rightarrow> Err (LibError ''Sscanf'')
      | Some (v1, rest) \<Rightarrow>
        (case scan_016x rest of None \<Rightarrow> Err (LibError ''Sscanf'')
         | Some (v2, _) \<Rightarrow>
           if v1 \<le> 0 \<or> v2 \<le> 0 then Err (ErrorMsg ''file sequence id has one or more less than 1'')
           else Ok (name, SequenceId v1 v2 0)))"

lemma less_16_cases:
  assumes "n < (16 :: nat)"
  obtains "n = 0" | "n = 1" | "n = 2" | "n = 3" | "n = 4" | "n = 5" | "n = 6" | "n = 7" | "n = 8"
    | "n = 9" | "n = 10" | "n = 11" | "n = 12" | "n = 13" | "n = 14" | "n = 15"
proof -
  have "n \<in> set [0..<16]" using assms by simp
  also have "[0..<16] = [0, 1, 2, 3, 4, 5, 6, 7, 8, 9, 10, 11, 12, 13, 14, 15 :: nat]"
    by (simp add: upt_rec)
  finally show thesis using that by auto
qed

lemma hex_digit_props:
  assumes "n < 16"
  shows "is_hex (hex_digit n)" "hex_value (hex_digit n) = n"
    "hex_digit n \<notin> {CHR 0x0A, CHR 0x20, CHR 0x09, CHR 0x0B, CHR 0x0C, CHR 0x0D, CHR ''-'', CHR ''+''}"
  using assms by (cases rule: less_16_cases; simp add: hex_digit_def is_hex_def hex_value_def)+

lemma hex_digit_less: "m < 16 \<Longrightarrow> n < 16 \<Longrightarrow> hex_digit m < hex_digit n \<longleftrightarrow> m < n"
proof -
  have of_char_hex: "(of_char (hex_digit n) :: nat) = (if n < 10 then 48 + n else 87 + n)" if "n < 16" for n
    using that by (cases rule: less_16_cases; simp add: hex_digit_def)
  assume "m < 16" "n < 16"
  then show ?thesis by (simp add: less_char_def of_char_hex)
qed

lemma hexw_hex: "c \<in> set (hexw w n) \<Longrightarrow> is_hex c"
  by (induction w arbitrary: n) (auto simp: hex_digit_props)

lemma hex_number_append: "hex_number a (xs @ [c]) = 16 * hex_number a xs + hex_value c"
  by (induction xs arbitrary: a) auto

lemma hex_number_hexw: "n < 16 ^ w \<Longrightarrow> hex_number 0 (hexw w n) = n"
proof (induction w arbitrary: n)
  case (Suc w)
  then have "n div 16 < 16 ^ w" by (simp add: less_mult_imp_div_less mult.commute)
  with Suc.IH show ?case by (simp add: hex_number_append hex_digit_props)
qed simp

lemma hexw_head: "w > 0 \<Longrightarrow> \<exists>d cs. hexw w n = hex_digit d # cs \<and> d < 16"
proof (induction w arbitrary: n)
  case (Suc w)
  show ?case
  proof (cases "w = 0")
    case False
    then obtain d cs where "hexw w (n div 16) = hex_digit d # cs" "d < 16"
      using Suc.IH by blast
    then show ?thesis by auto
  qed (auto intro!: exI[of _ "n mod 16"])
qed simp

text \<open>Reading back a number written with \<open>%016x\<close>, whatever follows it.\<close>

lemma scan_fmt016x:
  assumes "0 \<le> v" "in_i64 v" shows "scan_016x (fmt016x v @ rest) = Some (v, rest)"
proof -
  define h where "h = hexw 16 (nat v)"
  have f: "fmt016x v = h" using fmt016x_hexw[OF assms] by (simp add: h_def)
  obtain d cs where d: "h = hex_digit d # cs" "d < 16"
    using hexw_head[of 16 "nat v"] by (auto simp: h_def)
  have skip: "skip_space (h @ rest) = Some (h @ rest)"
    using d hex_digit_props[of d] by auto
  have sign: "scan_sign (h @ rest) = (False, h @ rest)"
    using d hex_digit_props[of d] by (auto simp: scan_sign_def)
  have len: "length h = 16" by (simp add: h_def del: hexw.simps)
  have tw: "takeWhile is_hex (take 16 (h @ rest)) = h"
    using len by (simp add: takeWhile_eq_all_conv h_def hexw_hex del: hexw.simps)
  have num: "hex_number 0 h = nat v"
    unfolding h_def by (rule hex_number_hexw) (use assms in \<open>simp add: in_i64_def\<close>)
  show ?thesis
    unfolding f scan_016x_def skip option.case sign prod.case Let_def
    using tw num len assms d by (simp del: takeWhile.simps hex_number.simps take_append)
qed

lemma walfilename_filename:
  assumes "0 < t" "in_i64 t" "0 < c" "in_i64 c"
  shows "walfilename (filename t c) = Ok (filename t c, SequenceId t c 0)"
proof -
  have "length (filename t c) = 32"
    using assms by (simp add: filename_def fmt016x_hexw del: hexw.simps)
  moreover have "scan_016x (filename t c) = Some (t, fmt016x c)"
    using assms scan_fmt016x[of t "fmt016x c"] by (simp add: filename_def)
  moreover have "scan_016x (fmt016x c) = Some (c, [])"
    using assms scan_fmt016x[of c "[]"] by simp
  ultimately show ?thesis
    using assms by (simp add: walfilename_def)
qed

section \<open>The names sort as the positions do\<close>

lemma snoc_less:
  fixes xs ys :: "'a::linorder list"
  assumes "length xs = length ys"
  shows "xs @ [a] < ys @ [b] \<longleftrightarrow> xs < ys \<or> xs = ys \<and> a < b"
  using assms by (induction xs ys rule: list_induct2) auto

lemma append_less:
  fixes xs ys :: "'a::linorder list"
  assumes "length xs = length ys"
  shows "xs @ us < ys @ vs \<longleftrightarrow> xs < ys \<or> xs = ys \<and> us < vs"
  using assms by (induction xs ys rule: list_induct2) auto

lemma hexw_less:
  "m < 16 ^ w \<Longrightarrow> n < 16 ^ w \<Longrightarrow> hexw w m < hexw w n \<longleftrightarrow> m < n"
proof (induction w arbitrary: m n)
  case (Suc w)
  then have b: "m div 16 < 16 ^ w" "n div 16 < 16 ^ w"
    by (simp_all add: less_mult_imp_div_less mult.commute)
  have eq: "hexw w (m div 16) = hexw w (n div 16) \<longleftrightarrow> m div 16 = n div 16"
    using b by (metis hex_number_hexw)
  have div_mod: "a div 16 < b div 16 \<or> a div 16 = b div 16 \<and> a mod 16 < b mod 16 \<longleftrightarrow> a < b" for a b :: nat
    using div_mult_mod_eq[of a 16] div_mult_mod_eq[of b 16]
      mod_less_divisor[of 16 a] mod_less_divisor[of 16 b]
    by (cases "a div 16" "b div 16" rule: linorder_cases) linarith+
  have "hexw (Suc w) m < hexw (Suc w) n \<longleftrightarrow>
      m div 16 < n div 16 \<or> m div 16 = n div 16 \<and> m mod 16 < n mod 16"
    using Suc.IH[OF b] eq by (simp add: snoc_less hex_digit_less)
  also have "\<dots> \<longleftrightarrow> m < n" by (rule div_mod)
  finally show ?case .
qed simp

lemma filename_less:
  assumes "0 \<le> t" "in_i64 t" "0 \<le> c" "in_i64 c" "0 \<le> t'" "in_i64 t'" "0 \<le> c'" "in_i64 c'"
  shows "filename t c < filename t' c' \<longleftrightarrow> t < t' \<or> t = t' \<and> c < c'"
proof -
  have b: "nat x < 16 ^ 16" if "0 \<le> x" "in_i64 x" for x
    using that by (simp add: in_i64_def)
  have eq: "hexw 16 (nat x) = hexw 16 (nat y) \<longleftrightarrow> x = y"
    if "0 \<le> x" "in_i64 x" "0 \<le> y" "in_i64 y" for x y
    using that b by (metis hex_number_hexw nat_eq_iff2 nat_0_le)
  have lt: "hexw 16 (nat x) < hexw 16 (nat y) \<longleftrightarrow> x < y"
    if "0 \<le> x" "in_i64 x" "0 \<le> y" "in_i64 y" for x y
    using hexw_less[OF b b, OF that] that by (auto simp del: hexw.simps)
  show ?thesis
    using assms by (simp add: filename_def fmt016x_hexw append_less eq lt del: hexw.simps)
qed

lemma filename_inj:
  assumes "0 \<le> t" "in_i64 t" "0 \<le> c" "in_i64 c" "0 \<le> t'" "in_i64 t'" "0 \<le> c'" "in_i64 c'"
  shows "filename t c = filename t' c' \<longleftrightarrow> t = t' \<and> c = c'"
  using filename_less[OF assms] filename_less[OF assms(5-8) assms(1-4)]
  by (metis less_irrefl linorder_less_linear)

end
