(* ===== verification/Net_Ip.thy ===== *)
theory Net_Ip
  imports Dns_Msg Sequence_Id
begin

text \<open>
  IP addresses: \<open>net.ParseIP\<close> with the syntax of the standard library (dotted decimal without
  leading zeros, hexadecimal groups with one \<open>::\<close> and an optional dotted tail, no zone), and the
  reverse names of \<open>internal/dnscore/handlers.ptr.utils.go\<close>.
\<close>

section \<open>Parsing\<close>

fun split_on :: "char \<Rightarrow> string \<Rightarrow> string list" where
  "split_on sep [] = [[]]"
| "split_on sep (c # cs) =
     (if c = sep then [] # split_on sep cs
      else case split_on sep cs of [] \<Rightarrow> [[c]] | f # fs \<Rightarrow> (c # f) # fs)"

definition parse_octet :: "string \<Rightarrow> byte option" where
  "parse_octet s =
     (if s \<noteq> [] \<and> list_all is_digit s \<and> (length s > 1 \<longrightarrow> hd s \<noteq> CHR ''0'') \<and> dec_value s \<le> 255
      then Some (of_nat (dec_value s)) else None)"

definition parseIPv4 :: "string \<Rightarrow> bytes option" where
  "parseIPv4 s = (let fs = split_on CHR ''.'' s in if length fs = 4 then those (map parse_octet fs) else None)"

text \<open>The loop over the groups: the rest of the text, the bytes so far, where the \<open>::\<close> stood.\<close>

function v6_loop :: "string \<Rightarrow> bytes \<Rightarrow> nat option \<Rightarrow> (string \<times> bytes \<times> nat option) option" where
  "v6_loop s ip ellipsis =
     (if 16 \<le> length ip then Some (s, ip, ellipsis)
      else
        let ds = takeWhile is_hex s; rest = dropWhile is_hex s; acc = hex_number 0 ds in
        if ds = [] \<or> 4 < length ds then None
        else if rest \<noteq> [] \<and> hd rest = CHR ''.'' then
          (if ellipsis = None \<and> length ip \<noteq> 12 then None
           else if 16 < length ip + 4 then None
           else case parseIPv4 s of None \<Rightarrow> None | Some b \<Rightarrow> Some ([], ip @ b, ellipsis))
        else
          let ip' = ip @ [of_nat (acc div 256), of_nat (acc mod 256)] in
          if rest = [] then Some ([], ip', ellipsis)
          else if hd rest \<noteq> CHR '':'' \<or> tl rest = [] then None
          else if hd (tl rest) = CHR '':'' then
            (if ellipsis \<noteq> None then None
             else if tl (tl rest) = [] then Some ([], ip', Some (length ip'))
             else v6_loop (tl (tl rest)) ip' (Some (length ip')))
          else v6_loop (tl rest) ip' ellipsis)"
  by pat_completeness auto
termination
  by (relation "measure (\<lambda>(s, ip, e). 16 - length ip)") auto

declare v6_loop.simps [simp del]

definition parseIPv6 :: "string \<Rightarrow> bytes option" where
  "parseIPv6 s =
     (if CHR ''%'' \<in> set s then None
      else
        let (s1, e0) = (if take 2 s = ''::'' then (drop 2 s, Some 0) else (s, None)) in
        if e0 \<noteq> None \<and> s1 = [] then Some (replicate 16 0)
        else case v6_loop s1 [] e0 of
          None \<Rightarrow> None
        | Some (r, ip, e) \<Rightarrow>
            if r \<noteq> [] then None
            else if length ip < 16 then
              (case e of None \<Rightarrow> None | Some j \<Rightarrow> Some (take j ip @ replicate (16 - length ip) 0 @ drop j ip))
            else if e \<noteq> None then None else Some ip)"

definition v4_prefix :: bytes where
  "v4_prefix = replicate 10 0 @ [255, 255]"

definition ParseIP :: "string \<Rightarrow> bytes option" where
  "ParseIP s =
     (case dropWhile (\<lambda>c. c \<notin> {CHR ''.'', CHR '':'', CHR ''%''}) s of
        [] \<Rightarrow> None
      | c # _ \<Rightarrow>
          if c = CHR ''.'' then map_option (\<lambda>b. v4_prefix @ b) (parseIPv4 s)
          else if c = CHR '':'' then parseIPv6 s
          else None)"

definition To4 :: "bytes \<Rightarrow> bytes option" where
  "To4 ip = (if length ip = 4 then Some ip
             else if length ip = 16 \<and> take 12 ip = v4_prefix then Some (drop 12 ip) else None)"

section \<open>Reverse names\<close>

definition IsValidIPAddress :: "string \<Rightarrow> bool" where
  "IsValidIPAddress ipStr \<longleftrightarrow> ParseIP ipStr \<noteq> None"

definition hex_byte :: "byte \<Rightarrow> string" where
  "hex_byte b = [hex_digit (unat b div 16), hex_digit (unat b mod 16)]"

definition ptr_v4 :: "bytes \<Rightarrow> string" where
  "ptr_v4 ip = dec_digits (unat (ip ! 3)) @ ''.'' @ dec_digits (unat (ip ! 2)) @ ''.''
     @ dec_digits (unat (ip ! 1)) @ ''.'' @ dec_digits (unat (ip ! 0)) @ ''.in-addr.arpa''"

definition ptr_v6 :: "bytes \<Rightarrow> string" where
  "ptr_v6 ip = concat (map (\<lambda>v. [v, CHR ''.'']) (rev (concat (map hex_byte ip)))) @ ''ip6.arpa''"

definition FromIPAddressToPtrFqdn :: "dnslib \<Rightarrow> string \<Rightarrow> string res" where
  "FromIPAddressToPtrFqdn L ipStr =
     (case ParseIP ipStr of
        None \<Rightarrow> Panic ''not a valid IP address''
      | Some ip \<Rightarrow>
          (case To4 ip of
             Some ipv4 \<Rightarrow> Ok (Fqdn L (ptr_v4 ipv4))
           | None \<Rightarrow> Ok (Fqdn L (ptr_v6 ip))))"

definition AddIpReverseDnsToStorage :: "dnslib \<Rightarrow> string \<Rightarrow> string \<Rightarrow> (MemStore, unit) prog" where
  "AddIpReverseDnsToStorage L ipStr domain =
     (if \<not> IsValidIPAddress ipStr then failS (ErrorMsg ''invalid IP address:'')
      else bindS (liftR (FromIPAddressToPtrFqdn L ipStr)) (\<lambda>rDomain.
        PutDomain (Fqdn L) rDomain (Fqdn L (ToLower domain)) DomainTypePtr))"

section \<open>Addresses have sixteen bytes\<close>

lemma length_those: "those xs = Some ys \<Longrightarrow> length ys = length xs"
  by (induction xs arbitrary: ys) (auto split: option.splits)

lemma length_parseIPv4: "parseIPv4 s = Some b \<Longrightarrow> length b = 4"
  by (auto simp: parseIPv4_def Let_def split: if_splits dest: length_those)

lemma length_v6_loop:
  "v6_loop s ip e = Some (r, ip', e') \<Longrightarrow> even (length ip) \<Longrightarrow> length ip \<le> 16 \<Longrightarrow>
    (\<forall>j. e = Some j \<longrightarrow> j \<le> length ip) \<Longrightarrow> length ip' \<le> 16 \<and> (\<forall>j. e' = Some j \<longrightarrow> j \<le> length ip')"
proof (induction s ip e rule: v6_loop.induct)
  case (1 s ip e)
  have two: "length ip \<le> 14" if "\<not> 16 \<le> length ip"
    using that "1.prems"(2) by presburger
  show ?case
  proof (cases "16 \<le> length ip")
    case True
    then show ?thesis using "1.prems" by (simp add: v6_loop.simps)
  next
    case False
    define ds where "ds = takeWhile is_hex s"
    define rest where "rest = dropWhile is_hex s"
    define acc where "acc = hex_number 0 ds"
    define ip1 where "ip1 = ip @ [of_nat (acc div 256), of_nat (acc mod 256)]"
    have ip1: "even (length ip1)" "length ip1 \<le> 16" "\<forall>j. e = Some j \<longrightarrow> j \<le> length ip1"
      using two[OF False] "1.prems"(2,4) by (auto simp: ip1_def)
    note IH = "1.IH"[OF False ds_def rest_def acc_def _ _ ip1_def]
    show ?thesis
      using "1.prems" False ip1 IH
      unfolding v6_loop.simps[of s ip e] ds_def[symmetric] rest_def[symmetric] Let_def acc_def[symmetric] ip1_def[symmetric]
      by (auto split: if_splits option.splits dest: length_parseIPv4)
  qed
qed

lemma length_parseIPv6: "parseIPv6 s = Some ip \<Longrightarrow> length ip = 16"
  by (auto simp: parseIPv6_def Let_def split: if_splits option.splits dest!: length_v6_loop)

lemma length_ParseIP: "ParseIP s = Some ip \<Longrightarrow> length ip = 16"
  by (auto simp: ParseIP_def v4_prefix_def split: list.splits if_splits dest: length_parseIPv4 length_parseIPv6)

section \<open>Reverse names determine the address\<close>

lemma first_field:
  assumes "a @ c # x = a' @ c # x'" "c \<notin> set a" "c \<notin> set a'"
  shows "a = a' \<and> x = x'"
proof -
  have "takeWhile (\<lambda>d. d \<noteq> c) (a @ c # x) = a" if "c \<notin> set a" for a x
    by (subst takeWhile_append2) (use that in auto)
  then have "a = a'" using assms by metis
  then show ?thesis using assms(1) by simp
qed

lemma dot_not_digit: "CHR ''.'' \<notin> set (dec_digits n)"
  using dec_digits_digit[of "CHR ''.''" n] by (auto simp: is_digit_def)

lemma dec_fields:
  "dec_digits m @ CHR ''.'' # x = dec_digits n @ CHR ''.'' # y \<longleftrightarrow> m = n \<and> x = y"
  using first_field[OF _ dot_not_digit dot_not_digit] dec_digits_inj by blast

lemma ptr_v4_inj:
  assumes "length a = 4" "length b = 4" "ptr_v4 a = ptr_v4 b"
  shows "a = b"
proof -
  have "unat (a ! i) = unat (b ! i)" if "i < 4" for i
  proof -
    have "i = 0 \<or> i = 1 \<or> i = 2 \<or> i = 3" using that by auto
    then show ?thesis using assms(3) by (auto simp: ptr_v4_def dec_fields dec_digits_inj)
  qed
  then show ?thesis using assms(1,2) by (intro nth_equalityI) (auto intro: unsigned_word_eqI)
qed

lemma hex_digit_inj: "m < 16 \<Longrightarrow> n < 16 \<Longrightarrow> hex_digit m = hex_digit n \<Longrightarrow> m = n"
  by (metis hex_digit_props(2))

lemma hex_byte_inj: "hex_byte a = hex_byte b \<longleftrightarrow> a = b"
proof
  assume eq: "hex_byte a = hex_byte b"
  have lt: "unat x div 16 < 16" "unat x mod 16 < 16" for x :: byte
    using unsigned_less[of x, where 'a = nat] by auto
  have "unat a div 16 = unat b div 16" "unat a mod 16 = unat b mod 16"
    using eq hex_digit_inj[OF lt(1) lt(1)] hex_digit_inj[OF lt(2) lt(2)] by (auto simp: hex_byte_def)
  then have "unat a = unat b" by (metis div_mult_mod_eq)
  then show "a = b" by (rule unsigned_word_eqI)
qed simp

lemma concat_hex_inj: "concat (map hex_byte a) = concat (map hex_byte b) \<Longrightarrow> a = b"
proof (induction a arbitrary: b)
  case Nil
  then show ?case by (cases b) (auto simp: hex_byte_def)
next
  case (Cons x a)
  then obtain y b' where b: "b = y # b'" by (cases b) (auto simp: hex_byte_def)
  have len: "length (hex_byte z) = 2" for z by (simp add: hex_byte_def)
  have "hex_byte x = hex_byte y \<and> concat (map hex_byte a) = concat (map hex_byte b')"
    using Cons.prems b len by (simp add: append_eq_append_conv)
  then show ?case using Cons.IH b by (simp add: hex_byte_inj)
qed

lemma dotted_inj: "concat (map (\<lambda>v. [v, c]) a) = concat (map (\<lambda>v. [v, c]) b) \<Longrightarrow> a = b"
proof (induction a arbitrary: b)
  case Nil
  then show ?case by (cases b) auto
next
  case (Cons x a)
  then show ?case by (cases b) auto
qed

lemma ptr_v6_inj: "ptr_v6 a = ptr_v6 b \<Longrightarrow> a = b"
  using concat_hex_inj[of a b] by (auto simp: ptr_v6_def dest!: dotted_inj)

lemma ptr_v4_v6: "ptr_v4 a \<noteq> ptr_v6 b"
proof
  assume "ptr_v4 a = ptr_v6 b"
  then have "take 9 (rev (ptr_v4 a)) = take 9 (rev (ptr_v6 b))" by simp
  then show False by (simp add: ptr_v4_def ptr_v6_def)
qed

section \<open>The name as the standards define it\<close>

text \<open>
  The labels of RFC 1035 and RFC 3596: of an IPv4 address its numbers in decimal, the last one first,
  under \<open>in-addr.arpa\<close>; of any other the 32 hexadecimal digits of the 128-bit number, the lowest
  first, under \<open>ip6.arpa\<close>.
\<close>

definition address_number :: "bytes \<Rightarrow> nat" where
  "address_number ip = foldl (\<lambda>n b. 256 * n + unat b) 0 ip"

definition reverse_labels :: "bytes \<Rightarrow> string list" where
  "reverse_labels ip =
     (if take 12 ip = v4_prefix then map (\<lambda>b. dec_digits (unat b)) (rev (drop 12 ip)) @ [''in-addr'', ''arpa'']
      else map (\<lambda>i. [hex_digit (address_number ip div 16 ^ i mod 16)]) [0..<32] @ [''ip6'', ''arpa''])"

definition reverse_name :: "bytes \<Rightarrow> string" where
  "reverse_name ip = concat (map (\<lambda>l. l @ ''.'') (reverse_labels ip))"

lemma nibbles_reversed:
  "rev (concat (map hex_byte ip)) = map (\<lambda>i. hex_digit (address_number ip div 16 ^ i mod 16)) [0..<2 * length ip]"
proof (induction ip rule: rev_induct)
  case (snoc b ip)
  let ?n = "address_number ip" and ?u = "unat b"
  have "?u < 2 ^ LENGTH(8)" by (rule unsigned_less)
  then have u: "?u < 256" by simp
  have n: "address_number (ip @ [b]) = 256 * ?n + ?u" by (simp add: address_number_def)
  have split: "256 * ?n + ?u = ?u + 16 * (16 * ?n)" by simp
  have 1: "(256 * ?n + ?u) mod 16 = ?u mod 16" unfolding split by (rule mod_mult_self2)
  have "(256 * ?n + ?u) div 16 = 16 * ?n + ?u div 16" unfolding split by (rule div_mult_self2) simp
  then have 2: "(256 * ?n + ?u) div 16 mod 16 = ?u div 16" using u by simp
  have "(256 * ?n + ?u) div 256 = ?n" using u by simp
  then have 3: "(256 * ?n + ?u) div 16 ^ Suc (Suc i) = ?n div 16 ^ i" for i
    by (simp add: div_mult2_eq[symmetric] mult.assoc[symmetric]) (simp add: div_mult2_eq)
  have up: "[0..<2 * length (ip @ [b])] = 0 # Suc 0 # map (\<lambda>i. Suc (Suc i)) [0..<2 * length ip]"
    by (simp add: upt_conv_Cons map_Suc_upt[symmetric] comp_def del: upt_Suc)
  show ?case
    unfolding up n using snoc.IH 1 2 3 by (simp add: hex_byte_def comp_def)
qed (simp add: address_number_def)

lemma ptr_v6_labels:
  assumes "length ip = 16" "take 12 ip \<noteq> v4_prefix"
  shows "ptr_v6 ip @ ''.'' = reverse_name ip"
proof -
  have "concat (map (\<lambda>v. [v, CHR ''.'']) (rev (concat (map hex_byte ip))))
      = concat (map (\<lambda>l. l @ ''.'') (map (\<lambda>i. [hex_digit (address_number ip div 16 ^ i mod 16)]) [0..<32]))"
    unfolding nibbles_reversed using assms(1) by (simp add: comp_def)
  then show ?thesis using assms(2) by (simp only: ptr_v6_def reverse_name_def reverse_labels_def if_False map_append concat_append) simp
qed

lemma ptr_v4_labels:
  assumes "take 12 ip = v4_prefix" "drop 12 ip = x" "length x = 4"
  shows "ptr_v4 x @ ''.'' = reverse_name ip"
proof -
  obtain a b c d where "x = [a, b, c, d]" using assms(3) by (auto simp: numeral_eq_Suc length_Suc_conv)
  then show ?thesis using assms(1,2) by (simp add: ptr_v4_def reverse_name_def reverse_labels_def)
qed

section \<open>Properties\<close>

text \<open>
  C31: reverse names are exact: an address, of either family and in any spelling, gets the name that
  the standards define for it, so two strings get the same name exactly if they parse to the same
  sixteen bytes, and a string that does not parse makes the function panic.
\<close>

theorem reverse_name_exact:
  assumes "dns_library L"
  shows "(case ParseIP s of
        None \<Rightarrow> \<not> IsValidIPAddress s \<and> FromIPAddressToPtrFqdn L s = Panic ''not a valid IP address''
      | Some ip \<Rightarrow> IsValidIPAddress s \<and> FromIPAddressToPtrFqdn L s = Ok (reverse_name ip))
    \<and> (FromIPAddressToPtrFqdn L s = FromIPAddressToPtrFqdn L s' \<longleftrightarrow> ParseIP s = ParseIP s')"
proof -
  have fq: "Fqdn L (ptr_v4 a) = ptr_v4 a @ ''.''" "Fqdn L (ptr_v6 a) = ptr_v6 a @ ''.''" for a
  proof -
    have "\<not> is_fqdn (ptr_v4 a)" "\<not> is_fqdn (ptr_v6 a)"
      by (simp_all add: is_fqdn_def HasSuffix_iff ptr_v4_def ptr_v6_def append_eq_append_conv2)
    then show "Fqdn L (ptr_v4 a) = ptr_v4 a @ ''.''" "Fqdn L (ptr_v6 a) = ptr_v6 a @ ''.''"
      by (simp_all add: dns_library.fqdn_add[OF assms])
  qed
  have t4: "To4 a = Some x \<Longrightarrow> a = v4_prefix @ x \<and> length x = 4" if "length a = 16" for a x
    using that by (auto simp: To4_def split: if_splits) (metis append_take_drop_id)
  have name: "FromIPAddressToPtrFqdn L s = Ok (reverse_name ip)" if p: "ParseIP s = Some ip" for s ip
  proof (cases "To4 ip")
    case None
    then have "take 12 ip \<noteq> v4_prefix" using length_ParseIP[OF p] by (auto simp: To4_def)
    then show ?thesis using p None ptr_v6_labels[OF length_ParseIP[OF p]] by (simp add: FromIPAddressToPtrFqdn_def fq)
  next
    case (Some x)
    then have "take 12 ip = v4_prefix" "drop 12 ip = x" "length x = 4"
      using length_ParseIP[OF p] by (auto simp: To4_def split: if_splits)
    then show ?thesis using p Some ptr_v4_labels by (simp add: FromIPAddressToPtrFqdn_def fq)
  qed
  have inj: "ParseIP s = ParseIP s'" if run: "FromIPAddressToPtrFqdn L s = Ok n" "FromIPAddressToPtrFqdn L s' = Ok n" for s s' n
  proof -
    obtain a b where ab: "ParseIP s = Some a" "ParseIP s' = Some b"
      using run by (cases "ParseIP s"; cases "ParseIP s'") (auto simp: FromIPAddressToPtrFqdn_def)
    have l: "length a = 16" "length b = 16" using ab length_ParseIP by auto
    show ?thesis
      using run ab t4[OF l(1)] t4[OF l(2)] ptr_v4_inj ptr_v6_inj ptr_v4_v6 ptr_v4_v6[symmetric]
      by (auto simp: FromIPAddressToPtrFqdn_def fq split: option.splits)
  qed
  have bad: "FromIPAddressToPtrFqdn L s = Panic ''not a valid IP address''" if "ParseIP s = None" for s
    using that by (simp add: FromIPAddressToPtrFqdn_def)
  have "FromIPAddressToPtrFqdn L s = FromIPAddressToPtrFqdn L s' \<longleftrightarrow> ParseIP s = ParseIP s'"
  proof (cases "ParseIP s")
    case None
    then show ?thesis using bad[of s] bad[of s'] name[of s'] by (cases "ParseIP s'") auto
  next
    case (Some a)
    then show ?thesis using name[OF Some] inj[of s "reverse_name a" s'] name[of s'] bad[of s'] by (cases "ParseIP s'") auto
  qed
  then show ?thesis using name bad by (auto simp: IsValidIPAddress_def split: option.splits)
qed

theorem reverse_name_exact_witness:
  "FromIPAddressToPtrFqdn plain_dns ''127.0.0.1'' = Ok ''1.0.0.127.in-addr.arpa.''
   \<and> FromIPAddressToPtrFqdn plain_dns ''127.0.0.1'' \<noteq> FromIPAddressToPtrFqdn plain_dns ''10.0.0.1''"
proof -
  have p: "ParseIP ''127.0.0.1'' = Some (v4_prefix @ [127, 0, 0, 1])" by code_simp
  have q: "ParseIP ''127.0.0.1'' \<noteq> ParseIP ''10.0.0.1''" by code_simp
  have "ptr_v4 [127, 0, 0, 1] @ ''.'' = reverse_name (v4_prefix @ [127, 0, 0, 1])"
    by (rule ptr_v4_labels) (simp_all add: v4_prefix_def)
  moreover have "ptr_v4 [127, 0, 0, 1] @ ''.'' = ''1.0.0.127.in-addr.arpa.''" by code_simp
  ultimately have "reverse_name (v4_prefix @ [127, 0, 0, 1]) = ''1.0.0.127.in-addr.arpa.''" by simp
  then have "FromIPAddressToPtrFqdn plain_dns ''127.0.0.1'' = Ok ''1.0.0.127.in-addr.arpa.''"
    using reverse_name_exact[OF plain_dns_library, of "''127.0.0.1''"] p by simp
  then show ?thesis
    using reverse_name_exact[OF plain_dns_library, of "''127.0.0.1''" "''10.0.0.1''"] q by blast
qed

end
