(* ===== verification/Dns_Handlers.thy ===== *)
theory Dns_Handlers
  imports Net_Ip
begin

text \<open>
  The handlers of DNS questions (\<open>internal/dnscore\<close>: \<open>handlers*.go\<close>, \<open>upstream.go\<close>): one per
  record type over a storage, in front of the upstream resolver, which refuses names of enclosed
  domains. The exchange with the upstream server is a parameter.
\<close>

section \<open>Upstream\<close>

definition NotFoundUpstreamDns :: "dnslib \<Rightarrow> bool \<Rightarrow> handler" where
  "NotFoundUpstreamDns L respondNXDomainForAAAA m =
     bindS (AddTraceInfo ''NotFoundUpstreamDns'') (\<lambda>_.
     bindS (liftR (question0 m)) (\<lambda>q.
       let defaultRcode = (if Qtype q = TypeAAAA \<and> \<not> respondNXDomainForAAAA then RcodeSuccess else RcodeNameError);
           reply = SetRcode L newMsg m defaultRcode in
       bindS (AddTraceInfo (''NotFoundUpstreamDns-rcode:['' @ dec_digits (Rcode reply) @ '']'')) (\<lambda>_.
         returnS reply)))"

record UpstreamDns =
  Servers :: "string list"
  Port :: string
  enclosureSuffixMap :: "(string, string list) gomap"
  enclosureDomainMap :: "(string, string list) gomap"

record enclosure =
  EType :: string
  Suffix :: string

definition add_to :: "string \<Rightarrow> string \<Rightarrow> (string, string list) gomap \<Rightarrow> (string, string list) gomap" where
  "add_to k v m = mput k ((case mget m k of None \<Rightarrow> [] | Some l \<Rightarrow> l) @ [v]) m"

definition suffixMap :: "dnslib \<Rightarrow> enclosure list \<Rightarrow> (string, string list) gomap" where
  "suffixMap L suffixes =
     foldl (\<lambda>m v. add_to (EType v)
       (Fqdn L (if HasPrefix (Suffix v) ''.'' then Suffix v else CHR ''.'' # Suffix v)) m) [] suffixes"

definition domainMap :: "dnslib \<Rightarrow> enclosure list \<Rightarrow> (string, string list) gomap" where
  "domainMap L suffixes =
     foldl (\<lambda>m v. if \<not> HasSuffix (Suffix v) ''.'' then add_to (EType v) (Fqdn L (Suffix v)) m else m) [] suffixes"

definition NewUpstreamDNSWithSingle :: "dnslib \<Rightarrow> string list \<Rightarrow> enclosure list \<Rightarrow> UpstreamDns" where
  "NewUpstreamDNSWithSingle L server suffixes =
     \<lparr>Servers = server, Port = ''53'', enclosureSuffixMap = suffixMap L suffixes, enclosureDomainMap = domainMap L suffixes\<rparr>"

definition enclosureKey :: "16 word \<Rightarrow> string option" where
  "enclosureKey qtype =
     (if qtype = TypeA then Some ''A''
      else if qtype = TypeAAAA then Some ''AAAA''
      else if qtype = TypeSRV then Some ''SRV''
      else if qtype = TypeTXT then Some ''TXT''
      else if qtype = TypePTR then Some ''PTR''
      else None)"

definition matches :: "(string, string list) gomap \<Rightarrow> string \<Rightarrow> string \<Rightarrow> bool" where
  "matches m key domain \<longleftrightarrow>
     (case mget m key of None \<Rightarrow> False | Some suffixes \<Rightarrow> list_ex (\<lambda>suffix. HasSuffix domain suffix) suffixes)"

definition handleEnclosureDomains :: "dnslib \<Rightarrow> UpstreamDns \<Rightarrow> string \<Rightarrow> 16 word \<Rightarrow> Msg \<Rightarrow> (trace, Msg option) prog" where
  "handleEnclosureDomains L u domain qtype raw =
     (case enclosureKey qtype of
        None \<Rightarrow> returnS None
      | Some key \<Rightarrow>
          if matches (enclosureSuffixMap u) key domain then
            bindS (AddTraceInfo ''UpstreamDns-EnclosureDomainSuffix-Ended'') (\<lambda>_.
            bindS (NotFoundUpstreamDns L False raw) (\<lambda>r. returnS (Some r)))
          else if matches (enclosureDomainMap u) key domain then
            bindS (AddTraceInfo ''UpstreamDns-EnclosureDomainSuffix-Ended'') (\<lambda>_.
            bindS (NotFoundUpstreamDns L False raw) (\<lambda>r. returnS (Some r)))
          else returnS None)"

definition JoinHostPort :: "string \<Rightarrow> string \<Rightarrow> string" where
  "JoinHostPort host port =
     (if CHR '':'' \<in> set host then ''['' @ host @ '']:'' @ port else host @ '':'' @ port)"

type_synonym exchange = "Msg \<Rightarrow> string \<Rightarrow> Msg res"

definition upstream_HandleQuestion :: "dnslib \<Rightarrow> exchange \<Rightarrow> UpstreamDns \<Rightarrow> handler" where
  "upstream_HandleQuestion L Exchange u m =
     bindS (liftR (question0 m)) (\<lambda>q.
     bindS (handleEnclosureDomains L u (ToLower (Name q)) (Qtype q) m) (\<lambda>res.
       case res of
         Some r \<Rightarrow> returnS r
       | None \<Rightarrow>
           bindS (AddTraceInfo ''UpstreamDns'') (\<lambda>_.
             case Servers u of
               [] \<Rightarrow> (\<lambda>s. (Panic ''index out of range'', s))
             | server # _ \<Rightarrow>
                 bindS (liftR (Exchange m (JoinHostPort server (Port u)))) (\<lambda>r.
                 bindS (AddTraceInfoWithDnsAnswersIfNoError L ''UpstreamDns->'' r) (\<lambda>_. returnS r)))))"

section \<open>Record handlers\<close>

definition ParentRecordHandler :: "dnslib \<Rightarrow> handler option \<Rightarrow> handler" where
  "ParentRecordHandler L parent m =
     (case parent of Some h \<Rightarrow> h m | None \<Rightarrow> NotFoundUpstreamDns L False m)"

definition reply_with :: "dnslib \<Rightarrow> Msg \<Rightarrow> string \<Rightarrow> 16 word \<Rightarrow> rdata \<Rightarrow> Msg" where
  "reply_with L m domain rtype rd =
     (let reply = SetReply L newMsg m;
          rr = \<lparr>Hdr = Some \<lparr>rrName = domain, Rrtype = rtype, Class = ClassINET, Ttl = DefaultResponseTTL\<rparr>, Rdata = rd\<rparr>
      in reply\<lparr>Answer := Answer reply @ [rr]\<rparr>)"

definition RecordAHandler :: "dnslib \<Rightarrow> handler option \<Rightarrow> resolver \<Rightarrow> handler" where
  "RecordAHandler L parent resolve m =
     bindS (liftR (question0 m)) (\<lambda>q.
     let domain = Name q in
     bindS (AddTraceInfo ''RecordAHandler'') (\<lambda>_.
     tryS (liftR (resolve domain DomainTypeA))
       (\<lambda>result. bindS (AddTraceInfo (''RecordAHandler->'' @ result)) (\<lambda>_.
          returnS (reply_with L m domain TypeA (RdA (ParseIP result)))))
       (\<lambda>err. if err = ErrStorageNotFound then ParentRecordHandler L parent m else failS err)))"

definition checkIfARecordExists :: "resolver \<Rightarrow> string \<Rightarrow> bool" where
  "checkIfARecordExists resolve domain = (case resolve domain DomainTypeA of Ok _ \<Rightarrow> True | _ \<Rightarrow> False)"

definition RecordAAAAHandler :: "dnslib \<Rightarrow> handler option \<Rightarrow> resolver \<Rightarrow> handler" where
  "RecordAAAAHandler L parent resolve m =
     bindS (liftR (question0 m)) (\<lambda>q.
     let domain = Name q in
     bindS (AddTraceInfo ''RecordAAAAHandler'') (\<lambda>_.
     tryS (liftR (resolve domain DomainTypeAAAA))
       (\<lambda>result. bindS (AddTraceInfo (''RecordAAAAHandler->'' @ result)) (\<lambda>_.
          returnS (reply_with L m domain TypeAAAA (RdAAAA (ParseIP result)))))
       (\<lambda>err. if err = ErrStorageNotFound then
                 (if checkIfARecordExists resolve domain then NotFoundUpstreamDns L False m
                  else ParentRecordHandler L parent m)
               else failS err)))"

definition RecordPtrHandler :: "dnslib \<Rightarrow> handler option \<Rightarrow> resolver \<Rightarrow> handler" where
  "RecordPtrHandler L parent resolve m =
     bindS (liftR (question0 m)) (\<lambda>q.
     let domain = Name q in
     bindS (AddTraceInfo ''RecordPtrHandler'') (\<lambda>_.
     tryS (liftR (resolve domain DomainTypePtr))
       (\<lambda>result. bindS (AddTraceInfo (''RecordPtrHandler->'' @ result)) (\<lambda>_.
          returnS (reply_with L m domain TypePTR (RdPTR result))))
       (\<lambda>err. if err = ErrStorageNotFound then ParentRecordHandler L parent m else failS err)))"

definition RecordTxtHandler :: "dnslib \<Rightarrow> handler option \<Rightarrow> resolver \<Rightarrow> handler" where
  "RecordTxtHandler L parent resolve m =
     bindS (liftR (question0 m)) (\<lambda>q.
     let domain = Name q in
     bindS (AddTraceInfo ''RecordTxtHandler'') (\<lambda>_.
     tryS (liftR (resolve domain DomainTypeTxt))
       (\<lambda>result. bindS (AddTraceInfo (''RecordTxtHandler->'' @ result)) (\<lambda>_.
          returnS (reply_with L m domain TypeTXT (RdTXT [result]))))
       (\<lambda>err. if err = ErrStorageNotFound then ParentRecordHandler L parent m else failS err)))"

definition RecordSRVHandler :: "dnslib \<Rightarrow> handler option \<Rightarrow> resolver \<Rightarrow> handler" where
  "RecordSRVHandler L parent resolve m =
     bindS (liftR (question0 m)) (\<lambda>q.
     let domain = Name q in
     bindS (AddTraceInfo ''RecordSRVHandler'') (\<lambda>_.
     tryS (liftR (resolve domain DomainTypeSrv))
       (\<lambda>result. bindS (AddTraceInfo (''RecordSRVHandler->'' @ result)) (\<lambda>_.
          bindS (liftR (SrvUnmarshal L result)) (\<lambda>(prio, weight, port, target).
            returnS (reply_with L m domain TypeSRV (RdSRV prio weight port (Fqdn L target))))))
       (\<lambda>err. if err = ErrStorageNotFound then ParentRecordHandler L parent m else failS err)))"

end
