(* ===== verification/Dns_Dyn.thy ===== *)
theory Dns_Dyn
  imports Net_Ip
begin

text \<open>
  The store of records from dynamic configuration (\<open>internal/dnsdyn/dynamic.configure.go\<close>): each
  change builds a new container, which replaces the current one at once. The configuration
  client that delivers the changes is library code.
\<close>

record ConfigureContainer =
  cA :: "(string, string) gomap"
  cTXT :: "(string, string) gomap"
  cSRV :: "(string, string) gomap"
  cPTR :: "(string, string) gomap"
  cAAAA :: "(string, string) gomap"

record ResolveContainer =
  rA :: "(string, string) gomap"
  rTXT :: "(string, string) gomap"
  rSRV :: "(string, string) gomap"
  rPTR :: "(string, string) gomap"
  rAAAA :: "(string, string) gomap"

definition NewResolveContainer :: ResolveContainer where
  "NewResolveContainer = \<lparr>rA = [], rTXT = [], rSRV = [], rPTR = [], rAAAA = []\<rparr>"

definition dyn_ResolveDomain :: "ResolveContainer \<Rightarrow> resolver" where
  "dyn_ResolveDomain c domain domainType =
     (let domain = ToLower domain;
          val = (case domainType of
                   DomainTypeA \<Rightarrow> mget (rA c) domain
                 | DomainTypeTxt \<Rightarrow> mget (rTXT c) domain
                 | DomainTypeSrv \<Rightarrow> mget (rSRV c) domain
                 | DomainTypePtr \<Rightarrow> mget (rPTR c) domain
                 | DomainTypeAAAA \<Rightarrow> mget (rAAAA c) domain)
      in case val of Some v \<Rightarrow> Ok v | None \<Rightarrow> Err ErrStorageNotFound)"

definition dyn_PutDomain :: "string \<Rightarrow> string \<Rightarrow> DomainType \<Rightarrow> (ResolveContainer, unit) prog" where
  "dyn_PutDomain domain resolve domainType s = (Panic ''unsupported'', s)"

definition fold_names :: "dnslib \<Rightarrow> (string, string) gomap \<Rightarrow> (string, string) gomap" where
  "fold_names L c = foldl (\<lambda>m (key, val). mput (Fqdn L (ToLower key)) val m) [] c"

fun fold_ptr :: "dnslib \<Rightarrow> (string, string) gomap \<Rightarrow> (string, string) gomap \<Rightarrow> (string, string) gomap res" where
  "fold_ptr L [] m = Ok m"
| "fold_ptr L ((key, val) # c) m =
     bindR (FromIPAddressToPtrFqdn L key) (\<lambda>domain. fold_ptr L c (mput domain (Fqdn L (ToLower val)) m))"

text \<open>The new container is built first and then replaces the current one.\<close>

definition process :: "dnslib \<Rightarrow> ConfigureContainer \<Rightarrow> (ResolveContainer, unit) prog" where
  "process L container =
     (let a = fold_names L (cA container); txt = fold_names L (cTXT container); srv = fold_names L (cSRV container) in
      bindS (liftR (fold_ptr L (cPTR container) [])) (\<lambda>ptr.
        let aaaa = fold_names L (cAAAA container) in
        modifyS (\<lambda>_. \<lparr>rA = a, rTXT = txt, rSRV = srv, rPTR = ptr, rAAAA = aaaa\<rparr>)))"

definition onChange :: "dnslib \<Rightarrow> ConfigureContainer \<Rightarrow> (ResolveContainer, unit) prog" where
  "onChange L container = tryS (process L container) returnS (\<lambda>err. returnS ())"

section \<open>Life cycle\<close>

text \<open>
  The configuration client is a library: its constructors and calls are fields of a record, and
  \<open>Startup\<close> is the sequence of calls with their early returns. \<open>Delivered\<close> are the configurations
  that a client hands to \<open>onChange\<close> between its start and the end of the wait for them. A client that was registered but
  fails to start is stopped; its own error is logged.
\<close>

record configlib =
  Fill :: "string \<Rightarrow> unit res"
  Register :: "string \<Rightarrow> string \<Rightarrow> unit res"
  StartClient :: "string list \<Rightarrow> unit res"
  StopClient :: "string list \<Rightarrow> unit res"
  Delivered :: "string list \<Rightarrow> ConfigureContainer list"
  WaitStartupConfigureLoaded :: "string list \<Rightarrow> unit res"

record DnsDynConfStore =
  serverLists :: "string list"
  hasClient :: bool
  container :: ResolveContainer

definition NewDnsDynConfStore :: "string list \<Rightarrow> DnsDynConfStore" where
  "NewDnsDynConfStore serverList = \<lparr>serverLists = serverList, hasClient = False, container = NewResolveContainer\<rparr>"

definition GetContainer :: "DnsDynConfStore \<Rightarrow> ResolveContainer" where
  "GetContainer d = container d"

text \<open>The deferred stop of the client, then the return with the error.\<close>

definition stopAndFail :: "configlib \<Rightarrow> error \<Rightarrow> (DnsDynConfStore, unit) prog" where
  "stopAndFail K err =
     bindS getS (\<lambda>d. tryS (liftR (StopClient K (serverLists d))) (\<lambda>_. failS err) (\<lambda>_. failS err))"

definition deliver :: "dnslib \<Rightarrow> ConfigureContainer \<Rightarrow> (DnsDynConfStore, unit) prog" where
  "deliver L conf d = (case onChange L conf (GetContainer d) of (out, c) \<Rightarrow> (out, d\<lparr>container := c\<rparr>))"

definition dyn_Startup :: "dnslib \<Rightarrow> configlib \<Rightarrow> (DnsDynConfStore, unit) prog" where
  "dyn_Startup L K =
     bindS (liftR (Fill K ''app=nekoq-bootstrap,dc=default,env=PROD'')) (\<lambda>_.
     tryS (liftR (Register K ''nekoq-bootstrap.dns'' ''records''))
       (\<lambda>_. bindS (modifyS (\<lambda>d. d\<lparr>hasClient := True\<rparr>)) (\<lambda>_.
             bindS getS (\<lambda>d.
             tryS (liftR (StartClient K (serverLists d)))
               (\<lambda>_. bindS (forEach (deliver L) (Delivered K (serverLists d))) (\<lambda>_.
                      liftR (WaitStartupConfigureLoaded K (serverLists d))))
               (\<lambda>err. stopAndFail K err))))
       (\<lambda>err. stopAndFail K err))"

definition dyn_Stop :: "configlib \<Rightarrow> (DnsDynConfStore, unit) prog" where
  "dyn_Stop K =
     bindS getS (\<lambda>d.
       if hasClient d then liftR (StopClient K (serverLists d)) else (\<lambda>s. (Panic ''nil pointer dereference'', s)))"

section \<open>Changes\<close>

definition last_value :: "('k \<times> 'v) list \<Rightarrow> 'k \<rightharpoonup> 'v" where
  "last_value kvs = map_of (rev kvs)"

lemma last_value_Cons: "last_value ((k, v) # kvs) = [k \<mapsto> v] ++ last_value kvs"
  by (simp add: last_value_def)

lemma map_upd_if: "(\<lambda>x. if x = k then Some v else m x) = m(k \<mapsto> v)"
  by (simp add: fun_upd_def)

lemma foldl_mput_last:
  "map_of (foldl (\<lambda>m (k, v). mput (f k) (g v) m) m kvs) = map_of m ++ last_value (map (\<lambda>(k, v). (f k, g v)) kvs)"
proof (induction kvs arbitrary: m)
  case (Cons kv kvs)
  then show ?case by (cases kv) (simp add: last_value_Cons map_upd_if)
qed (simp add: last_value_def)

lemma fold_names_get: "map_of (fold_names L c) = last_value (map (\<lambda>(k, v). (Fqdn L (ToLower k), v)) c)"
  unfolding fold_names_def using foldl_mput_last[of "\<lambda>k. Fqdn L (ToLower k)" "\<lambda>v. v" "[]" c] by simp

text \<open>The reverse name of an address.\<close>

definition ptr_name :: "dnslib \<Rightarrow> string \<Rightarrow> string" where
  "ptr_name L ip = (case FromIPAddressToPtrFqdn L ip of Ok n \<Rightarrow> n | _ \<Rightarrow> [])"

lemma valid_ptr_name: "IsValidIPAddress ip \<Longrightarrow> FromIPAddressToPtrFqdn L ip = Ok (ptr_name L ip)"
  by (auto simp: ptr_name_def IsValidIPAddress_def FromIPAddressToPtrFqdn_def split: option.splits)

lemma fold_ptr_valid:
  "list_all (\<lambda>(k, v). IsValidIPAddress k) c \<Longrightarrow>
    \<exists>m'. fold_ptr L c m = Ok m' \<and> map_of m' = map_of m ++ last_value (map (\<lambda>(k, v). (ptr_name L k, Fqdn L (ToLower v))) c)"
proof (induction c arbitrary: m)
  case (Cons kv c)
  obtain k v where kv: "kv = (k, v)" by fastforce
  then show ?case
    using Cons.IH[of "mput (ptr_name L k) (Fqdn L (ToLower v)) m"] Cons.prems
    by (simp add: valid_ptr_name last_value_Cons map_upd_if)
qed (simp add: last_value_def)

lemma fold_ptr_invalid:
  "\<not> list_all (\<lambda>(k, v). IsValidIPAddress k) c \<Longrightarrow> fold_ptr L c m = Panic ''not a valid IP address''"
proof (induction c arbitrary: m)
  case (Cons kv c)
  obtain k v where kv: "kv = (k, v)" by fastforce
  show ?case
  proof (cases "IsValidIPAddress k")
    case True
    then show ?thesis using Cons kv by (simp add: valid_ptr_name)
  next
    case False
    then have "FromIPAddressToPtrFqdn L k = Panic ''not a valid IP address''"
      by (simp add: IsValidIPAddress_def FromIPAddressToPtrFqdn_def split: option.splits)
    then show ?thesis using kv by simp
  qed
qed simp

text \<open>What a configuration says about a name.\<close>

definition configured :: "dnslib \<Rightarrow> ConfigureContainer \<Rightarrow> string \<Rightarrow> DomainType \<Rightarrow> string option" where
  "configured L conf name t =
     (case t of
        DomainTypeA \<Rightarrow> last_value (map (\<lambda>(k, v). (Fqdn L (ToLower k), v)) (cA conf)) name
      | DomainTypeTxt \<Rightarrow> last_value (map (\<lambda>(k, v). (Fqdn L (ToLower k), v)) (cTXT conf)) name
      | DomainTypeSrv \<Rightarrow> last_value (map (\<lambda>(k, v). (Fqdn L (ToLower k), v)) (cSRV conf)) name
      | DomainTypePtr \<Rightarrow> last_value (map (\<lambda>(k, v). (ptr_name L k, Fqdn L (ToLower v))) (cPTR conf)) name
      | DomainTypeAAAA \<Rightarrow> last_value (map (\<lambda>(k, v). (Fqdn L (ToLower k), v)) (cAAAA conf)) name)"

text \<open>
  C29: a change of the dynamic configuration replaces all records at once. If every key of the
  reverse records is an address, afterwards a name resolves, in any letter case, to what the new
  configuration says and to nothing else; otherwise the change panics, which the configuration
  client sees, and the records stay as they were.
\<close>

theorem dynamic_change_replaces:
  shows "case onChange L conf old of (out, new) \<Rightarrow>
     if list_all (\<lambda>(k, v). IsValidIPAddress k) (cPTR conf)
     then out = Ok () \<and> (\<forall>name t. dyn_ResolveDomain new name t =
            (case configured L conf (ToLower name) t of Some v \<Rightarrow> Ok v | None \<Rightarrow> Err ErrStorageNotFound))
     else out = Panic ''not a valid IP address'' \<and> new = old"
proof (cases "list_all (\<lambda>(k, v). IsValidIPAddress k) (cPTR conf)")
  case True
  from fold_ptr_valid[OF True, of L "[]"] obtain ptr where ptr: "fold_ptr L (cPTR conf) [] = Ok ptr"
      "map_of ptr = last_value (map (\<lambda>(k, v). (ptr_name L k, Fqdn L (ToLower v))) (cPTR conf))"
    by auto
  show ?thesis
    using True ptr
    by (auto simp: onChange_def process_def tryS_def bindS_def liftR_def modifyS_def returnS_def Let_def dyn_ResolveDomain_def
        configured_def fold_names_get split: DomainType.splits)
next
  case False
  then show ?thesis
    by (simp add: onChange_def process_def tryS_def bindS_def liftR_def Let_def fold_ptr_invalid)
qed

end
