(* ===== verification/Dns_Cache.thy ===== *)
theory Dns_Cache
  imports Dns_Msg
begin

text \<open>
  The cache of answers (\<open>internal/dnscore/cache.go\<close>). The time of a call is an argument; the
  entries carry the minimum lifetime of their answers.
\<close>

record cacheEntry =
  res :: Msg
  timeInSec :: int
  ttl :: "32 word"

type_synonym DnsMemCache = "(string, cacheEntry) gomap"

definition NewDnsMemCache :: DnsMemCache where
  "NewDnsMemCache = []"

definition cacheKey :: "dnslib \<Rightarrow> Msg \<Rightarrow> string res" where
  "cacheKey L m =
     bindR (question0 m) (\<lambda>q.
       Ok (ToLower (Fqdn L (Name q)) @ ''::'' @ dec_digits (unat (Qtype q))))"

definition checkHasValidTTL :: "Msg \<Rightarrow> bool \<times> 32 word" where
  "checkHasValidTTL m =
     (let t = foldl (\<lambda>t an. case Hdr an of None \<Rightarrow> t | Some h \<Rightarrow> if t > Ttl h then Ttl h else t)
                (- 1) (Answer m);
          t = (if t = - 1 then 0 else t)
      in (t > 0, t))"

definition cache_Put :: "dnslib \<Rightarrow> int \<Rightarrow> Msg \<Rightarrow> Msg \<Rightarrow> (DnsMemCache, unit) prog" where
  "cache_Put L now req r =
     (case checkHasValidTTL r of (hasTTL, t) \<Rightarrow>
        if \<not> hasTTL then returnS ()
        else bindS (liftR (cacheKey L req)) (\<lambda>key.
          modifyS (\<lambda>cache. mput key \<lparr>res = r, timeInSec = now, ttl = t\<rparr> cache)))"

definition expired :: "int \<Rightarrow> cacheEntry \<Rightarrow> bool" where
  "expired now e \<longleftrightarrow> now - timeInSec e > uint (ttl e)"

definition cache_Get :: "dnslib \<Rightarrow> int \<Rightarrow> Msg \<Rightarrow> (DnsMemCache, Msg option) prog" where
  "cache_Get L now req =
     bindS (liftR (cacheKey L req)) (\<lambda>key.
     bindS getS (\<lambda>cache.
       case mget cache key of
         None \<Rightarrow> returnS None
       | Some r \<Rightarrow> if expired now r then returnS None
                    else returnS (Some (SetReply L (CopyMsg L (res r)) req))))"

text \<open>One tick of \<open>cleanupJob\<close>.\<close>

definition cleanupJob :: "int \<Rightarrow> (DnsMemCache, unit) prog" where
  "cleanupJob now = modifyS (filter (\<lambda>(k, v). \<not> expired now v))"

section \<open>Keys\<close>

lemma last_field:
  assumes "a @ ''::'' @ d = a' @ ''::'' @ d'" "CHR '':'' \<notin> set d" "CHR '':'' \<notin> set d'"
  shows "a = a' \<and> d = d'"
proof -
  have rev: "takeWhile (\<lambda>c. c \<noteq> CHR '':'') (rev (a @ ''::'' @ d)) = rev d" if "CHR '':'' \<notin> set d" for a d
  proof -
    have "takeWhile (\<lambda>c. c \<noteq> CHR '':'') (rev d @ CHR '':'' # CHR '':'' # rev a) = rev d"
      by (subst takeWhile_append2) (use that in auto)
    then show ?thesis by simp
  qed
  have "rev d = rev d'" using rev[OF assms(2), of a] rev[OF assms(3), of a'] unfolding assms(1) by simp
  then show ?thesis using assms(1) by simp
qed

lemma colon_not_digit: "CHR '':'' \<notin> set (dec_digits n)"
  using dec_digits_digit[of "CHR '':''" n] by (auto simp: is_digit_def)

lemma cacheKey_eq:
  assumes "Question m = q # qs" "Question m' = q' # qs'"
  shows "cacheKey L m = cacheKey L m' \<longleftrightarrow>
    ToLower (Fqdn L (Name q)) = ToLower (Fqdn L (Name q')) \<and> Qtype q = Qtype q'"
proof -
  have "dec_digits (unat (Qtype q)) = dec_digits (unat (Qtype q')) \<longleftrightarrow> Qtype q = Qtype q'"
    by (metis dec_digits_inj unsigned_word_eqI)
  moreover have "a @ ''::'' @ dec_digits n = a' @ ''::'' @ dec_digits n' \<longleftrightarrow> a = a' \<and> dec_digits n = dec_digits n'" for a a' n n'
    using last_field[OF _ colon_not_digit colon_not_digit] by blast
  ultimately show ?thesis
    using assms by (simp only: cacheKey_def question0_def list.case bindR.simps res.inject)
qed

section \<open>Lifetimes\<close>

text \<open>The lifetime of a message is the least of its answers', when one of them is below the maximum.\<close>

definition minTtl :: "32 word \<Rightarrow> RR list \<Rightarrow> 32 word" where
  "minTtl t ans = foldl (\<lambda>t an. case Hdr an of None \<Rightarrow> t | Some h \<Rightarrow> if t > Ttl h then Ttl h else t) t ans"

lemma minTtl_le: "minTtl t ans \<le> t"
proof (induction ans arbitrary: t)
  case (Cons an ans)
  have "minTtl t (an # ans) \<le> (case Hdr an of None \<Rightarrow> t | Some h \<Rightarrow> if t > Ttl h then Ttl h else t)"
    using Cons.IH by (simp add: minTtl_def)
  also have "\<dots> \<le> t" by (auto split: option.splits)
  finally show ?case .
qed (simp add: minTtl_def)

lemma minTtl_answer: "an \<in> set ans \<Longrightarrow> Hdr an = Some h \<Longrightarrow> minTtl t ans \<le> Ttl h"
proof (induction ans arbitrary: t)
  case (Cons x ans)
  show ?case
  proof (cases "an = x")
    case True
    then have "minTtl t (x # ans) = minTtl (if t > Ttl h then Ttl h else t) ans" using Cons.prems by (simp add: minTtl_def)
    also have "\<dots> \<le> (if t > Ttl h then Ttl h else t)" by (rule minTtl_le)
    also have "\<dots> \<le> Ttl h" by auto
    finally show ?thesis .
  next
    case False
    then have "an \<in> set ans" using Cons.prems by simp
    from Cons.IH[OF this Cons.prems(2), of "case Hdr x of None \<Rightarrow> t | Some h \<Rightarrow> if t > Ttl h then Ttl h else t"]
    show ?thesis by (simp add: minTtl_def)
  qed
qed simp

lemma checkHasValidTTL_bound:
  assumes "checkHasValidTTL m = (True, t)" "an \<in> set (Answer m)" "Hdr an = Some h"
  shows "t \<le> Ttl h"
proof -
  have "t = minTtl (- 1) (Answer m)"
    using assms(1) by (auto simp: checkHasValidTTL_def minTtl_def Let_def split: if_splits)
  then show ?thesis using minTtl_answer[OF assms(2,3)] by simp
qed

section \<open>The cache\<close>

lemma cacheKey_Ok: "Question m = q # qs \<Longrightarrow> \<exists>k. cacheKey L m = Ok k"
  by (simp add: cacheKey_def question0_def)

lemma cache_Get_run:
  assumes "cacheKey L req = Ok k"
  shows "cache_Get L now req c =
    (Ok (case mget c k of None \<Rightarrow> None
         | Some e \<Rightarrow> if expired now e then None else Some (SetReply L (CopyMsg L (res e)) req)), c)"
  using assms by (simp add: cache_Get_def go_simps returnS_def split: option.splits)

lemma cache_Put_run:
  assumes "cacheKey L req = Ok k"
  shows "cache_Put L now req r c = (Ok (), case checkHasValidTTL r of (h, t) \<Rightarrow>
      if h then mput k \<lparr>res = r, timeInSec = now, ttl = t\<rparr> c else c)"
  using assms by (simp add: cache_Put_def go_simps returnS_def modifyS_def split: prod.splits)

lemma mget_cleanup: "mwf c \<Longrightarrow> mget (snd (cleanupJob now c)) k =
    (case mget c k of None \<Rightarrow> None | Some e \<Rightarrow> if expired now e then None else Some e)"
proof (induction c)
  case (Cons x c)
  obtain k' e where x: "x = (k', e)" by fastforce
  have "mget c k' = None" using Cons.prems x by (simp add: map_of_eq_None_iff)
  then show ?case using Cons x by (auto simp: cleanupJob_def modifyS_def split: option.splits)
qed (simp add: cleanupJob_def modifyS_def)

lemma expired_mono: "expired now e \<Longrightarrow> now \<le> now' \<Longrightarrow> expired now' e"
  by (simp add: expired_def)

section \<open>Properties\<close>

definition sampleQuestion :: "string \<Rightarrow> Msg" where
  "sampleQuestion n = newMsg\<lparr>Id := 7, Question := [\<lparr>Name = n, Qtype = TypeA\<rparr>]\<rparr>"

definition sampleAnswer :: Msg where
  "sampleAnswer = newMsg\<lparr>Question := [\<lparr>Name = ''a.b.'', Qtype = TypeA\<rparr>],
     Answer := [\<lparr>Hdr = Some \<lparr>rrName = ''a.b.'', Rrtype = TypeA, Class = ClassINET, Ttl = 60\<rparr>, Rdata = RdA (Some [1, 2, 3, 4])\<rparr>]\<rparr>"

text \<open>
  C17: what the cache answers. After an answer is put, a request gets it exactly when it asks for
  the same name, in any letter case and with or without the final dot, and the same type, and no
  answer in it has outlived its lifetime; an answer without a lifetime is not kept, and every
  other request is answered as before.
\<close>

theorem cache_answers:
  assumes "dns_library L" "Question m = q # qs" "Question m' = q' # qs'" "checkHasValidTTL r = (True, t)"
  shows "(let hit = ToLower (Fqdn L (Name q)) = ToLower (Fqdn L (Name q')) \<and> Qtype q = Qtype q' in
      fst (cache_Get L now' m' (snd (cache_Put L now m r c))) =
        (if hit then (if now' - now > uint t then Ok None else Ok (Some (SetReply L r m')))
         else fst (cache_Get L now' m' c)))
    \<and> (\<forall>an \<in> set (Answer r). \<forall>h. Hdr an = Some h \<longrightarrow> t \<le> Ttl h)"
proof -
  obtain k k' where k: "cacheKey L m = Ok k" "cacheKey L m' = Ok k'" using cacheKey_Ok assms(2,3) by metis
  have hit: "k = k' \<longleftrightarrow> ToLower (Fqdn L (Name q)) = ToLower (Fqdn L (Name q')) \<and> Qtype q = Qtype q'"
    using cacheKey_eq[OF assms(2,3), of L] k by simp
  have "fst (cache_Get L now' m' (snd (cache_Put L now m r c))) =
      (if k' = k then (if now' - now > uint t then Ok None else Ok (Some (SetReply L r m')))
       else fst (cache_Get L now' m' c))"
    using k dns_library.copy[OF assms(1)] assms(4)
    by (simp add: cache_Get_run cache_Put_run expired_def)
  then show ?thesis using hit checkHasValidTTL_bound[OF assms(4)] by (auto simp: Let_def)
qed

theorem cache_answers_witness:
  "fst (cache_Get plain_dns 70 (sampleQuestion ''A.B'') (snd (cache_Put plain_dns 10 (sampleQuestion ''a.b.'') sampleAnswer [])))
     = Ok (Some (SetReply plain_dns sampleAnswer (sampleQuestion ''A.B'')))
   \<and> fst (cache_Get plain_dns 71 (sampleQuestion ''A.B'') (snd (cache_Put plain_dns 10 (sampleQuestion ''a.b.'') sampleAnswer [])))
     = Ok None"
proof -
  have q: "Question (sampleQuestion n) = [\<lparr>Name = n, Qtype = TypeA\<rparr>]" for n by (simp add: sampleQuestion_def)
  have t: "checkHasValidTTL sampleAnswer = (True, 60)" by code_simp
  have n: "ToLower (Fqdn plain_dns ''a.b.'') = ToLower (Fqdn plain_dns ''A.B'')" by code_simp
  note ans = cache_answers[OF plain_dns_library q q t, of "''a.b.''" "''A.B''" _ 10 "[]", THEN conjunct1]
  show ?thesis using ans[of 70] ans[of 71] n by (simp add: Let_def)
qed

text \<open>
  The clean-up of the cache is invisible: it removes what is expired and no request from
  then on is answered differently.
\<close>

lemma cleanup_invisible:
  assumes "mwf c" "now \<le> now'" "Question m = q # qs"
  shows "fst (cache_Get L now' m (snd (cleanupJob now c))) = fst (cache_Get L now' m c)
    \<and> (\<forall>k e. mget (snd (cleanupJob now c)) k = Some e \<longrightarrow> \<not> expired now e)"
proof -
  obtain k where k: "cacheKey L m = Ok k" using cacheKey_Ok assms(3) by metis
  show ?thesis
    using mget_cleanup[OF assms(1), of now] expired_mono[OF _ assms(2)]
    by (auto simp: cache_Get_run[OF k] split: option.splits if_splits)
qed

end
