(* ===== verification/Dns_Endpoint.thy ===== *)
theory Dns_Endpoint
  imports Dns_Handlers Dns_Dyn Dns_Cache
begin

text \<open>
  The DNS service (\<open>internal/dnscore/service.standard.go\<close>): the table of handlers, the processing
  of one message through the cache and the handlers, and the listener's callback with its
  \<open>recover\<close>. The storage is the resolver of the current store; the two times are those at which
  the cache is read and written.
\<close>

section \<open>Operations\<close>

record DnsEndpoint =
  Addr :: string
  ServerAddr :: string
  ServerNet :: string
  DebugPrintDnsRequest :: bool
  HandlerMapping :: "(16 word, resolver \<Rightarrow> handler) gomap"

definition NewDnsEndpoint ::
  "dnslib \<Rightarrow> exchange \<Rightarrow> (string \<Rightarrow> (string \<times> string) res) \<Rightarrow> string \<Rightarrow> string list \<Rightarrow> enclosure list \<Rightarrow> bool
     \<Rightarrow> DnsEndpoint res" where
  "NewDnsEndpoint L Exchange urlParse addr upstreams suffixes debug =
     bindR (urlParse addr) (\<lambda>(scheme, host).
       let parentHandler =
             (if length upstreams > 0
              then Some (upstream_HandleQuestion L Exchange (NewUpstreamDNSWithSingle L upstreams suffixes))
              else None)
       in Ok \<lparr>Addr = addr, ServerAddr = host, ServerNet = scheme, DebugPrintDnsRequest = debug,
             HandlerMapping =
               mput TypeAAAA (RecordAAAAHandler L parentHandler)
              (mput TypePTR (RecordPtrHandler L parentHandler)
              (mput TypeSRV (RecordSRVHandler L parentHandler)
              (mput TypeTXT (RecordTxtHandler L parentHandler)
              (mput TypeA (RecordAHandler L parentHandler) []))))\<rparr>)"

definition ProcessDnsMsg ::
  "dnslib \<Rightarrow> int \<Rightarrow> int \<Rightarrow> resolver \<Rightarrow> DnsEndpoint \<Rightarrow> Msg \<Rightarrow> (DnsMemCache \<times> trace, Msg option) prog" where
  "ProcessDnsMsg L tGet tPut storage d r =
     (if Opcode r = OpcodeQuery \<and> length (Question r) > 1
      then returnS (Some (SetRcodeFormatError L newMsg r))
      else
        bindS (liftR (question0 r)) (\<lambda>q.
        bindS (onSnd (AddTraceInfo (''resolve:t='' @ dec_digits (unat (Qtype q)) @ '',domain:'' @ Name q))) (\<lambda>_.
        bindS (onFst (cache_Get L tGet r)) (\<lambda>cached.
          case cached of
            Some reply \<Rightarrow>
              bindS (onSnd (AddTraceInfoWithDnsAnswersIfNoError L ''hit_mem_cache'' reply)) (\<lambda>_.
                returnS (Some reply))
          | None \<Rightarrow>
             (case mget (HandlerMapping d) (Qtype q) of
                None \<Rightarrow>
                  bindS (onSnd (AddTraceInfo (''unknown request type:'' @ dec_digits (unat (Qtype q))))) (\<lambda>_.
                    tryS (onSnd (NotFoundUpstreamDns L False r))
                      (\<lambda>result. returnS (Some result))
                      (\<lambda>err. panicS (''error handling question:'' @ errText err)))
              | Some h \<Rightarrow>
                  tryS (onSnd (h storage r))
                    (\<lambda>reply. bindS (onFst (cache_Put L tPut r reply)) (\<lambda>_. returnS (Some reply)))
                    (\<lambda>err. if err = ErrDoNotRespondResult then returnS None
                            else panicS (''dns request failed. '' @ errText err)))))))"

text \<open>
  The callback of the listener: \<open>WriteMsg\<close> sends a reply or fails. The state is the cache and
  the replies sent so far; the result is the line of the debug log.
\<close>

definition ServeDNS ::
  "dnslib \<Rightarrow> int \<Rightarrow> int \<Rightarrow> resolver \<Rightarrow> (Msg \<Rightarrow> unit res) \<Rightarrow> DnsEndpoint \<Rightarrow> Msg
     \<Rightarrow> (DnsMemCache \<times> Msg list, string list) prog" where
  "ServeDNS L tGet tPut storage WriteMsg d r st =
     (case recoverS
         (bindS (onFst (ProcessDnsMsg L tGet tPut storage d r)) (\<lambda>reply.
            case reply of
              None \<Rightarrow> returnS ()
            | Some reply \<Rightarrow>
                tryS (liftR (WriteMsg reply)) (\<lambda>_. onSnd (modifyS (\<lambda>sent. sent @ [reply])))
                  (\<lambda>err. panicS (errText err))))
         (\<lambda>err. onFst (onSnd (AddTraceInfo (''error occurs:'' @ err))))
         ((fst st, NewRequestContext), snd st)
      of (out, ((cache, traceInfos), sent)) \<Rightarrow>
        (bindR out (\<lambda>_. Ok (if DebugPrintDnsRequest d then [''Domain resolve info:'' @ GetTraceInfoString traceInfos] else [])),
         (cache, sent)))"

section \<open>Running the operations\<close>

lemma NotFound_run:
  assumes "Question m = q # qs"
  shows "fst (NotFoundUpstreamDns L b m t) =
    Ok (SetRcode L newMsg m (if Qtype q = TypeAAAA \<and> \<not> b then RcodeSuccess else RcodeNameError))"
  using assms by (simp add: NotFoundUpstreamDns_def question0_def go_simps Let_def returnS_def)

lemma question0_Cons [simp]: "Question m = q # qs \<Longrightarrow> question0 m = Ok q"
  by (simp add: question0_def)

text \<open>A message with a question on a cache without an answer for it goes to its handler.\<close>

lemma ProcessDnsMsg_miss:
  assumes "Question r = [q]" "fst (cache_Get L tGet r c) = Ok None" "mget (HandlerMapping d) (Qtype q) = Some h"
    and "h storage r (t @ [''resolve:t='' @ dec_digits (unat (Qtype q)) @ '',domain:'' @ Name q]) = (Ok reply, t')"
  shows "ProcessDnsMsg L tGet tPut storage d r (c, t) =
    (Ok (Some reply), (snd (cache_Put L tPut r reply c), t'))"
proof -
  obtain k where k: "cacheKey L r = Ok k" using cacheKey_Ok assms(1) by metis
  have g: "cache_Get L tGet r c = (Ok None, c)"
    using assms(2) by (simp add: cache_Get_run[OF k])
  have p: "fst (cache_Put L tPut r reply c) = Ok ()"
    by (simp add: cache_Put_run[OF k])
  show ?thesis
    using assms g p by (simp add: ProcessDnsMsg_def go_simps AddTraceInfo_run returnS_def)
qed

lemma ProcessDnsMsg_hit:
  assumes "Question r = [q]" "fst (cache_Get L tGet r c) = Ok (Some reply)"
  shows "fst (ProcessDnsMsg L tGet tPut storage d r (c, t)) = Ok (Some reply)
    \<and> fst (snd (ProcessDnsMsg L tGet tPut storage d r (c, t))) = c"
proof -
  obtain k where k: "cacheKey L r = Ok k" using cacheKey_Ok assms(1) by metis
  have g: "cache_Get L tGet r c = (Ok (Some reply), c)"
    using assms(2) by (simp add: cache_Get_run[OF k])
  show ?thesis
    using assms g by (simp add: ProcessDnsMsg_def go_simps AddTraceInfoWithDnsAnswersIfNoError_def AddTraceInfo_run returnS_def)
qed

end
