(* ===== verification/Dns_Properties.thy ===== *)
theory Dns_Properties
  imports Dns_Endpoint
begin

text \<open>
  What the DNS service guarantees: the contract of a record storage as a locale, with the answers
  of the service proved from it, its instances for the store of the node and for the dynamic
  configuration, and the properties of the service.
\<close>

section \<open>The table of handlers\<close>

definition parent :: "dnslib \<Rightarrow> exchange \<Rightarrow> string list \<Rightarrow> enclosure list \<Rightarrow> handler option" where
  "parent L Exchange upstreams suffixes =
     (if length upstreams > 0
      then Some (upstream_HandleQuestion L Exchange (NewUpstreamDNSWithSingle L upstreams suffixes))
      else None)"

lemma endpoint_handlers:
  assumes "NewDnsEndpoint L E up addr us enc dbg = Ok d"
  shows "mget (HandlerMapping d) t =
     (if t = TypeAAAA then Some (RecordAAAAHandler L (parent L E us enc))
      else if t = TypePTR then Some (RecordPtrHandler L (parent L E us enc))
      else if t = TypeSRV then Some (RecordSRVHandler L (parent L E us enc))
      else if t = TypeTXT then Some (RecordTxtHandler L (parent L E us enc))
      else if t = TypeA then Some (RecordAHandler L (parent L E us enc))
      else None)"
  using assms unfolding parent_def
  by (cases "up addr") (auto simp: NewDnsEndpoint_def Let_def simp del: length_greater_0_conv split: prod.splits)

lemma endpoint_debug:
  "NewDnsEndpoint L E up addr us enc dbg = Ok d \<Longrightarrow> DebugPrintDnsRequest d = dbg"
  by (cases "up addr") (auto simp: NewDnsEndpoint_def Let_def split: prod.splits)

text \<open>The record type of a question, and the data a stored value stands for.\<close>

definition domain_type :: "16 word \<Rightarrow> DomainType option" where
  "domain_type t =
     (if t = TypeA then Some DomainTypeA else if t = TypeTXT then Some DomainTypeTxt
      else if t = TypeSRV then Some DomainTypeSrv else if t = TypePTR then Some DomainTypePtr
      else if t = TypeAAAA then Some DomainTypeAAAA else None)"

definition record_data :: "dnslib \<Rightarrow> 16 word \<Rightarrow> string \<Rightarrow> rdata option" where
  "record_data L t v =
     (if t = TypeA then Some (RdA (ParseIP v)) else if t = TypeTXT then Some (RdTXT [v])
      else if t = TypeSRV then
        (case SrvUnmarshal L v of Ok (prio, weight, port, target) \<Rightarrow> Some (RdSRV prio weight port (Fqdn L target)) | _ \<Rightarrow> None)
      else if t = TypePTR then Some (RdPTR v)
      else if t = TypeAAAA then Some (RdAAAA (ParseIP v)) else None)"

lemma local_handler:
  assumes "NewDnsEndpoint L E up addr us enc dbg = Ok d" "Question r = [q]"
    and "domain_type (Qtype q) = Some dt" "storage (Name q) dt = Ok v" "record_data L (Qtype q) v = Some rd"
  shows "\<exists>h t'. mget (HandlerMapping d) (Qtype q) = Some h
     \<and> h storage r t = (Ok (reply_with L r (Name q) (Qtype q) rd), t')"
proof -
  have "\<exists>t'. RecordAHandler L p storage r t = (Ok (reply_with L r (Name q) TypeA (RdA (ParseIP v))), t')"
    if "storage (Name q) DomainTypeA = Ok v" for p
    using that assms(2) by (simp add: RecordAHandler_def go_simps returnS_def)
  moreover have "\<exists>t'. RecordTxtHandler L p storage r t = (Ok (reply_with L r (Name q) TypeTXT (RdTXT [v])), t')"
    if "storage (Name q) DomainTypeTxt = Ok v" for p
    using that assms(2) by (simp add: RecordTxtHandler_def go_simps returnS_def)
  moreover have "\<exists>t'. RecordPtrHandler L p storage r t = (Ok (reply_with L r (Name q) TypePTR (RdPTR v)), t')"
    if "storage (Name q) DomainTypePtr = Ok v" for p
    using that assms(2) by (simp add: RecordPtrHandler_def go_simps returnS_def)
  moreover have "\<exists>t'. RecordAAAAHandler L p storage r t = (Ok (reply_with L r (Name q) TypeAAAA (RdAAAA (ParseIP v))), t')"
    if "storage (Name q) DomainTypeAAAA = Ok v" for p
    using that assms(2) by (simp add: RecordAAAAHandler_def go_simps returnS_def Let_def)
  moreover have "\<exists>t'. RecordSRVHandler L p storage r t = (Ok (reply_with L r (Name q) TypeSRV rd), t')"
    if "storage (Name q) DomainTypeSrv = Ok v" "record_data L TypeSRV v = Some rd" for p
    using that assms(2)
    by (simp add: RecordSRVHandler_def go_simps returnS_def record_data_def dns_consts split: res.splits prod.splits)
  ultimately show ?thesis
    using assms(3-5) unfolding endpoint_handlers[OF assms(1)]
    by (auto simp: domain_type_def record_data_def dns_consts split: if_splits)
qed

section \<open>Storages\<close>

text \<open>
  What the handlers rely on: a lookup does not depend on the letter case of the name, and returns
  a value or the error for "not found".
\<close>

locale dns_storage =
  fixes resolve :: resolver
  assumes caseless: "resolve (ToLower name) t = resolve name t"
    and outcome: "resolve name t = Err ErrStorageNotFound \<or> (\<exists>v. resolve name t = Ok v)"
begin

lemma same_name: "ToLower a = ToLower b \<Longrightarrow> resolve a t = resolve b t"
  by (metis caseless)

end

interpretation dyn: dns_storage "dyn_ResolveDomain c" for c
  by unfold_locales (auto simp: dyn_ResolveDomain_def Let_def split: DomainType.splits option.splits)

lemma resolveNested_outcome:
  "\<forall>s \<in> set stores. dns_storage s \<Longrightarrow>
    resolveNested stores name t = Err ErrStorageNotFound \<or> (\<exists>v. resolveNested stores name t = Ok v)"
proof (induction stores)
  case (Cons s stores)
  then show ?case using dns_storage.outcome[of s name t] by auto
qed simp

lemma mem_storage: "\<forall>s \<in> set stores. dns_storage s \<Longrightarrow> dns_storage (ResolveDomain stores m)"
proof
  fix name t assume "\<forall>s \<in> set stores. dns_storage s"
  from resolveNested_outcome[OF this, of "ToLower name" t]
  show "ResolveDomain stores m name t = Err ErrStorageNotFound \<or> (\<exists>v. ResolveDomain stores m name t = Ok v)"
    by (auto simp: ResolveDomain_def Let_def resolveStatic_def split: option.splits)
qed (simp add: ResolveDomain_def)

interpretation mem: dns_storage "ResolveDomain (map dyn_ResolveDomain cs) m" for cs m
  by (rule mem_storage) (auto intro: dyn.dns_storage_axioms)

section \<open>Enclosed domains\<close>

lemma foldl_filter:
  "foldl (\<lambda>m v. if P v then g v m else m) m xs = foldl (\<lambda>m v. g v m) m (filter P xs)"
  by (induction xs arbitrary: m) auto

lemma mget_add_to:
  "mget (add_to k v m) k' = (if k' = k then Some ((case mget m k of None \<Rightarrow> [] | Some l \<Rightarrow> l) @ [v]) else mget m k')"
  by (simp add: add_to_def)

lemma foldl_add_to:
  "mget m k = Some l \<or> (\<exists>v \<in> set vs. key v = k) \<Longrightarrow>
    \<exists>l'. mget (foldl (\<lambda>m v. add_to (key v) (f v) m) m vs) k = Some l'
       \<and> (mget m k = Some l \<longrightarrow> set l \<subseteq> set l') \<and> (\<forall>v \<in> set vs. key v = k \<longrightarrow> f v \<in> set l')"
proof (induction vs arbitrary: m l)
  case (Cons v vs)
  let ?m = "add_to (key v) (f v) m"
  show ?case
  proof (cases "key v = k")
    case True
    then have m: "mget ?m k = Some ((case mget m k of None \<Rightarrow> [] | Some l \<Rightarrow> l) @ [f v])" by (simp add: mget_add_to)
    show ?thesis using Cons.IH[OF disjI1[OF m]] m True by (auto split: option.splits)
  next
    case False
    then have "mget ?m k = mget m k" by (simp add: mget_add_to)
    then show ?thesis using Cons.IH[of ?m l] Cons.prems False by auto
  qed
qed auto

lemma foldl_add_to_mem:
  assumes "v \<in> set vs"
  shows "\<exists>l. mget (foldl (\<lambda>m v. add_to (key v) (f v) m) [] vs) (key v) = Some l \<and> f v \<in> set l"
  using foldl_add_to[of "[]" "key v" "[]" vs key f] assms by auto

text \<open>A configured domain: lower case, without escapes and without a dot at its ends.\<close>

definition plain_domain :: "string \<Rightarrow> bool" where
  "plain_domain s \<longleftrightarrow> s \<noteq> [] \<and> \<not> HasPrefix s ''.'' \<and> \<not> HasSuffix s ''.'' \<and> CHR 0x5C \<notin> set s \<and> ToLower s = s"

definition in_domain :: "string \<Rightarrow> string \<Rightarrow> bool" where
  "in_domain name s \<longleftrightarrow> name = s @ ''.'' \<or> HasSuffix name (''.'' @ s @ ''.'')"

lemma HasSuffix_refl: "HasSuffix s s"
  by (simp add: HasSuffix_def)

lemma HasSuffix_dot_cons: "s \<noteq> [] \<Longrightarrow> HasSuffix (CHR ''.'' # s) ''.'' = HasSuffix s ''.''"
  by (cases s rule: rev_cases) (auto simp: HasSuffix_iff)

lemma enclosed_matches:
  assumes "dns_library L" "v \<in> set enc" "plain_domain (Suffix v)" "in_domain name (Suffix v)"
  shows "matches (suffixMap L enc) (EType v) name \<or> matches (domainMap L enc) (EType v) name"
proof -
  let ?s = "Suffix v"
  have s: "?s \<noteq> []" "\<not> HasPrefix ?s ''.''" "\<not> HasSuffix ?s ''.''" using assms(3) by (auto simp: plain_domain_def)
  have f1: "Fqdn L (CHR ''.'' # ?s) = ''.'' @ ?s @ ''.''"
    using dns_library.fqdn_add[OF assms(1), of "CHR ''.'' # ?s"] s HasSuffix_dot_cons by (simp add: is_fqdn_def)
  have f2: "Fqdn L ?s = ?s @ ''.''"
    using dns_library.fqdn_add[OF assms(1), of ?s] s by (simp add: is_fqdn_def)
  from assms(4) show ?thesis unfolding in_domain_def
  proof
    assume n: "name = ?s @ ''.''"
    have "\<exists>l. mget (domainMap L enc) (EType v) = Some l \<and> Fqdn L ?s \<in> set l"
      unfolding domainMap_def foldl_filter
      using foldl_add_to_mem[of v "filter (\<lambda>v. \<not> HasSuffix (Suffix v) ''.'') enc" EType "\<lambda>v. Fqdn L (Suffix v)"] assms(2) s
      by auto
    then have "matches (domainMap L enc) (EType v) name"
      unfolding matches_def f2 n[symmetric] by (auto simp: list_ex_iff intro!: bexI[of _ name] HasSuffix_refl)
    then show ?thesis by simp
  next
    assume n: "HasSuffix name (''.'' @ ?s @ ''.'')"
    have "\<exists>l. mget (suffixMap L enc) (EType v) = Some l \<and> Fqdn L (CHR ''.'' # ?s) \<in> set l"
      unfolding suffixMap_def
      using foldl_add_to_mem[OF assms(2), of EType "\<lambda>v. Fqdn L (if HasPrefix (Suffix v) ''.'' then Suffix v else CHR ''.'' # Suffix v)"] s
      by auto
    then have "matches (suffixMap L enc) (EType v) name"
      unfolding matches_def f1 using n by (auto simp: list_ex_iff)
    then show ?thesis by simp
  qed
qed

text \<open>The match has no label boundary and does not fold the case of the configured suffix.\<close>

lemma enclosure_boundary:
  "matches (domainMap plain_dns [\<lparr>EType = ''A'', Suffix = ''internal''\<rparr>]) ''A'' ''myinternal.''"
  "\<not> matches (suffixMap plain_dns [\<lparr>EType = ''A'', Suffix = ''Internal''\<rparr>]) ''A'' (ToLower ''db.Internal.'')"
  "\<not> matches (domainMap plain_dns [\<lparr>EType = ''A'', Suffix = ''Internal''\<rparr>]) ''A'' (ToLower ''db.Internal.'')"
  by code_simp+

definition no_record :: "dnslib \<Rightarrow> Msg \<Rightarrow> DnsQuestion \<Rightarrow> Msg" where
  "no_record L m q = SetRcode L newMsg m (if Qtype q = TypeAAAA then RcodeSuccess else RcodeNameError)"

text \<open>The trace that the answer for a name without a record leaves.\<close>

definition no_record_trace :: "Msg \<Rightarrow> string list" where
  "no_record_trace reply = [''NotFoundUpstreamDns'', ''NotFoundUpstreamDns-rcode:['' @ dec_digits (Rcode reply) @ '']'']"

lemma NotFound_eq:
  assumes "Question m = [q]"
  shows "NotFoundUpstreamDns L False m t = (Ok (no_record L m q), t @ no_record_trace (no_record L m q))"
  using assms by (simp add: NotFoundUpstreamDns_def go_simps Let_def returnS_def no_record_def no_record_trace_def)

lemma upstream_enclosed:
  assumes "Question m = [q]" "enclosureKey (Qtype q) = Some key"
    and "matches (enclosureSuffixMap u) key (ToLower (Name q)) \<or> matches (enclosureDomainMap u) key (ToLower (Name q))"
  shows "upstream_HandleQuestion L E u m t =
    (Ok (no_record L m q), t @ [''UpstreamDns-EnclosureDomainSuffix-Ended''] @ no_record_trace (no_record L m q))"
  using assms by (auto simp: upstream_HandleQuestion_def handleEnclosureDomains_def go_simps NotFound_eq returnS_def)

lemma parent_enclosed:
  assumes "dns_library L" "Question m = [q]" "enclosureKey (Qtype q) = Some (EType v)" "v \<in> set enc"
    and "plain_domain (Suffix v)" "in_domain (ToLower (Name q)) (Suffix v)"
  shows "\<exists>tr. \<forall>E t. ParentRecordHandler L (parent L E us enc) m t = (Ok (no_record L m q), t @ tr)"
proof (cases "us = []")
  case True
  then show ?thesis by (simp add: ParentRecordHandler_def parent_def NotFound_eq[OF assms(2)])
next
  case False
  then have "ParentRecordHandler L (parent L E us enc) m =
      upstream_HandleQuestion L E (NewUpstreamDNSWithSingle L us enc) m" for E
    by (simp add: ParentRecordHandler_def parent_def)
  moreover have "upstream_HandleQuestion L E (NewUpstreamDNSWithSingle L us enc) m t =
      (Ok (no_record L m q), t @ [''UpstreamDns-EnclosureDomainSuffix-Ended''] @ no_record_trace (no_record L m q))" for E t
    by (rule upstream_enclosed[OF assms(2,3)])
      (use enclosed_matches[OF assms(1,4-6)] in \<open>simp add: NewUpstreamDNSWithSingle_def\<close>)
  ultimately show ?thesis by auto
qed

text \<open>The handlers call their parent only for a name without a record.\<close>

lemma handlers_same_parent:
  assumes "ParentRecordHandler L p m = ParentRecordHandler L p' m"
  shows "RecordAHandler L p storage m = RecordAHandler L p' storage m"
    "RecordTxtHandler L p storage m = RecordTxtHandler L p' storage m"
    "RecordPtrHandler L p storage m = RecordPtrHandler L p' storage m"
    "RecordSRVHandler L p storage m = RecordSRVHandler L p' storage m"
    "RecordAAAAHandler L p storage m = RecordAAAAHandler L p' storage m"
  by (simp_all only: RecordAHandler_def RecordTxtHandler_def RecordPtrHandler_def RecordSRVHandler_def
      RecordAAAAHandler_def assms)

lemma missing_record:
  assumes "NewDnsEndpoint L E up addr us enc dbg = Ok d" "Question r = [q]"
    and "domain_type (Qtype q) = Some dt" "storage (Name q) dt = Err ErrStorageNotFound"
    and "\<And>t. ParentRecordHandler L (parent L E us enc) r t = (Ok (no_record L r q), t @ tr)"
  shows "\<exists>h t'. mget (HandlerMapping d) (Qtype q) = Some h \<and> h storage r t = (Ok (no_record L r q), t')"
  using assms(2-5) unfolding endpoint_handlers[OF assms(1)]
  by (auto simp: domain_type_def dns_consts RecordAHandler_def RecordTxtHandler_def RecordPtrHandler_def
      RecordSRVHandler_def RecordAAAAHandler_def go_simps Let_def NotFound_eq split: if_splits)

lemma ProcessDnsMsg_same_handler:
  assumes "Question r = [q]" "rel_option (\<lambda>h h'. h storage r = h' storage r) (mget (HandlerMapping d) (Qtype q)) (mget (HandlerMapping d') (Qtype q))"
  shows "ProcessDnsMsg L tGet tPut storage d r s = ProcessDnsMsg L tGet tPut storage d' r s"
  using assms(2)
  by (cases "mget (HandlerMapping d) (Qtype q)"; cases "mget (HandlerMapping d') (Qtype q)")
    (simp_all add: ProcessDnsMsg_def assms(1) bindS_def liftR_def)

lemma not_cached:
  assumes "cacheKey L r = Ok k" "Question r = [q]" "record_answer = no_record L r q" "dns_library L"
  shows "snd (cache_Put L tPut r record_answer c) = c"
proof -
  have "Answer record_answer = []" using dns_library.rcode_answer[OF assms(4)] assms(3) by (simp add: no_record_def newMsg_def)
  then show ?thesis by (simp add: cache_Put_run[OF assms(1)] checkHasValidTTL_def)
qed

section \<open>Requests\<close>

abbreviation written :: "Msg \<Rightarrow> unit res" where
  "written m \<equiv> Ok ()"

lemma ServeDNS_reply:
  assumes "ProcessDnsMsg L tGet tPut storage d r (c, []) = (Ok (Some reply), (c', t'))"
  shows "snd (ServeDNS L tGet tPut storage written d r (c, sent)) = (c', sent @ [reply])"
  using assms by (simp add: ServeDNS_def recoverS_def go_simps modifyS_def)

lemma ServeDNS_hit:
  assumes "Question r = [q]" "fst (cache_Get L tGet r c) = Ok (Some reply)"
  shows "snd (ServeDNS L tGet tPut storage written d r (c, sent)) = (c, sent @ [reply])"
  using ProcessDnsMsg_hit[OF assms, of tPut storage d "[]"]
  by (intro ServeDNS_reply[where t' = "snd (snd (ProcessDnsMsg L tGet tPut storage d r (c, [])))"]) (auto simp: prod_eq_iff)

text \<open>A name as it comes in a message: fully qualified; names with escapes are left out.\<close>

definition wire_name :: "string \<Rightarrow> bool" where
  "wire_name n \<longleftrightarrow> is_fqdn n \<and> CHR 0x5C \<notin> set n"

lemma same_key:
  assumes "dns_library L" "Question r = [q]" "Question r' = [q']" "wire_name (Name q)" "wire_name (Name q')"
    and "ToLower (Name q') = ToLower (Name q)" "Qtype q' = Qtype q"
  shows "cacheKey L r' = cacheKey L r"
  using assms by (simp add: cacheKey_eq[OF assms(3,2)] wire_name_def dns_library.fqdn_fqdn[OF assms(1)])

text \<open>What was stored under the key of a request is served to every request with that key.\<close>

lemma Get_after_Put:
  assumes "dns_library L" "cacheKey L r = Ok k" "cacheKey L r' = Ok k" "checkHasValidTTL reply = (True, t)"
    and "now' \<le> now + uint t"
  shows "fst (cache_Get L now' r' (snd (cache_Put L now r reply c))) = Ok (Some (SetReply L reply r'))"
  using assms(4,5) dns_library.copy[OF assms(1)]
  by (simp add: cache_Get_run[OF assms(3)] cache_Put_run[OF assms(2)] expired_def)

definition answer_rr :: "string \<Rightarrow> 16 word \<Rightarrow> rdata \<Rightarrow> RR" where
  "answer_rr name t rd = \<lparr>Hdr = Some \<lparr>rrName = name, Rrtype = t, Class = ClassINET, Ttl = DefaultResponseTTL\<rparr>, Rdata = rd\<rparr>"

lemma reply_with_Answer: "dns_library L \<Longrightarrow> Answer (reply_with L m name t rd) = [answer_rr name t rd]"
  by (simp add: reply_with_def Let_def dns_library.reply_answer newMsg_def answer_rr_def)

lemma checkHasValidTTL_reply_with: "dns_library L \<Longrightarrow> checkHasValidTTL (reply_with L m name t rd) = (True, 3600)"
proof -
  have "(3600 :: 32 word) < - 1" "(3600 :: 32 word) \<noteq> - 1" by code_simp+
  then show "dns_library L \<Longrightarrow> checkHasValidTTL (reply_with L m name t rd) = (True, 3600)"
    by (simp add: checkHasValidTTL_def reply_with_Answer answer_rr_def DefaultResponseTTL_def Let_def)
qed

lemma cache_ops_no_error: "fst (cache_Get L now r c) \<noteq> Err e" "fst (cache_Put L now r reply c) \<noteq> Err e"
  by (auto simp: cache_Get_def cache_Put_def cacheKey_def question0_def bindS_def liftR_def getS_def returnS_def modifyS_def
      split: list.splits option.splits prod.splits)

text \<open>Every error on the way is turned into a panic or into no reply.\<close>

lemma ProcessDnsMsg_no_error: "fst (ProcessDnsMsg L tGet tPut storage d r (c, t)) \<noteq> Err e"
proof (cases "question0 r")
  case (Ok q)
  have "fst (cache_Get L tGet r c) \<noteq> Err e" "\<And>reply c. fst (cache_Put L tPut r reply c) \<noteq> Err e" for e
    using cache_ops_no_error by blast+
  then show ?thesis using Ok
    by (cases "fst (cache_Get L tGet r c)"; cases "mget (HandlerMapping d) (Qtype q)")
      (auto simp: ProcessDnsMsg_def bindS_def liftR_def onFst_run onSnd_run tryS_def returnS_def panicS_def AddTraceInfo_run
        AddTraceInfoWithDnsAnswersIfNoError_def split: res.splits option.splits)
qed (auto simp: ProcessDnsMsg_def bindS_def liftR_def question0_def returnS_def split: list.splits)

lemma ServeDNS_outcomes:
  assumes "ServeDNS L tGet tPut storage WriteMsg d r (c, sent) = (out, (c', sent'))"
  shows "(\<exists>line. out = Ok line) \<or> out = Diverge \<and>
      (fst (ProcessDnsMsg L tGet tPut storage d r (c, [])) = Diverge \<or> (\<exists>m. WriteMsg m = Diverge))"
    and "sent' = sent \<or> (\<exists>reply. sent' = sent @ [reply] \<and> fst (ProcessDnsMsg L tGet tPut storage d r (c, [])) = Ok (Some reply))"
    and "Opcode r = OpcodeQuery \<and> length (Question r) > 1 \<and> WriteMsg = written \<Longrightarrow>
         c' = c \<and> sent' = sent @ [SetRcodeFormatError L newMsg r]"
    and "Question r = [] \<Longrightarrow> c' = c \<and> sent' = sent"
proof -
  obtain o1 c1 t1 where p: "ProcessDnsMsg L tGet tPut storage d r (c, []) = (o1, (c1, t1))" by (metis surj_pair)
  have no: "o1 \<noteq> Err e" for e using ProcessDnsMsg_no_error p by (metis fst_conv)
  show "(\<exists>line. out = Ok line) \<or> out = Diverge \<and>
      (fst (ProcessDnsMsg L tGet tPut storage d r (c, [])) = Diverge \<or> (\<exists>m. WriteMsg m = Diverge))"
    "sent' = sent \<or> (\<exists>reply. sent' = sent @ [reply] \<and> fst (ProcessDnsMsg L tGet tPut storage d r (c, [])) = Ok (Some reply))"
    using assms p no
    by (auto simp: ServeDNS_def recoverS_def bindS_def tryS_def liftR_def onFst_run onSnd_run returnS_def modifyS_def panicS_def
        AddTraceInfo_run split: res.splits option.splits)
  show "c' = c \<and> sent' = sent @ [SetRcodeFormatError L newMsg r]"
    if m: "Opcode r = OpcodeQuery \<and> length (Question r) > 1 \<and> WriteMsg = written"
    using assms m by (auto simp: ServeDNS_def ProcessDnsMsg_def recoverS_def bindS_def tryS_def liftR_def onFst_run onSnd_run
        returnS_def modifyS_def)
  show "c' = c \<and> sent' = sent" if m: "Question r = []"
    using assms m by (auto simp: ServeDNS_def ProcessDnsMsg_def recoverS_def bindS_def liftR_def onFst_run onSnd_run
        question0_def AddTraceInfo_run)
qed

section \<open>Types of records\<close>

text \<open>
  A record is well typed when its header names the type of its data, and a cache when all its
  answers are, and each has a lifetime.
\<close>

fun rr_type :: "rdata \<Rightarrow> 16 word option" where
  "rr_type (RdA _) = Some TypeA"
| "rr_type (RdAAAA _) = Some TypeAAAA"
| "rr_type (RdTXT _) = Some TypeTXT"
| "rr_type (RdSRV _ _ _ _) = Some TypeSRV"
| "rr_type (RdPTR _) = Some TypePTR"
| "rr_type (RdOther _) = None"

definition wt_rr :: "RR \<Rightarrow> bool" where
  "wt_rr rr \<longleftrightarrow> (case Hdr rr of None \<Rightarrow> False | Some h \<Rightarrow>
     (case rr_type (Rdata rr) of Some t \<Rightarrow> Rrtype h = t | None \<Rightarrow> domain_type (Rrtype h) = None))"

definition wt_msg :: "Msg \<Rightarrow> bool" where
  "wt_msg m \<longleftrightarrow> list_all wt_rr (Answer m)"

definition wt_cache :: "DnsMemCache \<Rightarrow> bool" where
  "wt_cache c \<longleftrightarrow> (\<forall>k e. mget c k = Some e \<longrightarrow> wt_msg (res e) \<and> 0 < ttl e)"

lemma wt_reply_with: "dns_library L \<Longrightarrow> rr_type rd = Some t \<Longrightarrow> wt_msg (reply_with L m name t rd)"
  by (simp add: wt_msg_def reply_with_Answer wt_rr_def answer_rr_def)

lemma wt_no_answers: "Answer m = [] \<Longrightarrow> wt_msg m"
  by (simp add: wt_msg_def)

lemma wt_NotFound:
  assumes "dns_library L" "NotFoundUpstreamDns L b m t = (Ok reply, t')"
  shows "wt_msg reply"
  using assms(2) dns_library.rcode_answer[OF assms(1)]
  by (intro wt_no_answers)
    (auto simp: NotFoundUpstreamDns_def bindS_eq_Ok AddTraceInfo_run liftR_def Let_def returnS_def newMsg_def)

lemma wt_NotFound_fst:
  "dns_library L \<Longrightarrow> fst (NotFoundUpstreamDns L b m t) = Ok reply \<Longrightarrow> wt_msg reply"
  by (rule wt_NotFound[of L b m t reply "snd (NotFoundUpstreamDns L b m t)"]) (simp_all add: prod_eq_iff)

definition wt_handler :: "handler \<Rightarrow> bool" where
  "wt_handler h \<longleftrightarrow> (\<forall>m t reply t'. h m t = (Ok reply, t') \<longrightarrow> wt_msg reply)"

lemma wt_enclosure:
  assumes "dns_library L" "handleEnclosureDomains L u name t raw s = (Ok (Some reply), s')"
  shows "wt_msg reply"
proof (cases "enclosureKey t")
  case None
  then show ?thesis using assms(2) by (simp add: handleEnclosureDomains_def returnS_def)
next
  case (Some key)
  then show ?thesis using assms(2) wt_NotFound[OF assms(1)]
    by (auto simp: handleEnclosureDomains_def returnS_def bindS_eq_Ok split: if_splits)
qed

lemma wt_upstream:
  assumes "dns_library L" "\<forall>m a reply. E m a = Ok reply \<longrightarrow> wt_msg reply"
  shows "wt_handler (upstream_HandleQuestion L E u)"
  unfolding wt_handler_def
proof safe
  fix m t reply t' assume "upstream_HandleQuestion L E u m t = (Ok reply, t')"
  then obtain q res s1 where q: "question0 m = Ok q"
      and r: "handleEnclosureDomains L u (ToLower (Name q)) (Qtype q) m t = (Ok res, s1)"
      and rest: "(case res of Some r \<Rightarrow> returnS r
       | None \<Rightarrow> bindS (AddTraceInfo ''UpstreamDns'') (\<lambda>_.
             case Servers u of [] \<Rightarrow> (\<lambda>s. (Panic ''index out of range'', s))
             | server # _ \<Rightarrow>
                 bindS (liftR (E m (JoinHostPort server (Port u)))) (\<lambda>r.
                 bindS (AddTraceInfoWithDnsAnswersIfNoError L ''UpstreamDns->'' r) (\<lambda>_. returnS r)))) s1 = (Ok reply, t')"
    by (auto simp: upstream_HandleQuestion_def bindS_eq_Ok liftR_def)
  show "wt_msg reply"
  proof (cases res)
    case None
    then show ?thesis using rest assms(2)
      by (auto simp: bindS_eq_Ok liftR_def returnS_def split: list.splits)
  next
    case (Some a)
    then show ?thesis using rest r wt_enclosure[OF assms(1)] by (auto simp: returnS_def)
  qed
qed

lemma wt_parent:
  assumes "dns_library L" "\<forall>m a reply. E m a = Ok reply \<longrightarrow> wt_msg reply"
  shows "wt_handler (ParentRecordHandler L (parent L E us enc))"
  using wt_upstream[OF assms] wt_NotFound[OF assms(1)]
  by (auto simp: wt_handler_def ParentRecordHandler_def parent_def split: option.splits if_splits)

lemma wt_handlers:
  assumes "dns_library L" "wt_handler (ParentRecordHandler L p)"
  shows "wt_handler (RecordAHandler L p storage)" "wt_handler (RecordTxtHandler L p storage)"
    "wt_handler (RecordPtrHandler L p storage)" "wt_handler (RecordSRVHandler L p storage)"
    "wt_handler (RecordAAAAHandler L p storage)"
  using assms(2) unfolding wt_handler_def
  by (auto simp: RecordAHandler_def RecordTxtHandler_def RecordPtrHandler_def RecordSRVHandler_def RecordAAAAHandler_def
      Let_def bindS_eq_Ok tryS_eq_Ok liftR_def returnS_def failS_def wt_reply_with[OF assms(1)] wt_NotFound[OF assms(1)]
      split: if_splits)

lemma wt_cache_Put: "wt_cache c \<Longrightarrow> wt_msg reply \<Longrightarrow> wt_cache (snd (cache_Put L now r reply c))"
  by (auto simp: wt_cache_def cache_Put_def checkHasValidTTL_def Let_def bindS_def liftR_def modifyS_def returnS_def
      split: prod.splits res.splits if_splits)

lemma wt_cache_Get:
  assumes "dns_library L" "wt_cache c" "cache_Get L now r c = (out, c')"
  shows "c' = c \<and> (\<forall>reply. out = Ok (Some reply) \<longrightarrow> wt_msg reply)"
  using assms(2,3) dns_library.copy[OF assms(1)] dns_library.reply_answer[OF assms(1)]
  by (auto simp: wt_cache_def wt_msg_def cache_Get_def bindS_def liftR_def getS_def returnS_def
      split: res.splits option.splits if_splits)

lemma wt_endpoint:
  assumes "dns_library L" "\<forall>m a reply. E m a = Ok reply \<longrightarrow> wt_msg reply" "NewDnsEndpoint L E up addr us enc dbg = Ok d"
    and "mget (HandlerMapping d) t = Some h"
  shows "wt_handler (h storage)"
  using assms(4) wt_handlers[OF assms(1) wt_parent[OF assms(1,2)]] endpoint_handlers[OF assms(3)]
  by (auto split: if_splits)

lemma processed_well_typed:
  assumes "dns_library L" "\<forall>m a reply. E m a = Ok reply \<longrightarrow> wt_msg reply" "NewDnsEndpoint L E up addr us enc dbg = Ok d"
    and "wt_cache c" "ProcessDnsMsg L tGet tPut storage d r (c, t) = (out, (c', t'))"
    and "\<not> (Opcode r = OpcodeQuery \<and> length (Question r) > 1)"
  shows "wt_cache c' \<and> (\<forall>reply. out = Ok (Some reply) \<longrightarrow> wt_msg reply)"
proof (cases "question0 r")
  case (Ok q)
  obtain g cg where g: "cache_Get L tGet r c = (g, cg)" by fastforce
  have g': "cg = c" "\<And>reply. g = Ok (Some reply) \<Longrightarrow> wt_msg reply" using wt_cache_Get[OF assms(1,4) g] by auto
  let ?t = "t @ [''resolve:t='' @ dec_digits (unat (Qtype q)) @ '',domain:'' @ Name q]"
  show ?thesis
  proof (cases "mget (HandlerMapping d) (Qtype q)")
    case None
    show ?thesis using assms(4-6) Ok None g g' wt_NotFound_fst[OF assms(1)]
      by (auto simp: ProcessDnsMsg_def bindS_def tryS_def liftR_def onFst_run onSnd_run returnS_def panicS_def AddTraceInfo_run
          AddTraceInfoWithDnsAnswersIfNoError_def split: res.splits option.splits prod.splits)
  next
    case (Some h)
    obtain ho th where h: "h storage r ?t = (ho, th)" by fastforce
    have "wt_msg reply" if "ho = Ok reply" for reply
      using wt_endpoint[OF assms(1-3) Some, of storage] h that unfolding wt_handler_def by blast
    then show ?thesis using assms(4-6) Ok Some g g' h wt_cache_Put[OF assms(4), of _ L tPut r] cache_ops_no_error
      by (auto simp: ProcessDnsMsg_def bindS_def tryS_def liftR_def onFst_run onSnd_run returnS_def panicS_def AddTraceInfo_run
          AddTraceInfoWithDnsAnswersIfNoError_def split: res.splits option.splits prod.splits if_splits)
  qed
qed (use assms in \<open>auto simp: ProcessDnsMsg_def bindS_def liftR_def\<close>)

section \<open>Properties\<close>

text \<open>
  C8: a question for a name in an enclosed domain never leaves the node. Whatever the upstream
  servers would answer, the outcome, the cache and the trace are the same; if neither the cache
  nor the storage has the record the answer is "no such name" (for AAAA: no data), and it is not
  cached.
\<close>

theorem enclosed_name_stays:
  assumes "dns_library L" "NewDnsEndpoint L E up addr us enc dbg = Ok d" "NewDnsEndpoint L E' up addr us enc dbg = Ok d'"
    and "Question r = [q]" "enclosureKey (Qtype q) = Some (EType v)" "v \<in> set enc"
    and "plain_domain (Suffix v)" "in_domain (ToLower (Name q)) (Suffix v)"
  shows "ProcessDnsMsg L tGet tPut storage d r (c, t) = ProcessDnsMsg L tGet tPut storage d' r (c, t)
    \<and> (fst (cache_Get L tGet r c) = Ok None \<and> domain_type (Qtype q) = Some dt \<and> storage (Name q) dt = Err ErrStorageNotFound
       \<longrightarrow> (\<exists>t'. ProcessDnsMsg L tGet tPut storage d r (c, t) = (Ok (Some (no_record L r q)), (c, t'))))"
proof
  obtain tr where tr: "\<And>E t. ParentRecordHandler L (parent L E us enc) r t = (Ok (no_record L r q), t @ tr)"
    using parent_enclosed[OF assms(1,4-8)] by blast
  then have p: "ParentRecordHandler L (parent L E us enc) r = ParentRecordHandler L (parent L E' us enc) r" by auto
  show "ProcessDnsMsg L tGet tPut storage d r (c, t) = ProcessDnsMsg L tGet tPut storage d' r (c, t)"
    by (rule ProcessDnsMsg_same_handler[OF assms(4)])
      (use handlers_same_parent[OF p, of storage] in \<open>simp add: endpoint_handlers[OF assms(2)] endpoint_handlers[OF assms(3)]\<close>)
  show "fst (cache_Get L tGet r c) = Ok None \<and> domain_type (Qtype q) = Some dt \<and> storage (Name q) dt = Err ErrStorageNotFound
       \<longrightarrow> (\<exists>t'. ProcessDnsMsg L tGet tPut storage d r (c, t) = (Ok (Some (no_record L r q)), (c, t')))"
  proof safe
    assume miss: "fst (cache_Get L tGet r c) = Ok None" "domain_type (Qtype q) = Some dt" "storage (Name q) dt = Err ErrStorageNotFound"
    obtain k where k: "cacheKey L r = Ok k" using cacheKey_Ok assms(4) by metis
    obtain h t' where h: "mget (HandlerMapping d) (Qtype q) = Some h"
        "h storage r (t @ [''resolve:t='' @ dec_digits (unat (Qtype q)) @ '',domain:'' @ Name q]) = (Ok (no_record L r q), t')"
      using missing_record[where storage = storage, OF assms(2,4) miss(2,3) tr] by blast
    show "\<exists>t'. ProcessDnsMsg L tGet tPut storage d r (c, t) = (Ok (Some (no_record L r q)), (c, t'))"
      using ProcessDnsMsg_miss[OF assms(4) miss(1) h] not_cached[OF k assms(4) refl assms(1)] by simp
  qed
qed

definition sampleEnclosure :: "enclosure list" where
  "sampleEnclosure = [\<lparr>EType = ''A'', Suffix = ''internal''\<rparr>]"

definition urlOk :: "string \<Rightarrow> (string \<times> string) res" where
  "urlOk s = Ok (''udp'', s)"

definition sampleEndpoint :: "exchange \<Rightarrow> DnsEndpoint" where
  "sampleEndpoint E = (case NewDnsEndpoint plain_dns E urlOk '':53'' [''8.8.8.8''] sampleEnclosure False of Ok d \<Rightarrow> d)"

lemma sampleEndpoint: "NewDnsEndpoint plain_dns E urlOk '':53'' [''8.8.8.8''] sampleEnclosure False = Ok (sampleEndpoint E)"
  by (simp add: sampleEndpoint_def NewDnsEndpoint_def urlOk_def Let_def)

theorem enclosed_name_stays_witness:
  "\<exists>t'. ProcessDnsMsg plain_dns 5 5 (ResolveDomain [] NewMemStore) (sampleEndpoint (\<lambda>m a. Ok sampleAnswer))
        (sampleQuestion ''db.Internal.'') ([], [])
      = (Ok (Some (no_record plain_dns (sampleQuestion ''db.Internal.'') \<lparr>Name = ''db.Internal.'', Qtype = TypeA\<rparr>)), ([], t'))"
proof -
  let ?q = "\<lparr>Name = ''db.Internal.'', Qtype = TypeA\<rparr>"
  have q: "Question (sampleQuestion ''db.Internal.'') = [?q]" by (simp add: sampleQuestion_def)
  have key: "enclosureKey (Qtype ?q) = Some (EType \<lparr>EType = ''A'', Suffix = ''internal''\<rparr>)" by (simp add: enclosureKey_def)
  have mem: "\<lparr>EType = ''A'', Suffix = ''internal''\<rparr> \<in> set sampleEnclosure" by (simp add: sampleEnclosure_def)
  have pl: "plain_domain (Suffix \<lparr>EType = ''A'', Suffix = ''internal''\<rparr>)" by code_simp
  have dom: "in_domain (ToLower (Name ?q)) (Suffix \<lparr>EType = ''A'', Suffix = ''internal''\<rparr>)" by code_simp
  have miss: "fst (cache_Get plain_dns 5 (sampleQuestion ''db.Internal.'') []) = Ok None" by code_simp
  have dt: "domain_type (Qtype ?q) = Some DomainTypeA" by (simp add: domain_type_def)
  have st: "ResolveDomain [] NewMemStore (Name ?q) DomainTypeA = Err ErrStorageNotFound" by code_simp
  show ?thesis
    using enclosed_name_stays[OF plain_dns_library sampleEndpoint sampleEndpoint q key mem pl dom,
        where E' = "\<lambda>m a. Diverge" and tGet = 5 and c = "[]" and dt = DomainTypeA and storage = "ResolveDomain [] NewMemStore"]
      miss dt st by blast
qed

text \<open>
  C16: a question for a name of the storage is answered from it and not from upstream: one record
  of the type asked for, with the name as asked. For an hour after that every question for the
  name, in any letter case, gets that record in a reply of its own, even if the storage has
  changed since.
\<close>

theorem local_record_served:
  assumes "dns_library L" "NewDnsEndpoint L E up addr us enc dbg = Ok d" "Question r = [q]" "Question r' = [q']"
    and "wire_name (Name q)" "wire_name (Name q')" "ToLower (Name q') = ToLower (Name q)" "Qtype q' = Qtype q"
    and "domain_type (Qtype q) = Some dt" "storage (Name q) dt = Ok v" "record_data L (Qtype q) v = Some rd"
    and "fst (cache_Get L tGet r c) = Ok None" "tGet' \<le> tPut + 3600"
  shows "let reply = reply_with L r (Name q) (Qtype q) rd;
             first = ServeDNS L tGet tPut storage written d r (c, sent);
             second = ServeDNS L tGet' tPut' storage' written d r' (snd first)
    in snd (snd first) = sent @ [reply]
     \<and> snd (snd second) = sent @ [reply, SetReply L reply r']
     \<and> Answer reply = [answer_rr (Name q) (Qtype q) rd] \<and> Answer (SetReply L reply r') = Answer reply
     \<and> Id (SetReply L reply r') = Id r'"
proof -
  let ?reply = "reply_with L r (Name q) (Qtype q) rd"
  let ?c = "snd (cache_Put L tPut r ?reply c)"
  obtain k where k: "cacheKey L r = Ok k" using cacheKey_Ok assms(3) by metis
  have k': "cacheKey L r' = Ok k" using same_key[OF assms(1,3-8)] k by simp
  obtain h t' where h: "mget (HandlerMapping d) (Qtype q) = Some h"
      "h storage r ([] @ [''resolve:t='' @ dec_digits (unat (Qtype q)) @ '',domain:'' @ Name q]) = (Ok ?reply, t')"
    using local_handler[OF assms(2,3,9), of storage v rd] assms(10,11) by blast
  have first: "snd (ServeDNS L tGet tPut storage written d r (c, sent)) = (?c, sent @ [?reply])"
    by (rule ServeDNS_reply[OF ProcessDnsMsg_miss[OF assms(3,12) h]])
  have "fst (cache_Get L tGet' r' ?c) = Ok (Some (SetReply L ?reply r'))"
    by (rule Get_after_Put[OF assms(1) k k' checkHasValidTTL_reply_with[OF assms(1)]]) (use assms(13) in simp)
  from ServeDNS_hit[OF assms(4) this, of tPut' storage' d "sent @ [?reply]"] first
  show ?thesis
    by (simp add: Let_def reply_with_Answer assms(1) dns_library.reply_answer dns_library.reply_id)
qed

definition sampleStore :: MemStore where
  "sampleStore = snd (PutDomain (Fqdn plain_dns) ''Db.Lan'' ''10.0.0.1'' DomainTypeA NewMemStore)"

lemma sampleQuestion_Question: "Question (sampleQuestion n) = [\<lparr>Name = n, Qtype = TypeA\<rparr>]"
  by (simp add: sampleQuestion_def)

lemma sampleStore_resolves: "ResolveDomain [] sampleStore ''DB.lan.'' DomainTypeA = Ok ''10.0.0.1''"
  by code_simp

theorem local_record_served_witness:
  "let d = sampleEndpoint (\<lambda>m a. Ok sampleAnswer) in
   snd (snd (ServeDNS plain_dns 4000 4000 (ResolveDomain [] NewMemStore) written d (sampleQuestion ''db.LAN.'')
       (snd (ServeDNS plain_dns 400 400 (ResolveDomain [] sampleStore) written d (sampleQuestion ''DB.lan.'') ([], [])))))
   = [reply_with plain_dns (sampleQuestion ''DB.lan.'') ''DB.lan.'' TypeA (RdA (ParseIP ''10.0.0.1'')),
      SetReply plain_dns (reply_with plain_dns (sampleQuestion ''DB.lan.'') ''DB.lan.'' TypeA (RdA (ParseIP ''10.0.0.1'')))
        (sampleQuestion ''db.LAN.'')]"
proof -
  let ?q = "\<lparr>Name = ''DB.lan.'', Qtype = TypeA\<rparr>" and ?q' = "\<lparr>Name = ''db.LAN.'', Qtype = TypeA\<rparr>"
  have w: "wire_name (Name ?q)" "wire_name (Name ?q')" "ToLower (Name ?q') = ToLower (Name ?q)" by code_simp+
  have t: "Qtype ?q' = Qtype ?q" "domain_type (Qtype ?q) = Some DomainTypeA" by (simp_all add: domain_type_def)
  have v: "ResolveDomain [] sampleStore (Name ?q) DomainTypeA = Ok ''10.0.0.1''"
    using sampleStore_resolves by simp
  have rd: "record_data plain_dns (Qtype ?q) ''10.0.0.1'' = Some (RdA (ParseIP ''10.0.0.1''))" by (simp add: record_data_def)
  have miss: "fst (cache_Get plain_dns 400 (sampleQuestion ''DB.lan.'') []) = Ok None" by code_simp
  have time: "(4000 :: int) \<le> 400 + 3600" by simp
  show ?thesis
    using local_record_served[where storage = "ResolveDomain [] sampleStore" and E = "\<lambda>m a. Ok sampleAnswer" and sent = "[]"
        and storage' = "ResolveDomain [] NewMemStore" and tPut' = 4000,
        OF plain_dns_library sampleEndpoint sampleQuestion_Question sampleQuestion_Question w t v rd miss time]
    by (simp add: Let_def)
qed

text \<open>
  A name that has an IPv4 address in the storage and no IPv6 address is answered with "no
  data" when its IPv6 address is asked for: no error, no record, nothing asked upstream and
  nothing cached.
\<close>

lemma aaaa_of_ipv4_name:
  assumes "dns_library L" "NewDnsEndpoint L E up addr us enc dbg = Ok d" "Question r = [q]" "Qtype q = TypeAAAA"
    and "storage (Name q) DomainTypeAAAA = Err ErrStorageNotFound" "storage (Name q) DomainTypeA = Ok v"
    and "fst (cache_Get L tGet r c) = Ok None"
  shows "snd (ServeDNS L tGet tPut storage written d r (c, sent)) = (c, sent @ [no_record L r q])
    \<and> Rcode (no_record L r q) = RcodeSuccess \<and> Answer (no_record L r q) = [] \<and> Id (no_record L r q) = Id r"
proof -
  obtain k where k: "cacheKey L r = Ok k" using cacheKey_Ok assms(3) by metis
  have h: "mget (HandlerMapping d) (Qtype q) = Some (RecordAAAAHandler L (parent L E us enc))"
    by (simp add: endpoint_handlers[OF assms(2)] assms(4))
  have "\<exists>t'. RecordAAAAHandler L (parent L E us enc) storage r t = (Ok (no_record L r q), t')" for t
    using assms(3,5,6) by (simp add: RecordAAAAHandler_def go_simps Let_def checkIfARecordExists_def NotFound_eq)
  then obtain t' where t': "RecordAAAAHandler L (parent L E us enc) storage r
      ([] @ [''resolve:t='' @ dec_digits (unat (Qtype q)) @ '',domain:'' @ Name q]) = (Ok (no_record L r q), t')" by blast
  show ?thesis
    using ServeDNS_reply[OF ProcessDnsMsg_miss[OF assms(3,7) h t']] not_cached[OF k assms(3) refl assms(1)] assms(4)
      dns_library.rcode_rcode[OF assms(1)] dns_library.rcode_answer[OF assms(1)] dns_library.rcode_id[OF assms(1)]
    by (simp add: no_record_def newMsg_def)
qed

text \<open>
  C28: whatever a request holds and whatever goes wrong while it is processed, the callback of
  the listener returns normally unless a library call hangs, and sends one reply or none. More
  than one question is answered with a format error; a request without a question gets no answer
  and leaves the cache as it is.
\<close>

theorem dns_request_contained:
  assumes "ServeDNS L tGet tPut storage WriteMsg d r (c, sent) = (out, (c', sent'))"
  shows "((\<exists>line. out = Ok line) \<or> out = Diverge \<and>
      (fst (ProcessDnsMsg L tGet tPut storage d r (c, [])) = Diverge \<or> (\<exists>m. WriteMsg m = Diverge)))
    \<and> (sent' = sent \<or> (\<exists>reply. sent' = sent @ [reply] \<and> fst (ProcessDnsMsg L tGet tPut storage d r (c, [])) = Ok (Some reply)))
    \<and> (Opcode r = OpcodeQuery \<and> length (Question r) > 1 \<and> WriteMsg = written \<longrightarrow>
         c' = c \<and> sent' = sent @ [SetRcodeFormatError L newMsg r])
    \<and> (Question r = [] \<longrightarrow> c' = c \<and> sent' = sent)"
  using ServeDNS_outcomes[OF assms] by blast

theorem dns_request_contained_witness:
  "snd (ServeDNS plain_dns 5 5 (ResolveDomain [] sampleStore) written (sampleEndpoint (\<lambda>m a. Ok sampleAnswer)) newMsg ([], [])) = ([], [])"
proof -
  let ?run = "ServeDNS plain_dns 5 5 (ResolveDomain [] sampleStore) written (sampleEndpoint (\<lambda>m a. Ok sampleAnswer)) newMsg ([], [])"
  have "?run = (fst ?run, (fst (snd ?run), snd (snd ?run)))" by simp
  from dns_request_contained[OF this] show ?thesis by (simp add: newMsg_def prod_eq_iff)
qed

text \<open>
  C27: every reply and every cached answer is well typed: the header of each record names the
  type of its data. Answers from upstream are taken to be well typed, as the library unpacks
  them; the cache stays well typed through every request.
\<close>

theorem replies_well_typed:
  assumes "dns_library L" "\<forall>m a reply. E m a = Ok reply \<longrightarrow> wt_msg reply" "NewDnsEndpoint L E up addr us enc dbg = Ok d"
    and "wt_cache c" "ProcessDnsMsg L tGet tPut storage d r (c, t) = (out, (c', t'))"
  shows "wt_cache c' \<and> (\<forall>reply. out = Ok (Some reply) \<longrightarrow> wt_msg reply)"
proof (cases "Opcode r = OpcodeQuery \<and> length (Question r) > 1")
  case True
  then show ?thesis using assms(4,5) dns_library.format_answer[OF assms(1)]
    by (auto simp: ProcessDnsMsg_def returnS_def newMsg_def intro: wt_no_answers)
next
  case False
  then show ?thesis using processed_well_typed[OF assms(1-4)] assms(5) by blast
qed

theorem replies_well_typed_witness:
  "wt_cache (fst (snd (ProcessDnsMsg plain_dns 5 5 (ResolveDomain [] sampleStore) (sampleEndpoint (\<lambda>m a. Ok sampleAnswer))
      (sampleQuestion ''DB.lan.'') ([], []))))"
proof -
  let ?run = "ProcessDnsMsg plain_dns 5 5 (ResolveDomain [] sampleStore) (sampleEndpoint (\<lambda>m a. Ok sampleAnswer))
      (sampleQuestion ''DB.lan.'') ([], [])"
  have e: "\<forall>m a reply. Ok sampleAnswer = Ok reply \<longrightarrow> wt_msg reply"
    by (simp add: sampleAnswer_def wt_msg_def wt_rr_def)
  have c: "wt_cache []" by (simp add: wt_cache_def)
  have "?run = (fst ?run, (fst (snd ?run), snd (snd ?run)))" by simp
  from replies_well_typed[OF plain_dns_library e sampleEndpoint c this] show ?thesis by blast
qed

text \<open>
  C33: an answer from the cache always says that there was no error. An upstream reply with an
  error code and records with a lifetime (an alias whose target does not exist) is passed on as it
  is to the first request and without its error code to the next ones.
\<close>

theorem cached_reply_loses_rcode:
  assumes "dns_library L" "Question r = [q]" "cacheKey L r' = cacheKey L r" "Question r' = [q']"
    and "mget (HandlerMapping d) (Qtype q) = Some h" "\<And>t. fst (h storage r t) = Ok reply"
    and "fst (cache_Get L tGet r c) = Ok None" "checkHasValidTTL reply = (True, life)" "tGet' \<le> tPut + uint life"
  shows "\<exists>reply'. snd (snd (ServeDNS L tGet' tPut' storage' written d r'
        (snd (ServeDNS L tGet tPut storage written d r (c, sent))))) = sent @ [reply, reply']
    \<and> Answer reply' = Answer reply \<and> Rcode reply' = RcodeSuccess"
proof -
  let ?c = "snd (cache_Put L tPut r reply c)"
  obtain k where k: "cacheKey L r = Ok k" using cacheKey_Ok assms(2) by metis
  have k': "cacheKey L r' = Ok k" using assms(3) k by simp
  obtain t' where h: "h storage r ([] @ [''resolve:t='' @ dec_digits (unat (Qtype q)) @ '',domain:'' @ Name q]) = (Ok reply, t')"
    using assms(6) by (metis prod.collapse)
  have first: "snd (ServeDNS L tGet tPut storage written d r (c, sent)) = (?c, sent @ [reply])"
    by (rule ServeDNS_reply[OF ProcessDnsMsg_miss[OF assms(2,7,5) h]])
  have "fst (cache_Get L tGet' r' ?c) = Ok (Some (SetReply L reply r'))"
    by (rule Get_after_Put[OF assms(1) k k' assms(8,9)])
  from ServeDNS_hit[OF assms(4) this, of tPut' storage' d "sent @ [reply]"] first
  show ?thesis
    by (intro exI[of _ "SetReply L reply r'"]) (simp add: dns_library.reply_answer[OF assms(1)] dns_library.reply_rcode[OF assms(1)])
qed

definition aliasAnswer :: Msg where
  "aliasAnswer = sampleAnswer\<lparr>Rcode := RcodeNameError,
     Answer := [\<lparr>Hdr = Some \<lparr>rrName = ''a.b.'', Rrtype = 5, Class = ClassINET, Ttl = 60\<rparr>, Rdata = RdOther ''c.d.''\<rparr>]\<rparr>"

theorem cached_reply_loses_rcode_witness:
  "\<exists>reply'. snd (snd (ServeDNS plain_dns 20 20 (ResolveDomain [] NewMemStore) written (sampleEndpoint (\<lambda>m a. Ok aliasAnswer)) (sampleQuestion ''a.b.'')
        (snd (ServeDNS plain_dns 5 5 (ResolveDomain [] NewMemStore) written (sampleEndpoint (\<lambda>m a. Ok aliasAnswer)) (sampleQuestion ''a.b.'') ([], [])))))
      = [aliasAnswer, reply']
    \<and> Rcode aliasAnswer = RcodeNameError \<and> Rcode reply' = RcodeSuccess"
proof -
  let ?E = "\<lambda>m a. Ok aliasAnswer" and ?q = "\<lparr>Name = ''a.b.'', Qtype = TypeA\<rparr>"
  let ?h = "RecordAHandler plain_dns (parent plain_dns ?E [''8.8.8.8''] sampleEnclosure)"
  have h: "mget (HandlerMapping (sampleEndpoint ?E)) (Qtype ?q) = Some ?h"
    by (simp add: endpoint_handlers[OF sampleEndpoint] dns_consts)
  have no: "ResolveDomain [] NewMemStore ''a.b.'' DomainTypeA = Err ErrStorageNotFound" by code_simp
  have m: "\<not> matches (suffixMap plain_dns sampleEnclosure) ''A'' (ToLower ''a.b.'')"
    "\<not> matches (domainMap plain_dns sampleEnclosure) ''A'' (ToLower ''a.b.'')" by code_simp+
  have run: "fst (?h (ResolveDomain [] NewMemStore) (sampleQuestion ''a.b.'') t) = Ok aliasAnswer" for t
    by (simp add: RecordAHandler_def sampleQuestion_Question go_simps no ParentRecordHandler_def parent_def upstream_HandleQuestion_def
        handleEnclosureDomains_def enclosureKey_def NewUpstreamDNSWithSingle_def m AddTraceInfoWithDnsAnswersIfNoError_def returnS_def Let_def)
  have miss: "fst (cache_Get plain_dns 5 (sampleQuestion ''a.b.'') []) = Ok None" by code_simp
  have ttl: "checkHasValidTTL aliasAnswer = (True, 60)" by code_simp
  have time: "(20 :: int) \<le> 5 + uint (60 :: 32 word)" by simp
  show ?thesis
    using cached_reply_loses_rcode[where r = "sampleQuestion ''a.b.''" and sent = "[]" and tPut' = 20
        and storage' = "ResolveDomain [] NewMemStore",
        OF plain_dns_library sampleQuestion_Question refl sampleQuestion_Question h run miss ttl time]
    by (auto simp: aliasAnswer_def)
qed

end
