(* ===== verification/Http_Lib.thy ===== *)
theory Http_Lib
  imports Prelude
begin

text \<open>
  The parts of \<open>net/http\<close> that the DNS and the key-value front ends use, the results a handler
  returns (\<open>internal/iface/http.go\<close>) and the server that renders them
  (\<open>internal/httpserver/http.go\<close>). The router that picks a handler for a path is library code.
\<close>

section \<open>Requests and responses\<close>

text \<open>
  A request: its method, its headers, the values of its form and its body, which may fail to be
  read. A response: the headers set, the status, once it is written, the bytes of the body, and
  whether the connection is broken.
\<close>

record HttpReq =
  Method :: string
  HeaderGet :: "string \<Rightarrow> string"
  FormValue :: "string \<Rightarrow> string"
  Body :: "bytes res"

record HttpResp =
  Headers :: "(string, string) gomap"
  Status :: "nat option"
  Written :: bytes
  Broken :: bool

definition newResp :: HttpResp where
  "newResp = \<lparr>Headers = [], Status = None, Written = [], Broken = False\<rparr>"

definition setHeader :: "string \<times> string \<Rightarrow> (HttpResp, unit) prog" where
  "setHeader kv = modifyS (\<lambda>w. w\<lparr>Headers := mput (fst kv) (snd kv) (Headers w)\<rparr>)"

text \<open>Only the first status counts; writing a body implies 200.\<close>

definition writeHeader :: "nat \<Rightarrow> (HttpResp, unit) prog" where
  "writeHeader code = modifyS (\<lambda>w. if Status w = None then w\<lparr>Status := Some code\<rparr> else w)"

definition writeBody :: "bytes \<Rightarrow> (HttpResp, unit) prog" where
  "writeBody b =
     bindS (writeHeader 200) (\<lambda>_. bindS getS (\<lambda>w.
       if Broken w then failS (OsError ''broken pipe'') else modifyS (\<lambda>w. w\<lparr>Written := Written w @ b\<rparr>)))"

section \<open>Results\<close>

type_synonym HttpResult = "(HttpResp, unit) prog"

definition JsonResult :: "('o \<Rightarrow> bytes res) \<Rightarrow> nat \<Rightarrow> 'o \<Rightarrow> HttpResult" where
  "JsonResult Marshal status object =
     bindS (liftR (Marshal object)) (\<lambda>data.
     bindS (setHeader (''Content-Type'', ''application/json; charset=utf-8'')) (\<lambda>_.
     bindS (writeHeader status) (\<lambda>_. writeBody data)))"

definition StatusOnlyResult :: "nat \<Rightarrow> HttpResult" where
  "StatusOnlyResult status = writeHeader status"

definition RawResult :: "bytes \<Rightarrow> HttpResult" where
  "RawResult raw =
     bindS (setHeader (''Content-Type'', ''application/octet-stream'')) (\<lambda>_.
     bindS (writeHeader 200) (\<lambda>_. writeBody raw))"

section \<open>The server\<close>

text \<open>
  A handler works on the state of its service. The handle that the router calls renders the
  result; the state of the model is the service with the response, and the errors that the
  general error handler was given, when there is one.
\<close>

type_synonym 's httpHandler = "HttpReq \<Rightarrow> (string \<Rightarrow> string) \<Rightarrow> ('s, HttpResult) prog"

type_synonym 's httpHandle = "HttpReq \<Rightarrow> (string \<Rightarrow> string) \<Rightarrow> ('s \<times> HttpResp, error list) prog"

record 's HttpServer =
  router :: "(string \<times> string, 's httpHandle) gomap"
  listenAddr :: string
  httpServer :: "string option"
  GeneralErrorHandler :: bool

definition NewHttpServer :: "string \<Rightarrow> 's HttpServer" where
  "NewHttpServer addr = \<lparr>router = [], listenAddr = addr, httpServer = None, GeneralErrorHandler = False\<rparr>"

definition newHandle :: "'s httpHandler \<Rightarrow> bool \<Rightarrow> 's httpHandle" where
  "newHandle h ef request params =
     tryS (onFst (h request params))
       (\<lambda>r. tryS (onSnd r) (\<lambda>_. returnS []) (\<lambda>err. returnS (if ef then [err] else [])))
       (\<lambda>err. bindS (onSnd (writeHeader 500)) (\<lambda>_. returnS (if ef then [err] else [])))"

definition Add :: "string \<Rightarrow> string \<Rightarrow> 's httpHandler \<Rightarrow> 's HttpServer \<Rightarrow> 's HttpServer" where
  "Add method path handler h =
     h\<lparr>router := mput (method, path) (newHandle handler (GeneralErrorHandler h)) (router h)\<rparr>"

text \<open>
  Its life: the library listens on an address and shuts down the server that was made for it. A
  server that serves is the field \<open>httpServer\<close> with its address; the goroutine of \<open>Startup\<close> only serves.
\<close>

record listenlib =
  Listen :: "string \<Rightarrow> unit res"
  Shutdown :: "string \<Rightarrow> unit res"

definition http_Startup :: "listenlib \<Rightarrow> ('s HttpServer, unit) prog" where
  "http_Startup N =
     bindS getS (\<lambda>h.
     bindS (liftR (Listen N (listenAddr h))) (\<lambda>_.
       modifyS (\<lambda>h. h\<lparr>httpServer := Some (listenAddr h)\<rparr>)))"

definition http_Stop :: "listenlib \<Rightarrow> ('s HttpServer, unit) prog" where
  "http_Stop N =
     bindS getS (\<lambda>h.
       case httpServer h of
         None \<Rightarrow> panicS ''nil pointer dereference''
       | Some addr \<Rightarrow> liftR (Shutdown N addr))"

text \<open>A start that fails leaves the server as it was; stopping one that never started panics.\<close>

lemma http_life:
  "http_Startup N h = (Ok (), h') \<Longrightarrow> http_Stop N h' = (Shutdown N (listenAddr h), h')"
  "Listen N (listenAddr h) = Err e \<Longrightarrow> http_Startup N h = (Err e, h)"
  "http_Stop N (NewHttpServer addr) = (Panic ''nil pointer dereference'', NewHttpServer addr)"
proof -
  show "http_Startup N h = (Ok (), h') \<Longrightarrow> http_Stop N h' = (Shutdown N (listenAddr h), h')"
    by (auto simp: http_Startup_def http_Stop_def bindS_eq_Ok getS_def modifyS_def liftR_def bindS_Ok)
  show "Listen N (listenAddr h) = Err e \<Longrightarrow> http_Startup N h = (Err e, h)"
    by (simp add: http_Startup_def bindS_def getS_def liftR_def)
  show "http_Stop N (NewHttpServer addr) = (Panic ''nil pointer dereference'', NewHttpServer addr)"
    by (simp add: http_Stop_def NewHttpServer_def bindS_def getS_def panicS_def)
qed

section \<open>Running them\<close>

lemma setHeaders_run: "\<exists>hs. forEach setHeader kvs w = (Ok (), w\<lparr>Headers := hs\<rparr>)"
proof (induction kvs arbitrary: w)
  case Nil
  show ?case by (auto simp: returnS_def intro: exI[of _ "Headers w"])
next
  case (Cons kv kvs)
  show ?case
    using Cons.IH[of "w\<lparr>Headers := mput (fst kv) (snd kv) (Headers w)\<rparr>"] by (simp add: go_simps setHeader_def)
qed

lemma RawResult_run:
  "\<not> Broken w \<Longrightarrow> Status w = None \<Longrightarrow>
    \<exists>hs. RawResult raw w = (Ok (), w\<lparr>Headers := hs, Status := Some 200, Written := Written w @ raw\<rparr>)"
  by (simp add: RawResult_def setHeader_def writeHeader_def writeBody_def go_simps modifyS_def) blast

end
