(* ===== verification/Dns_Http.thy ===== *)
theory Dns_Http
  imports Dns_Properties Http_Lib
begin

text \<open>
  DNS over HTTP (\<open>internal/dnscore/service.httpdns.go\<close>): the handler of \<open>/dns-query\<close> for GET and
  POST, with the base64 decoding of the standard library. Packing and unpacking of messages are
  functions of the DNS library and parameters here.
\<close>

section \<open>base64, URL alphabet, no padding\<close>

definition b64_value :: "char \<Rightarrow> nat option" where
  "b64_value c =
     (let n = (of_char c :: nat) in
      if 65 \<le> n \<and> n \<le> 90 then Some (n - 65)
      else if 97 \<le> n \<and> n \<le> 122 then Some (n - 71)
      else if 48 \<le> n \<and> n \<le> 57 then Some (n + 4)
      else if n = 45 then Some 62
      else if n = 95 then Some 63
      else None)"

fun b64_bytes :: "nat list \<Rightarrow> bytes res" where
  "b64_bytes [] = Ok []"
| "b64_bytes [a] = Err (LibError ''illegal base64 data'')"
| "b64_bytes [a, b] = Ok [of_nat (a * 4 + b div 16)]"
| "b64_bytes [a, b, c] = Ok [of_nat (a * 4 + b div 16), of_nat (b mod 16 * 16 + c div 4)]"
| "b64_bytes (a # b # c # d # r) =
     bindR (b64_bytes r) (\<lambda>bs.
       Ok (of_nat (a * 4 + b div 16) # of_nat (b mod 16 * 16 + c div 4) # of_nat (c mod 4 * 64 + d) # bs))"

text \<open>\<open>RawURLEncoding.DecodeString\<close>: line ends are skipped, the bits left over at the end are ignored.\<close>

definition DecodeString :: "string \<Rightarrow> bytes res" where
  "DecodeString s =
     (case those (map b64_value (filter (\<lambda>c. c \<noteq> CHR 0x0D \<and> c \<noteq> CHR 0x0A) s)) of
        None \<Rightarrow> Err (LibError ''illegal base64 data'')
      | Some xs \<Rightarrow> b64_bytes xs)"

text \<open>The encoder of a client (RFC 4648, section 5).\<close>

definition b64_char :: "nat \<Rightarrow> char" where
  "b64_char v = char_of (if v < 26 then v + 65 else if v < 52 then v + 71 else if v < 62 then v - 4
     else if v = 62 then 45 else 95)"

fun b64_sextets :: "nat list \<Rightarrow> nat list" where
  "b64_sextets [] = []"
| "b64_sextets [x] = [x div 4, x mod 4 * 16]"
| "b64_sextets [x, y] = [x div 4, x mod 4 * 16 + y div 16, y mod 16 * 4]"
| "b64_sextets (x # y # z # r) =
     x div 4 # (x mod 4 * 16 + y div 16) # (y mod 16 * 4 + z div 64) # (z mod 64) # b64_sextets r"

definition EncodeToString :: "bytes \<Rightarrow> string" where
  "EncodeToString bs = map b64_char (b64_sextets (map unat bs))"

lemma b64_value_char: "v < 64 \<Longrightarrow> b64_value (b64_char v) = Some v"
  by (auto simp: b64_value_def b64_char_def Let_def)

lemma b64_char_no_eol: "v < 64 \<Longrightarrow> b64_char v \<noteq> CHR 0x0D \<and> b64_char v \<noteq> CHR 0x0A"
  using b64_value_char[of v] by (auto simp: b64_value_def)

lemma b64_sextets_lt: "\<forall>x \<in> set xs. x < 256 \<Longrightarrow> \<forall>v \<in> set (b64_sextets xs). v < 64"
  by (induction xs rule: b64_sextets.induct) (auto simp: less_mult_imp_div_less)

lemma b64_bytes_sextets: "\<forall>x \<in> set xs. x < 256 \<Longrightarrow> b64_bytes (b64_sextets xs) = Ok (map of_nat xs)"
proof (induction xs rule: b64_sextets.induct)
  case (4 x y z r)
  have "x div 4 * 4 + (x mod 4 * 16 + y div 16) div 16 = x" using "4.prems" by (simp add: less_mult_imp_div_less)
  moreover have "(x mod 4 * 16 + y div 16) mod 16 * 16 + (y mod 16 * 4 + z div 64) div 4 = y"
    using "4.prems" by (simp add: less_mult_imp_div_less)
  moreover have "(y mod 16 * 4 + z div 64) mod 4 * 64 + z mod 64 = z" using "4.prems" by (simp add: less_mult_imp_div_less)
  ultimately show ?case using 4 by simp
qed (auto simp: less_mult_imp_div_less)

lemma those_map_Some: "\<forall>x \<in> set xs. f x = Some (g x) \<Longrightarrow> those (map f xs) = Some (map g xs)"
  by (induction xs) auto

lemma Decode_Encode: "DecodeString (EncodeToString bs) = Ok bs"
proof -
  let ?v = "b64_sextets (map unat bs)"
  have lt: "\<forall>x \<in> set (map unat bs). x < 256" using unsigned_less[where 'b = 8 and 'a = nat] by auto
  have v: "\<forall>v \<in> set ?v. v < 64" by (rule b64_sextets_lt[OF lt])
  have "filter (\<lambda>c. c \<noteq> CHR 0x0D \<and> c \<noteq> CHR 0x0A) (map b64_char ?v) = map b64_char ?v"
    using v b64_char_no_eol by (auto simp: filter_id_conv)
  moreover have "those (map b64_value (map b64_char ?v)) = Some ?v"
    using those_map_Some[of ?v "b64_value \<circ> b64_char" "\<lambda>x. x"] v b64_value_char by simp
  ultimately show ?thesis
    using b64_bytes_sextets[OF lt] by (simp add: DecodeString_def EncodeToString_def comp_def)
qed

section \<open>The handler\<close>

record DnsHttp =
  httpAddr :: string
  endpoint :: DnsEndpoint
  httpDebug :: bool

definition NewHttpDns :: "(string \<Rightarrow> (string \<times> string) res) \<Rightarrow> string \<Rightarrow> DnsEndpoint \<Rightarrow> bool \<Rightarrow> DnsHttp res" where
  "NewHttpDns urlParse addr ep debug =
     bindR (urlParse addr) (\<lambda>(scheme, host). Ok \<lparr>httpAddr = host, endpoint = ep, httpDebug = debug\<rparr>)"

text \<open>Parsing the form leaves a body of type \<open>application/dns-message\<close> unread.\<close>

type_synonym httpState = "(DnsMemCache \<times> trace) \<times> HttpResp"

definition DnsMessage :: string where
  "DnsMessage = ''application/dns-message''"

definition USER_AGENT :: string where
  "USER_AGENT = ''DNS-over-HTTPS/1.0 NekoQ-Bootstrap''"

definition responseType :: "HttpReq \<Rightarrow> string" where
  "responseType r =
     (let contentType = HeaderGet r ''Content-Type'' in
      if list_ex (\<lambda>candidate. takeWhile (\<lambda>c. c \<noteq> CHR '';'') candidate = DnsMessage) (split_on CHR '','' (HeaderGet r ''Accept''))
      then DnsMessage
      else if contentType = DnsMessage then DnsMessage else [])"

definition requestBinary :: "HttpReq \<Rightarrow> bytes res" where
  "requestBinary r =
     (if Method r = ''GET'' then DecodeString (FormValue r ''dns'')
      else if Method r = ''POST'' then Body r
      else Panic ''unsupported http method'')"

record wirelib =
  Unpack :: "bytes \<Rightarrow> Msg res"
  Pack :: "Msg \<Rightarrow> bytes res"

text \<open>From the unpacked message on.\<close>

definition answerQuery ::
  "dnslib \<Rightarrow> wirelib \<Rightarrow> int \<Rightarrow> int \<Rightarrow> string \<Rightarrow> resolver \<Rightarrow> DnsEndpoint \<Rightarrow> Msg \<Rightarrow> (httpState, unit) prog" where
  "answerQuery L W tGet tPut date storage ep msg =
     bindS (onFst (ProcessDnsMsg L tGet tPut storage ep msg)) (\<lambda>reply.
     bindS (onSnd (forEach setHeader
        [(''Content-Type'', DnsMessage), (''Date'', date), (''Last-Modified'', date), (''Vary'', ''Accept'')])) (\<lambda>_.
       case reply of
         None \<Rightarrow> onSnd (writeHeader 404)
       | Some reply \<Rightarrow>
           tryS (liftR (Pack W reply))
             (\<lambda>replyBin. tryS (onSnd (writeBody replyBin)) returnS (\<lambda>err. returnS ()))
             (\<lambda>err. onSnd (writeHeader 500))))"

definition dnsQuery ::
  "dnslib \<Rightarrow> wirelib \<Rightarrow> int \<Rightarrow> int \<Rightarrow> string \<Rightarrow> resolver \<Rightarrow> DnsHttp \<Rightarrow> HttpReq
     \<Rightarrow> (DnsMemCache \<times> HttpResp, string list) prog" where
  "dnsQuery L W tGet tPut date storage this r st =
     (case recoverS
        (bindS (onSnd (forEach setHeader
          [(''Access-Control-Allow-Headers'', ''Content-Type''), (''Access-Control-Allow-Methods'', ''GET, HEAD, OPTIONS, POST''),
           (''Access-Control-Allow-Origin'', ''*''), (''Access-Control-Max-Age'', ''3600''),
           (''Server'', USER_AGENT), (''X-Powered-By'', USER_AGENT)])) (\<lambda>_.
         if Method r = ''OPTIONS'' then onSnd (setHeader (''Content-Length'', ''0''))
         else if HeaderGet r ''Content-Type'' \<noteq> DnsMessage then onSnd (writeHeader 415)
         else if responseType r = [] then panicS ''Unknown response Content-Type''
         else
           tryS (liftR (requestBinary r))
             (\<lambda>reqBin.
               if length reqBin = 0 then onSnd (writeHeader 400)
               else tryS (liftR (Unpack W reqBin))
                 (\<lambda>msg. answerQuery L W tGet tPut date storage (endpoint this) msg)
                 (\<lambda>err. onSnd (writeHeader 400)))
             (\<lambda>err. onSnd (writeHeader 400))))
        (\<lambda>err. onFst (onSnd (AddTraceInfo (''error occurs:'' @ err))))
        ((fst st, NewRequestContext), snd st)
      of (out, ((cache, traceInfos), w)) \<Rightarrow>
        (bindR out (\<lambda>_. Ok (if httpDebug this then [''Domain resolve info:'' @ GetTraceInfoString traceInfos] else [])),
         (cache, w)))"

section \<open>Properties\<close>

text \<open>A request for a DNS message depends on its method and headers only through the bytes it carries.\<close>

lemma dnsQuery_same:
  assumes "HeaderGet r ''Content-Type'' = DnsMessage" "HeaderGet r' ''Content-Type'' = DnsMessage"
    and "Method r \<noteq> ''OPTIONS''" "Method r' \<noteq> ''OPTIONS''" "requestBinary r = requestBinary r'"
  shows "dnsQuery L W tGet tPut date storage this r st = dnsQuery L W tGet tPut date storage this r' st"
proof -
  have "responseType r = DnsMessage" "responseType r' = DnsMessage" using assms(1,2) by (simp_all add: responseType_def)
  then show ?thesis
    unfolding dnsQuery_def using assms by (simp only: if_False assms simp_thms)
qed

text \<open>What a processed message leaves behind over UDP and over HTTP.\<close>

definition packed :: "wirelib \<Rightarrow> Msg option res \<Rightarrow> bytes" where
  "packed W out = (case out of Ok (Some reply) \<Rightarrow> (case Pack W reply of Ok b \<Rightarrow> b | _ \<Rightarrow> []) | _ \<Rightarrow> [])"

definition http_status :: "wirelib \<Rightarrow> Msg option res \<Rightarrow> nat option" where
  "http_status W out =
     (case out of
        Ok None \<Rightarrow> Some 404
      | Ok (Some reply) \<Rightarrow> (case Pack W reply of Ok b \<Rightarrow> Some 200 | Err e \<Rightarrow> Some 500 | _ \<Rightarrow> None)
      | _ \<Rightarrow> None)"

lemma ServeDNS_processed:
  assumes "ProcessDnsMsg L tGet tPut storage d m (c, []) = (out, (c', t'))"
  shows "snd (ServeDNS L tGet tPut storage written d m (c, sent)) =
    (c', case out of Ok (Some reply) \<Rightarrow> sent @ [reply] | _ \<Rightarrow> sent)"
  using assms by (cases out)
    (auto simp: ServeDNS_def recoverS_def bindS_def onFst_run onSnd_run go_simps returnS_def modifyS_def AddTraceInfo_run
      split: option.splits)

lemma answerQuery_processed:
  assumes "ProcessDnsMsg L tGet tPut storage d m (c, t) = (out, (c', t'))" "Status w = None" "\<not> Broken w"
  shows "\<exists>o2 hs. answerQuery L W tGet tPut date storage d m ((c, t), w) =
    (o2, ((c', t'), w\<lparr>Headers := hs, Status := http_status W out, Written := Written w @ packed W out\<rparr>))"
proof -
  obtain hs where hs: "forEach setHeader
        [(''Content-Type'', DnsMessage), (''Date'', date), (''Last-Modified'', date), (''Vary'', ''Accept'')] w
      = (Ok (), w\<lparr>Headers := hs\<rparr>)" using setHeaders_run by blast
  have w: "w = w\<lparr>Headers := Headers w, Status := None, Written := Written w\<rparr>" using assms(2) by simp
  show ?thesis
  proof (cases out)
    case (Ok reply)
    then have run: "answerQuery L W tGet tPut date storage d m ((c, t), w) =
        (case reply of None \<Rightarrow> onSnd (writeHeader 404)
         | Some reply \<Rightarrow> tryS (liftR (Pack W reply))
             (\<lambda>replyBin. tryS (onSnd (writeBody replyBin)) returnS (\<lambda>err. returnS ()))
             (\<lambda>err. onSnd (writeHeader 500))) ((c', t'), w\<lparr>Headers := hs\<rparr>)"
      using assms(1) hs by (simp only: answerQuery_def bindS_def onFst_run onSnd_run fst_conv snd_conv prod.case res.case)
    show ?thesis
    proof (cases reply)
      case None
      then show ?thesis unfolding run using Ok assms(2)
        by (auto simp: writeHeader_def onSnd_run modifyS_def http_status_def packed_def intro!: exI[of _ hs])
    next
      case (Some rp)
      then show ?thesis unfolding run using Ok assms(2,3)
        by (cases "Pack W rp")
          (auto simp: tryS_def liftR_def writeHeader_def writeBody_def onSnd_run modifyS_def http_status_def packed_def go_simps returnS_def
            intro!: exI[of _ hs])
    qed
  qed (use assms(1) w in \<open>auto simp: answerQuery_def bindS_def onFst_run http_status_def packed_def intro!: exI[of _ "Headers w"]\<close>)
qed

lemma dnsQuery_processed:
  assumes "HeaderGet r ''Content-Type'' = DnsMessage" "Method r \<noteq> ''OPTIONS''"
    and "requestBinary r = Ok bin" "bin \<noteq> []" "Unpack W bin = Ok m"
    and "ProcessDnsMsg L tGet tPut storage (endpoint this) m (c, []) = (out, (c', t'))"
  shows "\<exists>hs. snd (dnsQuery L W tGet tPut date storage this r (c, newResp)) =
    (c', \<lparr>Headers = hs, Status = http_status W out, Written = packed W out, Broken = False\<rparr>)"
proof -
  let ?hdrs = "[(''Access-Control-Allow-Headers'', ''Content-Type''), (''Access-Control-Allow-Methods'', ''GET, HEAD, OPTIONS, POST''),
           (''Access-Control-Allow-Origin'', ''*''), (''Access-Control-Max-Age'', ''3600''),
           (''Server'', USER_AGENT), (''X-Powered-By'', USER_AGENT)]"
  obtain hs where "forEach setHeader ?hdrs newResp = (Ok (), newResp\<lparr>Headers := hs\<rparr>)"
    using setHeaders_run by blast
  then have hs: "onSnd (forEach setHeader ?hdrs) ((c, []), newResp) = (Ok (), ((c, []), newResp\<lparr>Headers := hs\<rparr>))"
    by (simp only: onSnd_run fst_conv snd_conv)
  obtain o2 hs2 where a: "answerQuery L W tGet tPut date storage (endpoint this) m ((c, []), newResp\<lparr>Headers := hs\<rparr>) =
      (o2, ((c', t'), \<lparr>Headers = hs2, Status = http_status W out, Written = packed W out, Broken = False\<rparr>))"
    using answerQuery_processed[OF assms(6), of "newResp\<lparr>Headers := hs\<rparr>" W date] by (auto simp: newResp_def)
  have ty: "responseType r \<noteq> []" using assms(1) by (simp add: responseType_def DnsMessage_def)
  show ?thesis
    unfolding dnsQuery_def NewRequestContext_def fst_conv snd_conv recoverS_def bindS_Ok[where m = "onSnd (forEach setHeader ?hdrs)", OF hs] tryS_liftR
    using assms(1,2,4) ty a by (cases o2) (simp_all add: assms(3,5) tryS_liftR onFst_run onSnd_run AddTraceInfo_run)
qed

text \<open>
  C14: a query means the same over every transport. A message sent in the URL of a GET request or
  in the body of a POST request gets the same response, leaves the cache as the same message over
  UDP does, and its body is the packed reply that is sent over UDP; a message without a reply gets
  an empty body.
\<close>

theorem doh_equals_udp:
  assumes "HeaderGet rg ''Content-Type'' = DnsMessage" "HeaderGet rp ''Content-Type'' = DnsMessage"
    and "Method rg = ''GET''" "FormValue rg ''dns'' = EncodeToString bin" "Method rp = ''POST''" "Body rp = Ok bin"
    and "bin \<noteq> []" "Unpack W bin = Ok m"
  shows "dnsQuery L W tGet tPut date storage this rg (c, newResp) = dnsQuery L W tGet tPut date storage this rp (c, newResp)
    \<and> (let udp = snd (ServeDNS L tGet tPut storage written (endpoint this) m (c, []));
            http = snd (dnsQuery L W tGet tPut date storage this rp (c, newResp))
       in fst http = fst udp
        \<and> Written (snd http) = concat (map (\<lambda>reply. case Pack W reply of Ok b \<Rightarrow> b | _ \<Rightarrow> []) (snd udp)))"
proof
  have b: "requestBinary rg = Ok bin" "requestBinary rp = Ok bin"
    using assms(3-6) by (simp_all add: requestBinary_def Decode_Encode)
  show "dnsQuery L W tGet tPut date storage this rg (c, newResp) = dnsQuery L W tGet tPut date storage this rp (c, newResp)"
    by (rule dnsQuery_same[OF assms(1,2)]) (use assms(3,5) b in simp_all)
  obtain out c' t' where p: "ProcessDnsMsg L tGet tPut storage (endpoint this) m (c, []) = (out, (c', t'))" by (metis surj_pair)
  have "Method rp \<noteq> ''OPTIONS''" using assms(5) by simp
  from dnsQuery_processed[OF assms(2) this b(2) assms(7,8) p, of date] ServeDNS_processed[OF p, of "[]"]
  show "let udp = snd (ServeDNS L tGet tPut storage written (endpoint this) m (c, []));
            http = snd (dnsQuery L W tGet tPut date storage this rp (c, newResp))
       in fst http = fst udp
        \<and> Written (snd http) = concat (map (\<lambda>reply. case Pack W reply of Ok b \<Rightarrow> b | _ \<Rightarrow> []) (snd udp))"
    by (auto simp: Let_def packed_def split: res.splits option.splits)
qed

text \<open>A wire format with one message, to run the model on.\<close>

definition sampleWire :: wirelib where
  "sampleWire = \<lparr>Unpack = (\<lambda>b. Ok (sampleQuestion ''DB.lan.'')), Pack = (\<lambda>m. Ok [of_nat (length (Answer m)), 1])\<rparr>"

definition sampleHttp :: DnsHttp where
  "sampleHttp = \<lparr>httpAddr = '':8080'', endpoint = sampleEndpoint (\<lambda>m a. Ok sampleAnswer), httpDebug = False\<rparr>"

definition sampleReq :: "string \<Rightarrow> HttpReq" where
  "sampleReq meth = \<lparr>Method = meth, HeaderGet = (\<lambda>_. DnsMessage), FormValue = (\<lambda>_. EncodeToString [1, 2]), Body = Ok [1, 2]\<rparr>"

theorem doh_equals_udp_witness:
  "dnsQuery plain_dns sampleWire 5 5 ''now'' (ResolveDomain [] sampleStore) sampleHttp (sampleReq ''GET'') ([], newResp)
   = dnsQuery plain_dns sampleWire 5 5 ''now'' (ResolveDomain [] sampleStore) sampleHttp (sampleReq ''POST'') ([], newResp)"
  using doh_equals_udp[of "sampleReq ''GET''" "sampleReq ''POST''" "[1, 2]" sampleWire "sampleQuestion ''DB.lan.''"]
  by (simp add: sampleReq_def sampleWire_def)

end
