(* ===== verification/Mem_Store_Props.thy ===== *)
theory Mem_Store_Props
  imports Mem_Store
begin

text \<open>
  The store refines a simple specification: a map from pairs of a service and a node to an
  address for each part of the state, with \<open>++\<close> for merging and \<open>delta\<close> for the changes a peer has
  yet to fetch. The contract between a source and the peer that copies it is a locale.
\<close>

section \<open>Abstraction\<close>

type_synonym registry = "string \<times> string \<Rightarrow> string option"

definition abs_svc :: "svc_map \<Rightarrow> registry" where
  "abs_svc sm sn = (case mget sm (fst sn) of None \<Rightarrow> None | Some p \<Rightarrow> mget p (snd sn))"

definition abs_recv :: "recv_map \<Rightarrow> registry" where
  "abs_recv rm = abs_svc (range_of rm)"

definition svc_wf :: "svc_map \<Rightarrow> bool" where
  "svc_wf sm \<longleftrightarrow> mwf sm \<and> (\<forall>p \<in> set (map snd sm). mwf p)"

definition received :: "MemStore \<Rightarrow> string \<Rightarrow> registry option" where
  "received m node = map_option (\<lambda>nd. abs_recv (ServiceMapping nd)) (mget (dataFrom m) node)"

definition mem_wf :: "MemStore \<Rightarrow> bool" where
  "mem_wf m \<longleftrightarrow> svc_wf (services m) \<and> svc_wf (currentServices m) \<and> mwf (dataFrom m)
     \<and> (\<forall>nd \<in> set (map snd (dataFrom m)). svc_wf (range_of (ServiceMapping nd)))"

lemma mem_wfD:
  assumes "mem_wf m"
  shows "svc_wf (services m)" "svc_wf (currentServices m)" "mwf (dataFrom m)"
    and "mget (dataFrom m) node = Some nd \<Longrightarrow> svc_wf (range_of (ServiceMapping nd))"
  using assms by (auto simp: mem_wf_def dest!: map_of_SomeD)

lemma values_mput: "set (map snd (mput k v m)) \<subseteq> insert v (set (map snd m))"
  by (induction m) auto

lemma values_mdel: "set (map snd (mdel k m)) \<subseteq> set (map snd m)"
  by (induction m) auto

lemma svc_wfD: "svc_wf sm \<Longrightarrow> mget sm s = Some p \<Longrightarrow> mwf p"
  by (force simp: svc_wf_def dest: map_of_SomeD)

lemma svc_wf_Nil [simp]: "svc_wf []"
  by (simp add: svc_wf_def)

lemma svc_wf_mput: "svc_wf sm \<Longrightarrow> mwf p \<Longrightarrow> svc_wf (mput s p sm)"
  using values_mput[of s p sm] unfolding svc_wf_def by (auto simp del: set_map)

lemma svc_wf_mdel: "svc_wf sm \<Longrightarrow> svc_wf (mdel s sm)"
  using values_mdel[of s sm] unfolding svc_wf_def by (auto simp del: set_map)

lemma abs_mput: "abs_svc (mput s p sm) = (\<lambda>sn. if fst sn = s then mget p (snd sn) else abs_svc sm sn)"
  by (auto simp: abs_svc_def fun_eq_iff)

lemma abs_mdel: "abs_svc (mdel s sm) = (\<lambda>sn. if fst sn = s then None else abs_svc sm sn)"
  by (auto simp: abs_svc_def fun_eq_iff)

section \<open>Operations on the registry\<close>

lemma put_service_abs: "abs_svc (put_service s item sm) = (abs_svc sm)((s, NodeId item) \<mapsto> Addr item)"
  by (auto simp: put_service_def Let_def abs_mput fun_eq_iff split: option.splits)
    (auto simp: abs_svc_def)

lemma put_service_wf: "svc_wf sm \<Longrightarrow> svc_wf (put_service s item sm)"
  by (auto simp: put_service_def Let_def intro!: svc_wf_mput split: option.splits dest: svc_wfD)

lemma del_service_abs: "abs_svc (del_service s item sm) = (abs_svc sm)((s, NodeId item) := None)"
proof (cases "mget sm s")
  case None
  then show ?thesis by (auto simp: del_service_def abs_svc_def fun_eq_iff)
next
  case (Some p)
  show ?thesis
  proof (cases "mdel (NodeId item) p = []")
    case True
    then have "\<forall>n. n \<noteq> NodeId item \<longrightarrow> mget p n = None" by (simp add: mdel_Nil_iff)
    then show ?thesis using Some True by (auto simp: del_service_def abs_mdel abs_svc_def fun_eq_iff)
  next
    case False
    then show ?thesis using Some by (auto simp: del_service_def abs_mput abs_svc_def fun_eq_iff)
  qed
qed

lemma del_service_wf: "svc_wf sm \<Longrightarrow> svc_wf (del_service s item sm)"
  by (auto simp: del_service_def Let_def intro!: svc_wf_mput svc_wf_mdel mwf_mdel split: option.splits dest: svc_wfD)

section \<open>Merging\<close>

lemma foldl_mput: "mwf v \<Longrightarrow> map_of (foldl (\<lambda>sub (i, j). mput i j sub) sub v) = map_of sub ++ map_of v"
proof (induction v arbitrary: sub)
  case (Cons x v)
  obtain i j where x: "x = (i, j)" by fastforce
  have "map_of (mput i j sub) ++ map_of v = map_of sub ++ map_of (x # v)"
  proof -
    have "mget v i = None" using Cons.prems x by (simp add: map_of_eq_None_iff)
    then show ?thesis by (auto simp: x fun_eq_iff map_add_def split: option.splits)
  qed
  moreover have "mwf v" using Cons.prems by simp
  ultimately show ?case using Cons.IH[of "mput i j sub"] by (simp only: x foldl_Cons prod.case)
qed simp

lemma foldl_mput_wf: "mwf sub \<Longrightarrow> mwf (foldl (\<lambda>sub (i, j). mput i j sub) sub v)"
  by (induction v arbitrary: sub) auto

lemma copyMap_props:
  "svc_wf src \<Longrightarrow> abs_svc (copyMap src dst) = abs_svc dst ++ abs_svc src"
  "svc_wf dst \<Longrightarrow> svc_wf (copyMap src dst)"
proof -
  show "svc_wf src \<Longrightarrow> abs_svc (copyMap src dst) = abs_svc dst ++ abs_svc src"
  proof (induction src arbitrary: dst)
    case Nil
    then show ?case by (simp add: copyMap_def abs_svc_def fun_eq_iff map_add_def)
  next
    case (Cons x src)
    obtain k v where x: "x = (k, v)" by fastforce
    define sub where "sub = (case mget dst k of None \<Rightarrow> [] | Some sub \<Rightarrow> sub)"
    define dst' where "dst' = mput k (foldl (\<lambda>sub (i, j). mput i j sub) sub v) dst"
    have v: "mwf v" "k \<notin> fst ` set src" "svc_wf src" using Cons.prems x by (auto simp: svc_wf_def)
    then have new: "abs_svc src (k, n) = None" for n
      by (metis abs_svc_def fst_conv map_of_eq_None_iff option.simps(4))
    have "copyMap (x # src) dst = copyMap src dst'"
      by (simp add: copyMap_def x dst'_def sub_def Let_def)
    then have "abs_svc (copyMap (x # src) dst) = abs_svc dst' ++ abs_svc src"
      using Cons.IH[OF v(3)] by simp
    moreover have "(abs_svc dst' ++ abs_svc src) sn = (abs_svc dst ++ abs_svc (x # src)) sn" for sn
    proof (cases "fst sn = k")
      case True
      then have "sn = (k, snd sn)" by (metis prod.collapse)
      then have "abs_svc src sn = None" using new by metis
      then have "(abs_svc dst' ++ abs_svc src) sn = (map_of sub ++ map_of v) (snd sn)"
        using True v(1) by (simp add: map_add_def dst'_def abs_mput foldl_mput)
      also have "\<dots> = (abs_svc dst ++ abs_svc (x # src)) sn"
        using True by (auto simp: map_add_def sub_def x abs_svc_def split: option.splits)
      finally show ?thesis .
    next
      case False
      then show ?thesis by (simp add: map_add_def dst'_def abs_mput x abs_svc_def)
    qed
    ultimately show ?case by (simp add: fun_eq_iff)
  qed
  show "svc_wf dst \<Longrightarrow> svc_wf (copyMap src dst)"
  proof (induction src arbitrary: dst)
    case (Cons x src)
    obtain k v where x: "x = (k, v)" by fastforce
    have "mwf (case mget dst k of None \<Rightarrow> [] | Some sub \<Rightarrow> sub)"
      using svc_wfD[OF Cons.prems] by (auto split: option.splits)
    then have "svc_wf (mput k (foldl (\<lambda>sub (i, j). mput i j sub)
        (case mget dst k of None \<Rightarrow> [] | Some sub \<Rightarrow> sub) v) dst)"
      using Cons.prems by (intro svc_wf_mput foldl_mput_wf)
    then show ?case using Cons.IH by (simp add: copyMap_def x Let_def)
  qed (simp add: copyMap_def)
qed

text \<open>What the store serves: its own entries, overridden by those of the peers, in some order.\<close>

definition merged :: "MemStore \<Rightarrow> registry" where
  "merged m = foldl (\<lambda>r (node, nd). r ++ abs_recv (ServiceMapping nd)) (abs_svc (currentServices m)) (dataFrom m)"

lemma buildMemData_run:
  "buildMemData m = (Ok (), m\<lparr>services := services (snd (buildMemData m))\<rparr>)"
  by (simp add: buildMemData_def modifyS_def)

lemma buildMemData_merged:
  assumes "mem_wf m"
  shows "abs_svc (services (snd (buildMemData m))) = merged m" "mem_wf (snd (buildMemData m))"
proof -
  let ?f = "\<lambda>newServiceMap (node, v). copyMap (range_of (ServiceMapping v)) newServiceMap"
  have "abs_svc (foldl ?f sm l) = foldl (\<lambda>r (node, nd). r ++ abs_recv (ServiceMapping nd)) (abs_svc sm) l"
    if "\<forall>nd \<in> set (map snd l). svc_wf (range_of (ServiceMapping nd))" for sm and l :: "(string \<times> memNodeData) list"
    using that by (induction l arbitrary: sm) (auto simp: copyMap_props abs_recv_def)
  moreover have "abs_svc (copyMap (currentServices m) []) = abs_svc (currentServices m)"
    using mem_wfD(2)[OF assms] by (auto simp: copyMap_props abs_svc_def map_add_def fun_eq_iff split: option.splits)
  ultimately show "abs_svc (services (snd (buildMemData m))) = merged m"
    using assms by (simp add: buildMemData_def modifyS_def merged_def mem_wf_def)
  have "svc_wf (foldl ?f sm l)" if "svc_wf sm" for sm and l :: "(string \<times> memNodeData) list"
    using that by (induction l arbitrary: sm) (auto simp: copyMap_props)
  moreover have "svc_wf (copyMap (currentServices m) [])" by (simp add: copyMap_props)
  ultimately show "mem_wf (snd (buildMemData m))"
    using assms by (simp add: buildMemData_def modifyS_def mem_wf_def)
qed

section \<open>Changes for a peer\<close>

definition svc_key :: "dataTransferNodeData \<Rightarrow> string \<times> string" where
  "svc_key v = (ServiceName v, NodeName v)"

text \<open>What a peer does with the changes: the deletions, then the additions in their order.\<close>

definition delta :: "pending \<Rightarrow> registry \<Rightarrow> registry" where
  "delta c r = r |` (- svc_key ` set (Del c)) ++ map_of (rev (map (\<lambda>v. (svc_key v, InfoAddr v)) (Add c)))"

definition no_changes :: pending where
  "no_changes = \<lparr>Add = [], Del = []\<rparr>"

definition note_put :: "string \<Rightarrow> ServiceItem \<Rightarrow> pending \<Rightarrow> pending" where
  "note_put s item v = v\<lparr>Del := rebuildServiceItemList (Del v) s item, Add := Add v @ [transfer s item]\<rparr>"

definition note_del :: "string \<Rightarrow> ServiceItem \<Rightarrow> pending \<Rightarrow> pending" where
  "note_del s item v = v\<lparr>Del := Del v @ [transfer s item], Add := rebuildServiceItemList (Add v) s item\<rparr>"

lemma delta_no_changes [simp]: "delta no_changes r = r"
  by (auto simp: delta_def no_changes_def restrict_map_def)

lemma svc_key_transfer [simp]: "svc_key (transfer s item) = (s, NodeId item)" "InfoAddr (transfer s item) = Addr item"
  by (simp_all add: svc_key_def transfer_def)

lemma rebuild_eq: "rebuildServiceItemList l s item = filter (\<lambda>v. svc_key v \<noteq> (s, NodeId item)) l"
  by (simp add: rebuildServiceItemList_def svc_key_def)

lemma map_of_filter_key:
  "map_of (rev (map (\<lambda>v. (svc_key v, InfoAddr v)) (filter (\<lambda>v. svc_key v \<noteq> k) l)))
   = (map_of (rev (map (\<lambda>v. (svc_key v, InfoAddr v)) l)))(k := None)"
  by (induction l rule: rev_induct) (auto simp: fun_eq_iff)

lemma delta_note_put: "delta (note_put s item c) r = (delta c r)((s, NodeId item) \<mapsto> Addr item)"
  by (auto simp: delta_def note_put_def rebuild_eq fun_eq_iff map_add_def restrict_map_def
      split: option.splits)

lemma delta_note_del: "delta (note_del s item c) r = (delta c r)((s, NodeId item) := None)"
  by (auto simp: delta_def note_del_def rebuild_eq map_of_filter_key fun_eq_iff map_add_def restrict_map_def
      split: option.splits)

lemma delta_idem: "delta c (delta c r) = delta c r"
  by (auto simp: delta_def fun_eq_iff map_add_def restrict_map_def split: option.splits)

text \<open>Every list of pending changes is already part of the node's own data.\<close>

definition pending_ok :: "MemStore \<Rightarrow> bool" where
  "pending_ok m \<longleftrightarrow> mwf (dataTo m)
     \<and> (\<forall>node c. mget (dataTo m) node = Some c \<longrightarrow> delta c (abs_svc (currentServices m)) = abs_svc (currentServices m))"

lemma mget_map_values: "mget (map (\<lambda>(k, v). (k, f v)) m) k = map_option f (mget m k)"
  by (induction m) auto

lemma mkeys_map_values: "mkeys (map (\<lambda>(k, v). (k, f v)) m) = mkeys m"
  by (induction m) auto

lemma PublishService_run:
  "PublishService s item m = (Ok (), m\<lparr>services := put_service s item (services m),
     currentServices := put_service s item (currentServices m),
     dataTo := map (\<lambda>(node, v). (node, note_put s item v)) (dataTo m)\<rparr>)"
  by (simp add: PublishService_def run_simps note_put_def)

lemma DeleteService_run:
  "DeleteService s item m = (Ok (), m\<lparr>services := del_service s item (services m),
     currentServices := del_service s item (currentServices m),
     dataTo := map (\<lambda>(node, v). (node, note_del s item v)) (dataTo m)\<rparr>)"
  by (simp add: DeleteService_def run_simps note_del_def)

section \<open>Receiving\<close>

text \<open>A mapping without nil maps, as every store sends it.\<close>

definition recv_ok :: "recv_map \<Rightarrow> bool" where
  "recv_ok rm \<longleftrightarrow> (\<exists>sm. rm = Some (map (\<lambda>(k, v). (k, Some v)) sm) \<and> svc_wf sm)"

lemma range_of_Some: "range_of (Some (map (\<lambda>(k, v). (k, Some v)) sm)) = sm"
  by (induction sm) (auto simp: range_of_def)

lemma recv_okE:
  assumes "recv_ok rm"
  obtains sm where "rm = Some (map (\<lambda>(k, v). (k, Some v)) sm)" "svc_wf sm" "range_of rm = sm"
  using assms range_of_Some by (auto simp: recv_ok_def)

lemma map_Some_mput: "mput k (Some v) (map (\<lambda>(k, v). (k, Some v)) sm) = map (\<lambda>(k, v). (k, Some v)) (mput k v sm)"
  by (induction sm) auto

lemma map_Some_mdel: "mdel k (map (\<lambda>(k, v). (k, Some v)) sm) = map (\<lambda>(k, v). (k, Some v)) (mdel k sm)"
  by (induction sm) auto

lemma syncDel_run:
  assumes "recv_ok rm"
  shows "\<exists>rm'. syncDel (Some v) rm = (Ok (), rm') \<and> recv_ok rm' \<and> abs_recv rm' = (abs_recv rm)(svc_key v := None)"
proof -
  obtain sm where sm: "rm = Some (map (\<lambda>(k, v). (k, Some v)) sm)" "svc_wf sm" "range_of rm = sm"
    using assms by (rule recv_okE)
  let ?item = "\<lparr>Addr = [], NodeId = NodeName v\<rparr>"
  have "syncDel (Some v) rm = (Ok (), Some (map (\<lambda>(k, v). (k, Some v)) (del_service (ServiceName v) ?item sm)))"
    by (simp add: syncDel_def sm(1) mget_map_values del_service_def map_Some_mput map_Some_mdel Let_def
        split: option.splits)
  then show ?thesis
    using sm del_service_wf[OF sm(2)] del_service_abs[of "ServiceName v" ?item sm]
    by (auto simp: recv_ok_def abs_recv_def range_of_Some svc_key_def)
qed

lemma syncAdd_run:
  assumes "recv_ok rm"
  shows "\<exists>rm'. syncAdd (Some v) rm = (Ok (), rm') \<and> recv_ok rm' \<and> abs_recv rm' = (abs_recv rm)(svc_key v \<mapsto> InfoAddr v)"
proof -
  obtain sm where sm: "rm = Some (map (\<lambda>(k, v). (k, Some v)) sm)" "svc_wf sm" "range_of rm = sm"
    using assms by (rule recv_okE)
  let ?item = "\<lparr>Addr = InfoAddr v, NodeId = NodeName v\<rparr>"
  have "syncAdd (Some v) rm = (Ok (), Some (map (\<lambda>(k, v). (k, Some v)) (put_service (ServiceName v) ?item sm)))"
    by (simp add: syncAdd_def sm(1) mget_map_values put_service_def map_Some_mput Let_def split: option.splits)
  then show ?thesis
    using sm put_service_wf[OF sm(2)] put_service_abs[of "ServiceName v" ?item sm]
    by (auto simp: recv_ok_def abs_recv_def range_of_Some svc_key_def)
qed

lemma syncDels_run:
  "recv_ok rm \<Longrightarrow> \<exists>rm'. forEach syncDel (map Some l) rm = (Ok (), rm') \<and> recv_ok rm'
    \<and> abs_recv rm' = abs_recv rm |` (- svc_key ` set l)"
proof (induction l arbitrary: rm)
  case Nil
  then show ?case by (auto simp: returnS_def restrict_map_def)
next
  case (Cons v l)
  obtain rm1 where 1: "syncDel (Some v) rm = (Ok (), rm1)" "recv_ok rm1" "abs_recv rm1 = (abs_recv rm)(svc_key v := None)"
    using syncDel_run[OF Cons.prems] by blast
  obtain rm2 where "forEach syncDel (map Some l) rm1 = (Ok (), rm2)" "recv_ok rm2"
    "abs_recv rm2 = abs_recv rm1 |` (- svc_key ` set l)" using Cons.IH[OF 1(2)] by blast
  then show ?case using 1 by (auto simp: bindS_def restrict_map_def fun_eq_iff)
qed

lemma syncAdds_run:
  "recv_ok rm \<Longrightarrow> \<exists>rm'. forEach syncAdd (map Some l) rm = (Ok (), rm') \<and> recv_ok rm'
    \<and> abs_recv rm' = abs_recv rm ++ map_of (rev (map (\<lambda>v. (svc_key v, InfoAddr v)) l))"
proof (induction l arbitrary: rm)
  case Nil
  then show ?case by (auto simp: returnS_def)
next
  case (Cons v l)
  obtain rm1 where 1: "syncAdd (Some v) rm = (Ok (), rm1)" "recv_ok rm1" "abs_recv rm1 = (abs_recv rm)(svc_key v \<mapsto> InfoAddr v)"
    using syncAdd_run[OF Cons.prems] by blast
  obtain rm2 where "forEach syncAdd (map Some l) rm1 = (Ok (), rm2)" "recv_ok rm2"
    "abs_recv rm2 = abs_recv rm1 ++ map_of (rev (map (\<lambda>v. (svc_key v, InfoAddr v)) l))" using Cons.IH[OF 1(2)] by blast
  then show ?case using 1 by (auto simp: bindS_def map_add_def fun_eq_iff split: option.splits)
qed

lemma decode_marshalList: "dataTransferNodeDataList (marshalList l) = Ok (map Some l)"
  by (simp add: dataTransferNodeDataList_def marshalList_def)

lemma mem_wf_dataFrom:
  "mem_wf m \<Longrightarrow> svc_wf (range_of (ServiceMapping nd)) \<Longrightarrow> mem_wf (m\<lparr>dataFrom := mput node nd (dataFrom m)\<rparr>)"
  using values_mput[of node nd "dataFrom m"] unfolding mem_wf_def by (auto simp del: set_map)

text \<open>The effect of the two ways to receive, on what the store holds of the peer and on what it serves.\<close>

definition received_step :: "string \<Rightarrow> registry \<Rightarrow> MemStore \<Rightarrow> MemStore \<Rightarrow> bool" where
  "received_step node r m m' \<longleftrightarrow> mem_wf m' \<and> received m' node = Some r
     \<and> (\<forall>n. n \<noteq> node \<longrightarrow> received m' n = received m n) \<and> abs_svc (services m') = merged m'
     \<and> currentServices m' = currentServices m \<and> dataTo m' = dataTo m
     \<and> staticDomainMapping m' = staticDomainMapping m"

lemma store_received:
  assumes m: "mem_wf m" and w: "svc_wf (range_of (ServiceMapping nd))"
    and m': "m' = snd (buildMemData (m\<lparr>dataFrom := mput node nd (dataFrom m)\<rparr>))"
  shows "received_step node (abs_recv (ServiceMapping nd)) m m'"
proof -
  let ?m1 = "m\<lparr>dataFrom := mput node nd (dataFrom m)\<rparr>"
  have wf: "mem_wf ?m1" by (rule mem_wf_dataFrom[OF m w])
  have frame: "dataFrom m' = dataFrom ?m1" "currentServices m' = currentServices m" "dataTo m' = dataTo m"
    "staticDomainMapping m' = staticDomainMapping m"
    unfolding m' by (simp_all add: buildMemData_def modifyS_def)
  moreover have "merged m' = merged ?m1" using frame by (simp add: merged_def)
  ultimately show ?thesis
    using buildMemData_merged[OF wf] by (simp add: received_step_def m' received_def)
qed

lemma FullFrom_run:
  assumes "mem_wf m" "svc_wf sm"
  shows "\<exists>m'. FullFrom node [(DefaultDataKey, marshalNode sm)] m = (Ok (), m')
    \<and> received_step node (abs_svc sm) m m'
    \<and> (\<exists>nd. mget (dataFrom m') node = Some nd \<and> recv_ok (ServiceMapping nd))"
proof -
  let ?nd = "\<lparr>ServiceMapping = Some (map (\<lambda>(k, v). (k, Some v)) sm)\<rparr>"
  define m' where "m' = snd (buildMemData (m\<lparr>dataFrom := mput node ?nd (dataFrom m)\<rparr>))"
  have "FullFrom node [(DefaultDataKey, marshalNode sm)] m = (Ok (), m')"
    by (simp add: FullFrom_def marshalNode_def memNodeDataUnmarshall_def run_simps m'_def buildMemData_def)
  moreover have "received_step node (abs_svc sm) m m'"
    using store_received[OF assms(1), of ?nd m' node] assms(2) m'_def by (simp add: range_of_Some abs_recv_def)
  moreover have "mget (dataFrom m') node = Some ?nd" by (simp add: m'_def buildMemData_def modifyS_def)
  moreover have "recv_ok (ServiceMapping ?nd)" using assms(2) by (auto simp: recv_ok_def)
  ultimately show ?thesis by metis
qed

lemma SyncFrom_run:
  assumes "mem_wf m" "mget (dataFrom m) node = Some nd" "recv_ok (ServiceMapping nd)"
  shows "\<exists>m'. SyncFrom node node [(DefaultDataKey, marshalList (Add c))] [(DefaultDataKey, marshalList (Del c))] m = (Ok (), m')
    \<and> received_step node (delta c (abs_recv (ServiceMapping nd))) m m'
    \<and> (\<exists>nd. mget (dataFrom m') node = Some nd \<and> recv_ok (ServiceMapping nd))"
proof -
  obtain r1 where r1: "forEach syncDel (map Some (Del c)) (ServiceMapping nd) = (Ok (), r1)" "recv_ok r1"
    "abs_recv r1 = abs_recv (ServiceMapping nd) |` (- svc_key ` set (Del c))" using syncDels_run[OF assms(3)] by blast
  obtain r2 where r2: "forEach syncAdd (map Some (Add c)) r1 = (Ok (), r2)" "recv_ok r2"
    "abs_recv r2 = abs_recv r1 ++ map_of (rev (map (\<lambda>v. (svc_key v, InfoAddr v)) (Add c)))" using syncAdds_run[OF r1(2)] by blast
  let ?nd = "nd\<lparr>ServiceMapping := r2\<rparr>"
  define m' where "m' = snd (buildMemData (m\<lparr>dataFrom := mput node ?nd (dataFrom m)\<rparr>))"
  have "SyncFrom node node [(DefaultDataKey, marshalList (Add c))] [(DefaultDataKey, marshalList (Del c))] m = (Ok (), m')"
    using r1(1) r2(1) assms(2)
    by (simp add: SyncFrom_def decode_marshalList go_simps onMapping_def m'_def)
      (simp add: buildMemData_def modifyS_def bindS_def)
  moreover have "svc_wf (range_of (ServiceMapping ?nd))" using r2(2) by (auto elim: recv_okE)
  then have "received_step node (delta c (abs_recv (ServiceMapping nd))) m m'"
    using store_received[OF assms(1), of ?nd m' node] m'_def r1(3) r2(3) by (simp add: delta_def)
  moreover have "mget (dataFrom m') node = Some ?nd" by (simp add: m'_def buildMemData_def modifyS_def)
  ultimately show ?thesis using r2(2) by (metis memNodeData.select_convs(1) memNodeData.simps(3) memNodeData.surjective)
qed

end
