(* ===== verification/Mem_Store_Feed.thy ===== *)
theory Mem_Store_Feed
  imports Mem_Store_Props
begin

text \<open>
  The store as a source of changes. Any sequence of operations on it, by its own clients, by
  other peers and from its own sources, keeps the list of changes a peer has yet to fetch exact:
  applied to what the peer has, it gives what the node publishes. The contract is the locale
  \<open>change_feed\<close>; the store satisfies it for every peer.
\<close>

section \<open>The contract of a source\<close>

locale change_feed =
  fixes inv :: "'s \<Rightarrow> bool" and cur :: "'s \<Rightarrow> 'd" and pend :: "'s \<Rightarrow> 'c option"
    and app :: "'c \<Rightarrow> 'd \<Rightarrow> 'd" and none :: 'c and step :: "'s \<Rightarrow> 's \<Rightarrow> bool"
  assumes stable: "inv s \<Longrightarrow> pend s = Some c \<Longrightarrow> app c (cur s) = cur s"
    and app_none: "app none d = d"
    and step_inv: "step s s' \<Longrightarrow> inv s \<Longrightarrow> inv s'"
    and step_exact: "step s s' \<Longrightarrow> inv s \<Longrightarrow> pend s = Some c \<Longrightarrow>
      \<exists>c'. pend s' = Some c' \<and> (\<forall>d. app c d = cur s \<longrightarrow> app c' d = cur s')"
begin

lemma steps_inv: "step\<^sup>*\<^sup>* s s' \<Longrightarrow> inv s \<Longrightarrow> inv s'"
  by (induction rule: rtranclp_induct) (auto intro: step_inv)

lemma steps_exact:
  assumes "step\<^sup>*\<^sup>* s s'" "inv s" "pend s = Some c"
  shows "\<exists>c'. pend s' = Some c' \<and> (\<forall>d. app c d = cur s \<longrightarrow> app c' d = cur s')"
  using assms
proof (induction rule: rtranclp_induct)
  case (step y z)
  obtain c1 where "pend y = Some c1" "\<forall>d. app c d = cur s \<longrightarrow> app c1 d = cur y"
    using step by blast
  then show ?case using step_exact[OF step.hyps(2) steps_inv[OF step.hyps(1) step.prems(1)]] by blast
qed simp

lemma copy_then_changes:
  assumes "inv s" "pend s = Some c" "step\<^sup>*\<^sup>* s s'"
  shows "\<exists>c'. pend s' = Some c' \<and> app c' (cur s) = cur s'"
  using steps_exact[OF assms(3,1,2)] stable[OF assms(1,2)] by blast

end

section \<open>The operations of a store\<close>

definition mem_inv :: "MemStore \<Rightarrow> bool" where
  "mem_inv m \<longleftrightarrow> mem_wf m \<and> pending_ok m"

text \<open>A Go map that the decoder makes has each key once.\<close>

fun payload_wf :: "payload \<Rightarrow> bool" where
  "payload_wf (PNode d) = svc_wf (range_of (ServiceMapping d))"
| "payload_wf _ = True"

text \<open>Every operation of the store but the ones by which \<open>peer\<close> takes or drops its changes.\<close>

inductive store_step :: "string \<Rightarrow> MemStore \<Rightarrow> MemStore \<Rightarrow> bool" for peer where
  publish: "PublishService s item m = (r, m') \<Longrightarrow> store_step peer m m'"
| delete: "DeleteService s item m = (r, m') \<Longrightarrow> store_step peer m m'"
| full_from: "FullFrom node dat m = (r, m') \<Longrightarrow> \<forall>p \<in> snd ` set dat. payload_wf p \<Longrightarrow> store_step peer m m'"
| sync_from: "SyncFrom node node' add del m = (r, m') \<Longrightarrow> store_step peer m m'"
| abandon: "Abandon node m = (r, m') \<Longrightarrow> store_step peer m m'"
| fetch_full: "FetchFullAndWatch node m = (r, m') \<Longrightarrow> store_step peer m m'"
| fetch_changes: "FetchChangesForPeerNodeRequest node m = (r, m') \<Longrightarrow> node \<noteq> peer \<Longrightarrow> store_step peer m m'"
| unwatch: "Unwatch node m = (r, m') \<Longrightarrow> node \<noteq> peer \<Longrightarrow> store_step peer m m'"
| put_domain: "PutDomain Fqdn domain resolve t m = (r, m') \<Longrightarrow> store_step peer m m'"

inductive_cases store_stepE: "store_step peer m m'"

lemma mem_inv_new: "mem_inv NewMemStore"
  by (simp add: mem_inv_def mem_wf_def pending_ok_def NewMemStore_def)

lemma pending_ok_frame:
  "pending_ok m \<Longrightarrow> dataTo m' = dataTo m \<Longrightarrow> currentServices m' = currentServices m \<Longrightarrow> pending_ok m'"
  by (simp add: pending_ok_def)

text \<open>A change of the node's own data, noted for every peer.\<close>

lemma noted_change:
  assumes inv: "mem_inv m" and d: "dataTo m' = map (\<lambda>(node, v). (node, f v)) (dataTo m)"
    and nt: "\<And>c r. delta (f c) r = g (delta c r)" and cur: "abs_svc (currentServices m') = g (abs_svc (currentServices m))"
    and wf: "mem_wf m'" and idem: "\<And>r. g (g r) = g r"
  shows "mem_inv m'"
    and "mget (dataTo m) peer = Some c \<Longrightarrow> \<exists>c'. mget (dataTo m') peer = Some c' \<and>
      (\<forall>r. delta c r = abs_svc (currentServices m) \<longrightarrow> delta c' r = abs_svc (currentServices m'))"
proof -
  have "delta (f c) (g r) = g r" if "delta c r = r" for c r
  proof -
    have "delta (f c) (g r) = delta (f c) (delta (f c) r)" using that by (simp add: nt)
    also have "\<dots> = delta (f c) r" by (rule delta_idem)
    finally show ?thesis using that by (simp add: nt)
  qed
  then show "mem_inv m'"
    using inv wf by (auto simp: mem_inv_def pending_ok_def d cur mget_map_values mkeys_map_values simp del: map_map)
  show "\<exists>c'. mget (dataTo m') peer = Some c' \<and>
      (\<forall>r. delta c r = abs_svc (currentServices m) \<longrightarrow> delta c' r = abs_svc (currentServices m'))"
    if "mget (dataTo m) peer = Some c"
    using that by (simp add: d mget_map_values nt cur)
qed

lemma mem_wf_update:
  "mem_wf m \<Longrightarrow> svc_wf a \<Longrightarrow> svc_wf b \<Longrightarrow> mem_wf (m\<lparr>services := a, currentServices := b, dataTo := c\<rparr>)"
  by (simp add: mem_wf_def)

lemma publish_change:
  assumes "mem_inv m" "PublishService s item m = (r, m')"
  shows "mem_inv m'"
    and "mget (dataTo m) peer = Some c \<Longrightarrow> \<exists>c'. mget (dataTo m') peer = Some c' \<and>
      (\<forall>r. delta c r = abs_svc (currentServices m) \<longrightarrow> delta c' r = abs_svc (currentServices m'))"
proof -
  have m': "m' = m\<lparr>services := services m', currentServices := put_service s item (currentServices m),
      dataTo := map (\<lambda>(node, v). (node, note_put s item v)) (dataTo m)\<rparr>"
    "services m' = put_service s item (services m)"
    using assms(2) by (auto simp: PublishService_run)
  have "mem_wf m'"
    using assms(1) m'(2) by (subst m'(1)) (auto simp: mem_inv_def intro!: mem_wf_update put_service_wf dest: mem_wfD)
  note nc = noted_change[OF assms(1), of m' "note_put s item" "\<lambda>r. r((s, NodeId item) \<mapsto> Addr item)", OF _ delta_note_put _ this]
  have d: "dataTo m' = map (\<lambda>(node, v). (node, note_put s item v)) (dataTo m)"
    "currentServices m' = put_service s item (currentServices m)"
    by (subst m'(1), simp)+
  show "mem_inv m'"
    and "mget (dataTo m) peer = Some c \<Longrightarrow> \<exists>c'. mget (dataTo m') peer = Some c' \<and>
      (\<forall>r. delta c r = abs_svc (currentServices m) \<longrightarrow> delta c' r = abs_svc (currentServices m'))"
    using nc d by (simp_all add: put_service_abs)
qed

lemma delete_change:
  assumes "mem_inv m" "DeleteService s item m = (r, m')"
  shows "mem_inv m'"
    and "mget (dataTo m) peer = Some c \<Longrightarrow> \<exists>c'. mget (dataTo m') peer = Some c' \<and>
      (\<forall>r. delta c r = abs_svc (currentServices m) \<longrightarrow> delta c' r = abs_svc (currentServices m'))"
proof -
  have m': "m' = m\<lparr>services := services m', currentServices := del_service s item (currentServices m),
      dataTo := map (\<lambda>(node, v). (node, note_del s item v)) (dataTo m)\<rparr>"
    "services m' = del_service s item (services m)"
    using assms(2) by (auto simp: DeleteService_run)
  have "mem_wf m'"
    using assms(1) m'(2) by (subst m'(1)) (auto simp: mem_inv_def intro!: mem_wf_update del_service_wf dest: mem_wfD)
  note nc = noted_change[OF assms(1), of m' "note_del s item" "\<lambda>r. r((s, NodeId item) := None)", OF _ delta_note_del _ this]
  have d: "dataTo m' = map (\<lambda>(node, v). (node, note_del s item v)) (dataTo m)"
    "currentServices m' = del_service s item (currentServices m)"
    by (subst m'(1), simp)+
  show "mem_inv m'"
    and "mget (dataTo m) peer = Some c \<Longrightarrow> \<exists>c'. mget (dataTo m') peer = Some c' \<and>
      (\<forall>r. delta c r = abs_svc (currentServices m) \<longrightarrow> delta c' r = abs_svc (currentServices m'))"
    using nc d by (simp_all add: del_service_abs)
qed

text \<open>Receiving, in every outcome, leaves the node's own data and the lists of its peers alone.\<close>

definition quiet_step :: "MemStore \<Rightarrow> MemStore \<Rightarrow> bool" where
  "quiet_step m m' \<longleftrightarrow> dataTo m' = dataTo m \<and> currentServices m' = currentServices m \<and> (mem_wf m \<longrightarrow> mem_wf m')"

lemma quiet_refl [simp]: "quiet_step m m"
  by (simp add: quiet_step_def)

lemma quiet_build: "quiet_step m (m\<lparr>dataFrom := df\<rparr>) \<Longrightarrow> quiet_step m (snd (buildMemData (m\<lparr>dataFrom := df\<rparr>)))"
  using buildMemData_merged(2)[of "m\<lparr>dataFrom := df\<rparr>"]
  by (auto simp: quiet_step_def) (simp_all add: buildMemData_def modifyS_def)

lemma sync_wf:
  assumes "svc_wf (range_of rm)"
  shows "svc_wf (range_of (snd (syncDel e rm)))" "svc_wf (range_of (snd (syncAdd e rm)))"
proof -
  have mput: "range_of (Some (mput k p sm)) = mput k (case p of None \<Rightarrow> [] | Some p \<Rightarrow> p) (range_of (Some sm))" for k p sm
    by (induction sm) (auto simp: range_of_def)
  have mdel: "range_of (Some (mdel k sm)) = mdel k (range_of (Some sm))" for k sm
    by (induction sm) (auto simp: range_of_def)
  have inner: "mwf p" if "mget sm k = Some (Some p)" "rm = Some sm" for sm k p
  proof -
    have "mget (range_of (Some sm)) k = Some p" using that(1) by (induction sm) (auto simp: range_of_def)
    then show ?thesis using assms that(2) by (auto dest: svc_wfD)
  qed
  show "svc_wf (range_of (snd (syncDel e rm)))"
    using assms inner
    by (auto simp: syncDel_def Let_def mput mdel split: option.splits intro!: svc_wf_mput svc_wf_mdel mwf_mdel)
  show "svc_wf (range_of (snd (syncAdd e rm)))"
    using assms inner
    by (auto simp: syncAdd_def mput split: option.splits intro!: svc_wf_mput mwf_mput)
qed

lemma forEach_inv: "(\<And>x s. I s \<Longrightarrow> I (snd (f x s))) \<Longrightarrow> I s \<Longrightarrow> I (snd (forEach f xs s))"
proof (induction xs arbitrary: s)
  case (Cons x xs)
  have "I (snd (f x s))" using Cons.prems by blast
  then show ?case using Cons.IH[OF Cons.prems(1)] by (auto simp: bindS_def split: prod.splits res.splits)
qed (simp add: returnS_def)

lemma FullFrom_quiet:
  assumes "FullFrom node dat m = (r, m')" "\<forall>p \<in> snd ` set dat. payload_wf p"
  shows "quiet_step m m'"
proof (cases "mget dat DefaultDataKey")
  case None
  then show ?thesis using assms(1) by (simp add: FullFrom_def failS_def)
next
  case (Some p)
  then have p: "payload_wf p" using assms(2) by (force dest: map_of_SomeD)
  show ?thesis
  proof (cases "memNodeDataUnmarshall p")
    case (Ok nd)
    have "svc_wf (range_of (ServiceMapping nd))"
      using p Ok by (cases p) (auto simp: memNodeDataUnmarshall_def range_of_def)
    then have "quiet_step m (m\<lparr>dataFrom := mput node nd (dataFrom m)\<rparr>)"
      by (simp add: quiet_step_def mem_wf_dataFrom)
    moreover have "m' = snd (buildMemData (m\<lparr>dataFrom := mput node nd (dataFrom m)\<rparr>))"
      using assms(1) Some Ok by (auto simp: FullFrom_def run_simps buildMemData_def)
    ultimately show ?thesis using quiet_build by blast
  qed (use assms(1) Some in \<open>simp_all add: FullFrom_def run_simps\<close>)
qed

lemma SyncFrom_quiet:
  assumes "SyncFrom node node' add del m = (r, m')"
  shows "quiet_step m m'"
proof -
  have on: "quiet_step m (snd (bindS (onMapping node nd (bindS (forEach syncDel ds) (\<lambda>_. forEach syncAdd as)))
      (\<lambda>_. buildMemData) m))" if "mget (dataFrom m) node = Some nd" for nd ds as
  proof -
    let ?f = "bindS (forEach syncDel ds) (\<lambda>_. forEach syncAdd as)"
    obtain r1 mp where f: "?f (ServiceMapping nd) = (r1, mp)" by fastforce
    let ?I = "\<lambda>rm. svc_wf (range_of rm)"
    have "?I (ServiceMapping nd) \<Longrightarrow> ?I (snd (?f (ServiceMapping nd)))"
      using forEach_inv[of ?I syncDel "ServiceMapping nd" ds] forEach_inv[of ?I syncAdd _ as] sync_wf
      by (auto simp: bindS_def split: prod.splits res.splits)
    then have "mem_wf m \<Longrightarrow> svc_wf (range_of mp)" using mem_wfD(4)[OF _ that] f by simp
    then have q: "quiet_step m (m\<lparr>dataFrom := mput node (nd\<lparr>ServiceMapping := mp\<rparr>) (dataFrom m)\<rparr>)"
      by (auto simp: quiet_step_def intro!: mem_wf_dataFrom)
    show ?thesis using quiet_build[OF q] q f
      by (cases r1) (simp_all add: onMapping_def bindS_def[where f = "\<lambda>_. buildMemData"] split: prod.splits)
  qed
  show ?thesis
  proof (cases "mget add DefaultDataKey")
    case None
    then show ?thesis using assms by (simp add: SyncFrom_def failS_def)
  next
    case (Some ad)
    show ?thesis
    proof (cases "dataTransferNodeDataList ad")
      case (Ok as)
      show ?thesis
      proof (cases "mget del DefaultDataKey")
        case None
        then show ?thesis using assms Some Ok by (simp add: SyncFrom_def go_simps failS_def)
      next
        case (Some dd)
        show ?thesis
        proof (cases "dataTransferNodeDataList dd")
          case (Ok ds)
          show ?thesis
          proof (cases "mget (dataFrom m) node")
            case None
            then show ?thesis using assms \<open>mget add _ = _\<close> \<open>dataTransferNodeDataList ad = _\<close> Some Ok
              by (simp add: SyncFrom_def go_simps failS_def)
          next
            case (Some nd)
            then show ?thesis using on[OF Some, of ds as] assms \<open>mget add _ = _\<close> \<open>dataTransferNodeDataList ad = _\<close>
                \<open>mget del _ = _\<close> Ok by (simp add: SyncFrom_def go_simps)
          qed
        qed (use assms Some Ok \<open>mget add _ = _\<close> in \<open>simp_all add: SyncFrom_def go_simps\<close>, simp_all add: run_simps)
      qed
    qed (use assms Some in \<open>simp_all add: SyncFrom_def run_simps\<close>)
  qed
qed

lemma Abandon_quiet: "Abandon node m = (r, m') \<Longrightarrow> quiet_step m m'"
proof (cases "mget (dataFrom m) node = None")
  case False
  assume "Abandon node m = (r, m')"
  then have "m' = snd (buildMemData (m\<lparr>dataFrom := mdel node (dataFrom m)\<rparr>))"
    using False by (auto simp: Abandon_def go_simps)
  moreover have "quiet_step m (m\<lparr>dataFrom := mdel node (dataFrom m)\<rparr>)"
    using values_mdel[of node "dataFrom m"] by (auto simp: quiet_step_def mem_wf_def simp del: set_map)
  ultimately show ?thesis using quiet_build by blast
qed (simp add: Abandon_def go_simps returnS_def)

lemma FetchFullAndWatch_run:
  "FetchFullAndWatch node m = (Ok [(DefaultDataKey, marshalNode (currentServices m))],
     if mget (dataTo m) node = None then m\<lparr>dataTo := mput node no_changes (dataTo m)\<rparr> else m)"
  by (simp add: FetchFullAndWatch_def run_simps no_changes_def)

lemma FetchChanges_run:
  "FetchChangesForPeerNodeRequest node m =
     (case mget (dataTo m) node of
        None \<Rightarrow> (Err (ErrorMsg ''node not registered''), m)
      | Some c \<Rightarrow> (Ok ([(DefaultDataKey, marshalList (Add c))], [(DefaultDataKey, marshalList (Del c))]),
          m\<lparr>dataTo := mput node no_changes (dataTo m)\<rparr>))"
  by (simp add: FetchChangesForPeerNodeRequest_def run_simps no_changes_def split: option.splits)

lemma mem_inv_dataTo:
  "mem_inv m \<Longrightarrow> mem_inv (m\<lparr>dataTo := mput node no_changes (dataTo m)\<rparr>)"
  "mem_inv m \<Longrightarrow> mem_inv (m\<lparr>dataTo := mdel node (dataTo m)\<rparr>)"
  by (auto simp: mem_inv_def mem_wf_def pending_ok_def)

lemma quiet_inv: "quiet_step m m' \<Longrightarrow> mem_inv m \<Longrightarrow> mem_inv m'"
  by (auto simp: quiet_step_def mem_inv_def pending_ok_def)

lemma store_step_inv:
  assumes "store_step peer m m'" "mem_inv m"
  shows "mem_inv m'"
  using assms
proof cases
  case (put_domain Fqdn domain resolve t r)
  then show ?thesis using assms(2)
    by (auto simp: PutDomain_def modifyS_def Let_def mem_inv_def mem_wf_def pending_ok_def)
qed (auto simp: FetchFullAndWatch_run FetchChanges_run Unwatch_def modifyS_def mem_inv_dataTo assms(2)
    split: option.splits if_splits
    dest: publish_change(1)[OF assms(2)] delete_change(1)[OF assms(2)] FullFrom_quiet SyncFrom_quiet Abandon_quiet
    intro: quiet_inv[OF _ assms(2)])

lemma store_step_exact:
  assumes "store_step peer m m'" "mem_inv m" and c: "mget (dataTo m) peer = Some c"
  shows "\<exists>c'. mget (dataTo m') peer = Some c' \<and>
    (\<forall>r. delta c r = abs_svc (currentServices m) \<longrightarrow> delta c' r = abs_svc (currentServices m'))"
proof -
  have quiet: ?thesis if "quiet_step m m'" using that c by (auto simp: quiet_step_def)
  show ?thesis
    using assms(1)
  proof cases
    case publish
    then show ?thesis using publish_change(2)[OF assms(2) _ c] by blast
  next
    case delete
    then show ?thesis using delete_change(2)[OF assms(2) _ c] by blast
  next
    case put_domain
    then show ?thesis using c by (auto simp: PutDomain_def modifyS_def Let_def)
  qed (use c quiet in \<open>auto simp: FetchFullAndWatch_run FetchChanges_run Unwatch_def modifyS_def
      split: option.splits if_splits dest: FullFrom_quiet SyncFrom_quiet Abandon_quiet\<close>)
qed

interpretation feed: change_feed mem_inv "\<lambda>m. abs_svc (currentServices m)" "\<lambda>m. mget (dataTo m) peer"
  delta no_changes "store_step peer" for peer
proof unfold_locales
  show "mem_inv m \<Longrightarrow> mget (dataTo m) peer = Some c \<Longrightarrow>
      delta c (abs_svc (currentServices m)) = abs_svc (currentServices m)" for m c
    by (auto simp: mem_inv_def pending_ok_def)
qed (rule delta_no_changes store_step_inv store_step_exact; assumption?)+

section \<open>Reading\<close>

lemma GetServiceList_run:
  assumes "svc_wf (services m)"
  shows "\<exists>items. GetServiceList s m = (Ok items, m) \<and> distinct items
    \<and> set items = {item. abs_svc (services m) (s, NodeId item) = Some (Addr item)}"
proof (cases "mget (services m) s")
  case None
  then show ?thesis by (simp add: GetServiceList_def run_simps abs_svc_def)
next
  case (Some p)
  have p: "mwf p" using svc_wfD[OF assms Some] .
  let ?items = "map (\<lambda>(k, v). \<lparr>Addr = v, NodeId = k\<rparr>) p"
  have "distinct ?items"
    using p by (auto simp: distinct_map inj_on_def)
  moreover have "item \<in> set ?items \<longleftrightarrow> mget p (NodeId item) = Some (Addr item)" for item
  proof
    assume "mget p (NodeId item) = Some (Addr item)"
    then show "item \<in> set ?items" by (force dest: map_of_SomeD)
  qed (use p in \<open>auto intro: map_of_is_SomeI\<close>)
  then have "set ?items = {item. abs_svc (services m) (s, NodeId item) = Some (Addr item)}"
    using Some by (simp only: set_eq_iff mem_Collect_eq) (simp add: abs_svc_def)
  ultimately show ?thesis using Some by (simp add: GetServiceList_def run_simps)
qed

text \<open>A value in the merged registry comes from the node or from a peer, and nothing is left out.\<close>

definition provides :: "MemStore \<Rightarrow> string \<times> string \<Rightarrow> string \<Rightarrow> bool" where
  "provides m sn a \<longleftrightarrow> abs_svc (currentServices m) sn = Some a
     \<or> (\<exists>nd \<in> set (map snd (dataFrom m)). abs_recv (ServiceMapping nd) sn = Some a)"

lemma foldl_merge:
  "foldl (\<lambda>r (node, nd). r ++ f nd) r l sn =
     (case filter (\<lambda>x. f (snd x) sn \<noteq> None) (rev l) of [] \<Rightarrow> r sn | x # _ \<Rightarrow> f (snd x) sn)"
proof (induction l arbitrary: r rule: rev_induct)
  case (snoc x l)
  then show ?case by (cases x) (auto simp: map_add_def split: option.splits list.splits)
qed simp

lemma merged_provides:
  "merged m sn = Some a \<Longrightarrow> provides m sn a"
  "provides m sn a \<Longrightarrow> \<exists>b. merged m sn = Some b"
proof -
  let ?f = "\<lambda>nd. abs_recv (ServiceMapping nd)"
  let ?xs = "filter (\<lambda>x. ?f (snd x) sn \<noteq> None) (rev (dataFrom m))"
  have m: "merged m sn = (case ?xs of [] \<Rightarrow> abs_svc (currentServices m) sn | x # _ \<Rightarrow> ?f (snd x) sn)"
    unfolding merged_def by (rule foldl_merge)
  have mem: "set ?xs = {x \<in> set (dataFrom m). ?f (snd x) sn \<noteq> None}" by auto
  show "provides m sn a" if "merged m sn = Some a"
  proof (cases ?xs)
    case (Cons x xs)
    then have "x \<in> set (dataFrom m)" 
      using arg_cong[OF Cons, of set] mem by auto
    then show ?thesis using that m Cons by (auto simp: provides_def)
  qed (use that m in \<open>simp add: provides_def\<close>)
  show "\<exists>b. merged m sn = Some b" if "provides m sn a"
  proof (cases ?xs)
    case Nil
    then have "\<forall>x \<in> set (dataFrom m). ?f (snd x) sn = None" using mem by auto
    then show ?thesis using that m Nil by (auto simp: provides_def)
  next
    case (Cons x xs)
    then have "?f (snd x) sn \<noteq> None" 
      using arg_cong[OF Cons, of set] mem by auto
    then show ?thesis using m Cons by auto
  qed
qed

section \<open>Properties\<close>

text \<open>Any operation of a store, whoever calls it.\<close>

definition any_step :: "MemStore \<Rightarrow> MemStore \<Rightarrow> bool" where
  "any_step m m' \<longleftrightarrow> (\<exists>peer. store_step peer m m')"

text \<open>
  Whatever sequence of operations a new store has run, in whatever outcome, for every peer
  that watches it the pending changes are exact: additions are registered with the address last
  published, deletions are not registered. Applying them to the node's own registry changes nothing.
\<close>

lemma pending_changes_exact:
  "any_step\<^sup>*\<^sup>* NewMemStore m \<Longrightarrow> mget (dataTo m) node = Some c \<Longrightarrow>
    delta c (abs_svc (currentServices m)) = abs_svc (currentServices m)"
proof -
  assume "any_step\<^sup>*\<^sup>* NewMemStore m"
  then have "mem_inv m"
    by (induction rule: rtranclp_induct) (auto simp: any_step_def mem_inv_new intro: store_step_inv)
  then show "mget (dataTo m) node = Some c \<Longrightarrow> delta c (abs_svc (currentServices m)) = abs_svc (currentServices m)"
    by (rule feed.stable)
qed

definition sample_item :: ServiceItem where
  "sample_item = \<lparr>Addr = ''10.0.0.1:80'', NodeId = ''n1''\<rparr>"

definition sample_source :: MemStore where
  "sample_source = snd (bindS (FetchFullAndWatch ''B'') (\<lambda>_. PublishService ''svc'' sample_item) NewMemStore)"

lemma sample_source_run:
  "FetchFullAndWatch ''B'' NewMemStore = (Ok [(DefaultDataKey, marshalNode [])],
     NewMemStore\<lparr>dataTo := [(''B'', no_changes)]\<rparr>)"
  "sample_source = NewMemStore\<lparr>services := [(''svc'', [(''n1'', ''10.0.0.1:80'')])],
     currentServices := [(''svc'', [(''n1'', ''10.0.0.1:80'')])],
     dataTo := [(''B'', \<lparr>Add = [\<lparr>ServiceName = ''svc'', NodeName = ''n1'', InfoAddr = ''10.0.0.1:80''\<rparr>], Del = []\<rparr>)]\<rparr>"
  by (simp_all add: FetchFullAndWatch_run NewMemStore_def sample_source_def sample_item_def bindS_def PublishService_run
      put_service_def note_put_def rebuildServiceItemList_def transfer_def no_changes_def)

lemma sample_source_steps: "any_step\<^sup>*\<^sup>* NewMemStore sample_source"
proof -
  let ?m = "NewMemStore\<lparr>dataTo := [(''B'', no_changes)]\<rparr>"
  have "any_step NewMemStore ?m"
    unfolding any_step_def using store_step.fetch_full[OF sample_source_run(1)] by blast
  moreover have "PublishService ''svc'' sample_item ?m = (Ok (), sample_source)"
    using sample_source_run(1) by (simp add: sample_source_def bindS_def PublishService_run)
  then have "any_step ?m sample_source"
    unfolding any_step_def using store_step.publish by blast
  ultimately show ?thesis by (meson rtranclp.simps)
qed

text \<open>
  C9: incremental copying is exact. A peer takes a full copy from a source, the source then runs
  any sequence of operations, the peer fetches the changes: what it then holds of the source is
  exactly what the source publishes at that moment, and the source owes it nothing.
\<close>

theorem incremental_copy_exact:
  assumes "mem_inv src" "mem_wf dst"
    and "FetchFullAndWatch peer src = (Ok full, src1)" "FullFrom node full dst = (r1, dst1)"
    and "(store_step peer)\<^sup>*\<^sup>* src1 src2"
    and "FetchChangesForPeerNodeRequest peer src2 = (Ok (add, del), src3)"
    and "SyncFrom node node add del dst1 = (r2, dst2)"
  shows "r1 = Ok () \<and> r2 = Ok () \<and> received dst2 node = Some (abs_svc (currentServices src2))
    \<and> abs_svc (services dst2) = merged dst2 \<and> mget (dataTo src3) peer = Some no_changes"
proof -
  have full: "full = [(DefaultDataKey, marshalNode (currentServices src))]"
    "src1 = (if mget (dataTo src) peer = None then src\<lparr>dataTo := mput peer no_changes (dataTo src)\<rparr> else src)"
    using assms(3) by (auto simp: FetchFullAndWatch_run)
  have src1: "mem_inv src1" "currentServices src1 = currentServices src" "\<exists>c. mget (dataTo src1) peer = Some c"
    using full(2) assms(1) by (auto simp: mem_inv_dataTo split: if_splits)
  have "svc_wf (currentServices src)" using assms(1) by (simp add: mem_inv_def mem_wf_def)
  then obtain nd where d1: "r1 = Ok ()" "received_step node (abs_svc (currentServices src)) dst dst1"
      "mget (dataFrom dst1) node = Some nd" "recv_ok (ServiceMapping nd)"
    using FullFrom_run[OF assms(2), of "currentServices src" node] assms(4) full(1) by auto
  have nd: "abs_recv (ServiceMapping nd) = abs_svc (currentServices src)"
    using d1(2,3) by (simp add: received_step_def received_def)
  obtain c where c: "mget (dataTo src2) peer = Some c" "delta c (abs_svc (currentServices src)) = abs_svc (currentServices src2)"
    using feed.copy_then_changes[OF src1(1) _ assms(5)] src1(2,3) by auto
  have ch: "add = [(DefaultDataKey, marshalList (Add c))]" "del = [(DefaultDataKey, marshalList (Del c))]"
    "src3 = src2\<lparr>dataTo := mput peer no_changes (dataTo src2)\<rparr>"
    using assms(6) c(1) by (auto simp: FetchChanges_run)
  have "mem_wf dst1" using d1(2) by (simp add: received_step_def)
  then have "r2 = Ok ()" "received_step node (delta c (abs_recv (ServiceMapping nd))) dst1 dst2"
    using SyncFrom_run[OF _ d1(3,4), of c] assms(7) ch(1,2) by auto
  then show ?thesis using d1(1) c(2) nd ch(3) by (simp add: received_step_def)
qed

theorem incremental_copy_exact_witness:
  "\<exists>src1 dst1 dst2 src3 add del.
     FetchFullAndWatch ''B'' NewMemStore = (Ok [(DefaultDataKey, marshalNode [])], src1)
     \<and> FullFrom ''A'' [(DefaultDataKey, marshalNode [])] NewMemStore = (Ok (), dst1)
     \<and> FetchChangesForPeerNodeRequest ''B'' sample_source = (Ok (add, del), src3)
     \<and> SyncFrom ''A'' ''A'' add del dst1 = (Ok (), dst2)
     \<and> received dst2 ''A'' = Some (abs_svc (currentServices sample_source))"
proof -
  let ?m = "NewMemStore\<lparr>dataTo := [(''B'', no_changes)]\<rparr>"
  have "PublishService ''svc'' sample_item ?m = (Ok (), sample_source)"
    using sample_source_run(1) by (simp add: sample_source_def bindS_def PublishService_run)
  then have st: "(store_step ''B'')\<^sup>*\<^sup>* ?m sample_source" using store_step.publish by blast
  obtain r1 dst1 where 1: "FullFrom ''A'' [(DefaultDataKey, marshalNode [])] NewMemStore = (r1, dst1)" by fastforce
  obtain add del src3 where 2: "FetchChangesForPeerNodeRequest ''B'' sample_source = (Ok (add, del), src3)"
    by (simp add: FetchChanges_run sample_source_run(2))
  obtain r2 dst2 where 3: "SyncFrom ''A'' ''A'' add del dst1 = (r2, dst2)" by fastforce
  have "mem_wf NewMemStore" using mem_inv_new by (simp add: mem_inv_def)
  then show ?thesis
    using incremental_copy_exact[OF mem_inv_new _ sample_source_run(1) 1 st 2 3] 1 2 3 sample_source_run(1) by blast
qed

text \<open>The operations on a service leave the lists of the others, the copies of the peers and the static
  domains alone.\<close>

definition rest_kept :: "string \<Rightarrow> MemStore \<Rightarrow> MemStore \<Rightarrow> bool" where
  "rest_kept s m m' \<longleftrightarrow>
     (\<forall>s'. s' \<noteq> s \<longrightarrow> fst (GetServiceList s' m') = fst (GetServiceList s' m))
     \<and> dataFrom m' = dataFrom m \<and> staticDomainMapping m' = staticDomainMapping m"

lemma service_ops_rest:
  "rest_kept s m (snd (PublishService s item m))" "rest_kept s m (snd (DeleteService s item m))"
proof -
  have "mget (put_service s item sm) s' = mget sm s'" "mget (del_service s item sm) s' = mget sm s'" if "s' \<noteq> s" for s' sm
    using that by (auto simp: put_service_def del_service_def Let_def split: option.splits)
  then show "rest_kept s m (snd (PublishService s item m))" "rest_kept s m (snd (DeleteService s item m))"
    by (auto simp: rest_kept_def PublishService_run DeleteService_run GetServiceList_def run_simps split: option.splits)
qed

text \<open>
  C22: publishing and deleting are visible at once and touch no other item: the list of the service
  then has the new item in place of the one of the same node, or no item of that node, and the
  items of all other nodes as before; the lists of the other services, the copies of the peers and
  the static domains are unchanged.
\<close>

theorem published_item_listed:
  assumes "mem_wf m" "GetServiceList s m = (Ok items, m)"
  shows "(\<exists>items' m'. bindS (PublishService s item) (\<lambda>_. GetServiceList s) m = (Ok items', m') \<and> rest_kept s m m'
      \<and> distinct items' \<and> set items' = insert item {i \<in> set items. NodeId i \<noteq> NodeId item})
    \<and> (\<exists>items' m'. bindS (DeleteService s item) (\<lambda>_. GetServiceList s) m = (Ok items', m') \<and> rest_kept s m m'
      \<and> distinct items' \<and> set items' = {i \<in> set items. NodeId i \<noteq> NodeId item})"
proof
  have old: "set items = {i. abs_svc (services m) (s, NodeId i) = Some (Addr i)}"
    using GetServiceList_run[OF mem_wfD(1)[OF assms(1)], of s] assms(2) by auto
  let ?p = "snd (PublishService s item m)" and ?d = "snd (DeleteService s item m)"
  have wf: "svc_wf (services ?p)" "svc_wf (services ?d)"
    using mem_wfD(1)[OF assms(1)] by (simp_all add: PublishService_run DeleteService_run put_service_wf del_service_wf)
  have op: "bindS (PublishService s item) f m = f () ?p" "bindS (DeleteService s item) f m = f () ?d"
    for f :: "unit \<Rightarrow> (MemStore, ServiceItem list) prog"
    by (simp_all add: bindS_def PublishService_run DeleteService_run)
  have "{i. abs_svc (services ?p) (s, NodeId i) = Some (Addr i)} = insert item {i \<in> set items. NodeId i \<noteq> NodeId item}"
    by (auto simp: old PublishService_run put_service_abs split: if_splits)
  moreover obtain items' where "GetServiceList s ?p = (Ok items', ?p)" "distinct items'"
      "set items' = {i. abs_svc (services ?p) (s, NodeId i) = Some (Addr i)}" using GetServiceList_run[OF wf(1), of s] by blast
  ultimately show "\<exists>items' m'. bindS (PublishService s item) (\<lambda>_. GetServiceList s) m = (Ok items', m') \<and> rest_kept s m m'
      \<and> distinct items' \<and> set items' = insert item {i \<in> set items. NodeId i \<noteq> NodeId item}"
    using service_ops_rest(1) by (intro exI[of _ items'] exI[of _ ?p]) (simp add: op(1))
  have "{i. abs_svc (services ?d) (s, NodeId i) = Some (Addr i)} = {i \<in> set items. NodeId i \<noteq> NodeId item}"
    by (auto simp: old DeleteService_run del_service_abs split: if_splits)
  moreover obtain items' where "GetServiceList s ?d = (Ok items', ?d)" "distinct items'"
      "set items' = {i. abs_svc (services ?d) (s, NodeId i) = Some (Addr i)}" using GetServiceList_run[OF wf(2), of s] by blast
  ultimately show "\<exists>items' m'. bindS (DeleteService s item) (\<lambda>_. GetServiceList s) m = (Ok items', m') \<and> rest_kept s m m'
      \<and> distinct items' \<and> set items' = {i \<in> set items. NodeId i \<noteq> NodeId item}"
    using service_ops_rest(2) by (intro exI[of _ items'] exI[of _ ?d]) (simp add: op(2))
qed

theorem published_item_listed_witness:
  "(\<exists>items' m'. bindS (PublishService ''svc'' \<lparr>Addr = ''10.0.0.2:80'', NodeId = ''n1''\<rparr>) (\<lambda>_. GetServiceList ''svc'') sample_source
      = (Ok items', m') \<and> set items' = {\<lparr>Addr = ''10.0.0.2:80'', NodeId = ''n1''\<rparr>})"
proof -
  have "mem_wf sample_source" by (simp add: mem_wf_def svc_wf_def sample_source_run(2) NewMemStore_def)
  moreover have "GetServiceList ''svc'' sample_source = (Ok [sample_item], sample_source)"
    by (simp add: GetServiceList_def run_simps sample_source_run(2) sample_item_def)
  ultimately obtain items' m' where "bindS (PublishService ''svc'' \<lparr>Addr = ''10.0.0.2:80'', NodeId = ''n1''\<rparr>)
      (\<lambda>_. GetServiceList ''svc'') sample_source = (Ok items', m')"
    "set items' = insert \<lparr>Addr = ''10.0.0.2:80'', NodeId = ''n1''\<rparr> {i \<in> set [sample_item]. NodeId i \<noteq> ''n1''}"
    using published_item_listed[of sample_source "''svc''" "[sample_item]" "\<lparr>Addr = ''10.0.0.2:80'', NodeId = ''n1''\<rparr>"]
    unfolding ServiceItem.select_convs by blast
  moreover have "{i \<in> set [sample_item]. NodeId i \<noteq> ''n1''} = {}" by (simp add: sample_item_def)
  ultimately show ?thesis by metis
qed

text \<open>
  C15: once a full copy from a peer is stored, the store serves an entry exactly when the node
  itself or one of its peers provides it, and always with an address one of them gives.
\<close>

theorem served_is_provided:
  assumes "mem_wf m" "svc_wf sm" "FullFrom node [(DefaultDataKey, marshalNode sm)] m = (r, m')"
  shows "(abs_svc (services m') sn = Some a \<longrightarrow> provides m' sn a)
    \<and> (provides m' sn a \<longrightarrow> (\<exists>b. abs_svc (services m') sn = Some b))
    \<and> (abs_svc sm sn = Some a \<longrightarrow> provides m' sn a)"
proof -
  have st: "received_step node (abs_svc sm) m m'" using FullFrom_run[OF assms(1,2), of node] assms(3) by auto
  then have "abs_svc (services m') = merged m'" by (simp add: received_step_def)
  moreover obtain nd where "mget (dataFrom m') node = Some nd" "abs_recv (ServiceMapping nd) = abs_svc sm"
    using st by (auto simp: received_step_def received_def)
  then have "abs_svc sm sn = Some a \<longrightarrow> provides m' sn a"
    by (auto simp: provides_def dest!: map_of_SomeD intro!: bexI)
  ultimately show ?thesis using merged_provides by metis
qed

theorem served_is_provided_witness:
  "\<exists>r m'. FullFrom ''A'' [(DefaultDataKey, marshalNode [(''svc'', [(''n2'', ''10.0.0.9:80'')])])] sample_source = (r, m')
    \<and> provides m' (''svc'', ''n2'') ''10.0.0.9:80'' \<and> (\<exists>b. abs_svc (services m') (''svc'', ''n2'') = Some b)"
proof -
  have wf: "mem_wf sample_source" by (simp add: mem_wf_def svc_wf_def sample_source_run(2) NewMemStore_def)
  have sm: "svc_wf [(''svc'', [(''n2'', ''10.0.0.9:80'')])]" by (simp add: svc_wf_def)
  obtain r m' where "FullFrom ''A'' [(DefaultDataKey, marshalNode [(''svc'', [(''n2'', ''10.0.0.9:80'')])])] sample_source = (r, m')"
    by fastforce
  then show ?thesis
    using served_is_provided[OF wf sm, of "''A''" r m' "(''svc'', ''n2'')" "''10.0.0.9:80''"]
    by (auto simp: abs_svc_def)
qed

text \<open>
  A peer that answers a full request with \<open>null\<close> is stored without error, and the first
  addition received from it afterwards panics: the mapping is a nil map.
\<close>

lemma null_copy_panics:
  "fst (bindS (FullFrom node [(DefaultDataKey, PNull)]) (\<lambda>_.
     SyncFrom node node [(DefaultDataKey, marshalList [transfer s item])] [(DefaultDataKey, PNull)]) m)
   = Panic nil_map_write"
  by (simp add: FullFrom_def memNodeDataUnmarshall_def SyncFrom_def go_simps decode_marshalList bindS_def
      buildMemData_def modifyS_def getS_def liftR_def onMapping_def dataTransferNodeDataList_def syncAdd_def
      marshalList_def returnS_def)

text \<open>
  A static domain resolves to the last value put for it, in any letter case, and a put changes the
  answer of no other name or record type; names that are not static are answered by the nested
  stores in order.
\<close>

lemma ResolveDomain_PutDomain:
  "ResolveDomain nested (snd (PutDomain Fqdn domain v t m)) q t' =
     (if t' = t \<and> ToLower q = Fqdn (ToLower domain) then Ok v else ResolveDomain nested m q t')"
  by (auto simp: ResolveDomain_def PutDomain_def modifyS_def resolveStatic_def Let_def split: option.splits)

end
