(* ===== verification/Http_Endpoint.thy ===== *)
theory Http_Endpoint
  imports Mem_Store_Feed
begin

text \<open>
  The service registration endpoint (\<open>endpoint.http.go\<close>): query, publish, and the sweep that
  removes the services of clients that stopped publishing. The state is the table of clients with
  the store; the time of a call is an argument.
\<close>

section \<open>Requests\<close>

record HttpRequest =
  FormValue :: "string \<Rightarrow> string"
  Header :: "string \<Rightarrow> string"

text \<open>The response: its status code and, when there is one, the value that is written as JSON.\<close>

record 'b HttpResponse =
  Status :: nat
  Body :: "'b option"

definition respond :: "nat \<Rightarrow> 'b HttpResponse" where
  "respond code = \<lparr>Status = code, Body = None\<rparr>"

text \<open>
  The router of \<open>httprouter\<close> on fixed paths: the handler that was registered for the method and the
  path serves the request. What the library answers by itself, when there is none, is a parameter.
\<close>

type_synonym ('s, 'b) routes = "(string \<times> string, int \<Rightarrow> HttpRequest \<Rightarrow> ('s, 'b HttpResponse) prog) gomap"
type_synonym 'b unrouted = "string \<Rightarrow> string \<Rightarrow> 'b HttpResponse"

definition routerServe ::
  "'b unrouted \<Rightarrow> ('s, 'b) routes \<Rightarrow> int \<Rightarrow> string \<Rightarrow> string \<Rightarrow> HttpRequest \<Rightarrow> ('s, 'b HttpResponse) prog" where
  "routerServe other routes now meth path r =
     (case mget routes (meth, path) of None \<Rightarrow> returnS (other meth path) | Some handle \<Rightarrow> handle now r)"

section \<open>The endpoint\<close>

record publicClient =
  LastUpdate :: int
  Publishment :: "(string, string) gomap"

record HttpEndpoint =
  EnableAuth :: bool
  AccessPassword :: string
  publicClients :: "(string, publicClient) gomap"

definition NewHttpEndpoint :: "bool \<Rightarrow> string \<Rightarrow> HttpEndpoint" where
  "NewHttpEndpoint enableAuth accessPassword =
     \<lparr>EnableAuth = enableAuth, AccessPassword = accessPassword, publicClients = []\<rparr>"

text \<open>The constructor parses the address first.\<close>

definition OpenHttpEndpoint :: "(string \<Rightarrow> (string \<times> string) res) \<Rightarrow> string \<Rightarrow> bool \<Rightarrow> string \<Rightarrow> (string \<times> HttpEndpoint) res" where
  "OpenHttpEndpoint urlParse addr enableAuth accessPassword =
     bindR (urlParse addr) (\<lambda>(scheme, host). Ok (host, NewHttpEndpoint enableAuth accessPassword))"

definition refused :: "HttpEndpoint \<Rightarrow> HttpRequest \<Rightarrow> bool" where
  "refused e r \<longleftrightarrow> EnableAuth e \<and> Header r ''X-Access-Password'' \<noteq> AccessPassword e"

definition queryService :: "HttpRequest \<Rightarrow> (HttpEndpoint \<times> MemStore, ServiceItem list HttpResponse) prog" where
  "queryService r =
     bindS getS (\<lambda>(e, m).
       if refused e r then returnS (respond 401)
       else tryS (onSnd (GetServiceList (FormValue r ''name'')))
         (\<lambda>items. returnS \<lparr>Status = 200, Body = Some items\<rparr>)
         (\<lambda>err. returnS (respond 500)))"

definition notePublish :: "int \<Rightarrow> string \<Rightarrow> string \<Rightarrow> string \<Rightarrow> HttpEndpoint \<Rightarrow> HttpEndpoint" where
  "notePublish now nodeId serviceName address e =
     (let p = (case mget (publicClients e) nodeId of
                 None \<Rightarrow> \<lparr>LastUpdate = now, Publishment = []\<rparr> | Some p \<Rightarrow> p)
      in e\<lparr>publicClients := mput nodeId
            (p\<lparr>LastUpdate := now, Publishment := mput serviceName address (Publishment p)\<rparr>) (publicClients e)\<rparr>)"

definition publishService ::
  "int \<Rightarrow> HttpRequest \<Rightarrow> (HttpEndpoint \<times> MemStore, ServiceItem list HttpResponse) prog" where
  "publishService now r =
     (let serviceName = FormValue r ''name''; nodeId = FormValue r ''node''; address = FormValue r ''address'' in
      bindS getS (\<lambda>(e, m).
        if refused e r then returnS (respond 401)
        else tryS (onSnd (PublishService serviceName \<lparr>Addr = address, NodeId = nodeId\<rparr>))
          (\<lambda>_. bindS (onFst (modifyS (notePublish now nodeId serviceName address))) (\<lambda>_.
             returnS (respond 200)))
          (\<lambda>err. returnS (respond 500))))"

definition serviceRoutes :: "(HttpEndpoint \<times> MemStore, ServiceItem list) routes" where
  "serviceRoutes = [((''GET'', ''/service''), \<lambda>now. queryService), ((''POST'', ''/service''), publishService)]"

text \<open>One round of \<open>CheckPublishClients\<close>: the clients that are late lose their services.\<close>

definition late :: "int \<Rightarrow> HttpEndpoint \<Rightarrow> string list" where
  "late now e = mkeys (filter (\<lambda>(k, v). LastUpdate v < now - 10 * 1000) (publicClients e))"

definition dropClient :: "string \<Rightarrow> (HttpEndpoint \<times> MemStore, unit) prog" where
  "dropClient vv =
     bindS getS (\<lambda>(e, m).
       case mget (publicClients e) vv of
         None \<Rightarrow> (\<lambda>s. (Panic nil_deref, s))
       | Some p \<Rightarrow>
           bindS (forEach (\<lambda>(serviceName, v).
               tryS (onSnd (DeleteService serviceName \<lparr>Addr = v, NodeId = vv\<rparr>)) returnS (\<lambda>err. returnS ()))
             (Publishment p)) (\<lambda>_.
             modifyS (\<lambda>(e, m). (e\<lparr>publicClients := mdel vv (publicClients e)\<rparr>, m))))"

definition CheckPublishClients :: "int \<Rightarrow> (HttpEndpoint \<times> MemStore, unit) prog" where
  "CheckPublishClients now = bindS getS (\<lambda>(e, m). forEach dropClient (late now e))"

section \<open>Clients and services\<close>

lemma refused_untouched:
  "refused e r \<Longrightarrow> publishService now r (e, m) = (Ok (respond 401), (e, m))"
  "refused e r \<Longrightarrow> queryService r (e, m) = (Ok (respond 401), (e, m))"
  by (simp_all add: publishService_def queryService_def go_simps returnS_def Let_def)

lemma publishService_run:
  "\<not> refused e r \<Longrightarrow> publishService now r (e, m) =
     (Ok (respond 200), (notePublish now (FormValue r ''node'') (FormValue r ''name'') (FormValue r ''address'') e,
        snd (PublishService (FormValue r ''name'') \<lparr>Addr = FormValue r ''address'', NodeId = FormValue r ''node''\<rparr> m)))"
  by (simp add: publishService_def go_simps PublishService_run onSnd_def onFst_def tryS_def run_simps Let_def)

text \<open>
  The two halves of a publication take different locks, so other requests and the sweep may come
  between them. The last part of the state is the publications that are between the two.
\<close>

type_synonym publication = "string \<times> string \<times> string"
type_synonym endpoint_state = "(HttpEndpoint \<times> MemStore) \<times> publication list"

inductive endpoint_step :: "endpoint_state \<Rightarrow> endpoint_state \<Rightarrow> bool" where
  publish: "PublishService s \<lparr>Addr = a, NodeId = n\<rparr> m = (Ok (), m') \<Longrightarrow>
    endpoint_step ((e, m), F) ((e, m'), (s, n, a) # F)"
| finish: "endpoint_step ((e, m), F1 @ (s, n, a) # F2) ((notePublish now n s a e, m), F1 @ F2)"
| sweep: "CheckPublishClients now (e, m) = (Ok (), em') \<Longrightarrow> endpoint_step ((e, m), F) (em', F)"
| query: "queryService r (e, m) = (x, em') \<Longrightarrow> endpoint_step ((e, m), F) (em', F)"

text \<open>Every service the node publishes has a client that answers for it.\<close>

definition answers :: "HttpEndpoint \<Rightarrow> publication list \<Rightarrow> string \<Rightarrow> string \<Rightarrow> bool" where
  "answers e F s n \<longleftrightarrow>
     (\<exists>p. mget (publicClients e) n = Some p \<and> mget (Publishment p) s \<noteq> None) \<or> (\<exists>a. (s, n, a) \<in> set F)"

definition accounted :: "endpoint_state \<Rightarrow> bool" where
  "accounted st \<longleftrightarrow> (case st of ((e, m), F) \<Rightarrow> mwf (publicClients e)
     \<and> (\<forall>s n. abs_svc (currentServices m) (s, n) \<noteq> None \<longrightarrow> answers e F s n))"

lemma answers_more: "answers e F s n \<Longrightarrow> answers e (x # F) s n" "answers e ((s, n, a) # F) s n"
  by (auto simp: answers_def)

lemma answers_noted:
  "answers e (F1 @ (s, n, a) # F2) s' n' \<Longrightarrow> answers (notePublish now n s a e) (F1 @ F2) s' n'"
  by (cases "mget (publicClients e) n") (auto simp: answers_def notePublish_def Let_def)

lemma answers_dropped:
  assumes "answers e F s n" "mget (publicClients e) v = Some p" "\<not> (n = v \<and> mget (Publishment p) s \<noteq> None)"
  shows "answers (e\<lparr>publicClients := mdel v (publicClients e)\<rparr>) F s n"
  using assms by (auto simp: answers_def)

lemma delete_all:
  "forEach (\<lambda>(s, v). tryS (onSnd (DeleteService s \<lparr>Addr = v, NodeId = n\<rparr>)) returnS (\<lambda>err. returnS ())) ps (e, m) = (r, em') \<Longrightarrow>
    r = Ok () \<and> fst em' = e \<and> (\<forall>s n'. abs_svc (currentServices (snd em')) (s, n') =
      (if n' = n \<and> mget ps s \<noteq> None then None else abs_svc (currentServices m) (s, n')))"
proof (induction ps arbitrary: m)
  case Nil
  then show ?case by (auto simp: returnS_def)
next
  case (Cons x ps)
  obtain s v where x: "x = (s, v)" by fastforce
  let ?m = "snd (DeleteService s \<lparr>Addr = v, NodeId = n\<rparr> m)"
  have "forEach (\<lambda>(s, v). tryS (onSnd (DeleteService s \<lparr>Addr = v, NodeId = n\<rparr>)) returnS (\<lambda>err. returnS ())) ps (e, ?m) = (r, em')"
    using Cons.prems unfolding x forEach.simps prod.case
    by (subst (asm) bindS_Ok) (simp_all add: tryS_def onSnd_def DeleteService_run returnS_def)
  from Cons.IH[OF this] show ?case
    by (auto simp: x DeleteService_run del_service_abs)
qed

lemma dropClient_run:
  assumes "mget (publicClients e) vv = Some p"
  shows "\<exists>m'. dropClient vv (e, m) = (Ok (), (e\<lparr>publicClients := mdel vv (publicClients e)\<rparr>, m'))
    \<and> (\<forall>s n. abs_svc (currentServices m') (s, n) =
        (if n = vv \<and> mget (Publishment p) s \<noteq> None then None else abs_svc (currentServices m) (s, n)))"
proof -
  let ?loop = "forEach (\<lambda>(s, v). tryS (onSnd (DeleteService s \<lparr>Addr = v, NodeId = vv\<rparr>)) returnS (\<lambda>err. returnS ())) (Publishment p)"
  obtain r e1 m1 where l: "?loop (e, m) = (r, (e1, m1))" by (metis prod.collapse)
  note d = delete_all[OF l]
  have "dropClient vv (e, m) = (Ok (), (e\<lparr>publicClients := mdel vv (publicClients e)\<rparr>, m1))"
    using l d assms by (simp add: dropClient_def go_simps modifyS_def)
  then show ?thesis using d by auto
qed

lemma forEach_dropClient:
  assumes "distinct vs" "\<forall>v \<in> set vs. mget (publicClients e) v \<noteq> None" "accounted ((e, m), F)"
  shows "\<exists>e' m'. forEach dropClient vs (e, m) = (Ok (), (e', m')) \<and> accounted ((e', m'), F)
    \<and> (\<forall>n. mget (publicClients e') n = (if n \<in> set vs then None else mget (publicClients e) n))"
  using assms
proof (induction vs arbitrary: e m)
  case Nil
  then show ?case by (auto simp: returnS_def)
next
  case (Cons v vs)
  obtain p where p: "mget (publicClients e) v = Some p" using Cons.prems(2) by auto
  let ?e = "e\<lparr>publicClients := mdel v (publicClients e)\<rparr>"
  obtain m1 where m1: "dropClient v (e, m) = (Ok (), (?e, m1))"
    "\<forall>s n. abs_svc (currentServices m1) (s, n) =
        (if n = v \<and> mget (Publishment p) s \<noteq> None then None else abs_svc (currentServices m) (s, n))"
    using dropClient_run[OF p] by blast
  have acc: "accounted ((?e, m1), F)"
    using Cons.prems(3) m1(2) answers_dropped[OF _ p] by (auto simp: accounted_def split: if_splits)
  have "\<forall>w \<in> set vs. mget (publicClients ?e) w \<noteq> None" using Cons.prems(1,2) by auto
  then obtain e' m' where "forEach dropClient vs (?e, m1) = (Ok (), (e', m'))" "accounted ((e', m'), F)"
    "\<forall>n. mget (publicClients e') n = (if n \<in> set vs then None else mget (publicClients ?e) n)"
    using Cons.IH[OF _ _ acc] Cons.prems(1) by auto
  then show ?case using m1(1) by (auto simp: bindS_def)
qed

lemma late_props:
  assumes "mwf (publicClients e)"
  shows "distinct (late now e)" "\<forall>v \<in> set (late now e). mget (publicClients e) v \<noteq> None"
    and "n \<in> set (late now e) \<longleftrightarrow> (\<exists>p. mget (publicClients e) n = Some p \<and> LastUpdate p < now - 10000)"
proof -
  show "distinct (late now e)" using assms by (simp add: late_def distinct_map_filter)
  show mem: "n \<in> set (late now e) \<longleftrightarrow> (\<exists>p. mget (publicClients e) n = Some p \<and> LastUpdate p < now - 10000)" for n
    using assms by (force simp: late_def dest: map_of_SomeD intro: map_of_is_SomeI)
  show "\<forall>v \<in> set (late now e). mget (publicClients e) v \<noteq> None" using mem by auto
qed

lemma CheckPublishClients_run:
  assumes "accounted ((e, m), F)"
  shows "\<exists>e' m'. CheckPublishClients now (e, m) = (Ok (), (e', m')) \<and> accounted ((e', m'), F)
    \<and> (\<forall>n p. mget (publicClients e') n = Some p \<longrightarrow> now - 10000 \<le> LastUpdate p)"
proof -
  have wf: "mwf (publicClients e)" using assms by (simp add: accounted_def)
  obtain e' m' where "forEach dropClient (late now e) (e, m) = (Ok (), (e', m'))" "accounted ((e', m'), F)"
    "\<forall>n. mget (publicClients e') n = (if n \<in> set (late now e) then None else mget (publicClients e) n)"
    using forEach_dropClient[OF late_props(1,2)[OF wf] assms] by blast
  then show ?thesis using late_props(3)[OF wf]
    by (fastforce simp: CheckPublishClients_def go_simps)
qed

lemma queryService_state: "queryService r (e, m) = (x, em') \<Longrightarrow> em' = (e, m)"
  by (auto simp: queryService_def go_simps tryS_def onSnd_def returnS_def GetServiceList_def getS_def
      split: if_splits option.splits)

lemma accounted_publish:
  assumes "accounted ((e, m), F)" "PublishService s \<lparr>Addr = a, NodeId = n\<rparr> m = (Ok (), m')"
  shows "accounted ((e, m'), (s, n, a) # F)"
  using assms by (auto simp: accounted_def PublishService_run put_service_abs answers_more split: if_splits)

lemma accounted_finish:
  "accounted ((e, m), F1 @ (s, n, a) # F2) \<Longrightarrow> accounted ((notePublish now n s a e, m), F1 @ F2)"
  by (auto simp: accounted_def answers_noted) (simp add: notePublish_def Let_def)

lemma endpoint_step_accounted: "endpoint_step st st' \<Longrightarrow> accounted st \<Longrightarrow> accounted st'"
proof (induction rule: endpoint_step.induct)
  case (sweep now e m em' F)
  then show ?case using CheckPublishClients_run[OF sweep.prems, of now] by auto
next
  case (query r e m x em' F)
  then show ?case using queryService_state by blast
qed (blast intro: accounted_publish accounted_finish)+

section \<open>Properties\<close>

text \<open>
  C13: a service never outlives the client that publishes it. In any interleaving of
  publications (whose two halves are separate steps), queries and sweeps, after a sweep every
  service the node publishes belongs to a client heard of in the last ten seconds, or to a
  publication that is still between its halves. The sweep itself always completes.
\<close>

theorem sweep_expires_services:
  assumes "endpoint_step\<^sup>*\<^sup>* ((NewHttpEndpoint auth pw, NewMemStore), []) ((e, m), F)"
  shows "\<exists>e' m'. CheckPublishClients now (e, m) = (Ok (), (e', m'))
    \<and> (\<forall>s n a. abs_svc (currentServices m') (s, n) = Some a \<longrightarrow>
        (\<exists>p. mget (publicClients e') n = Some p \<and> mget (Publishment p) s \<noteq> None \<and> now - 10000 \<le> LastUpdate p)
        \<or> (\<exists>a'. (s, n, a') \<in> set F))"
proof -
  have "accounted ((e, m), F)"
    using assms
  proof (induction rule: rtranclp_induct)
    case base
    then show ?case by (simp add: accounted_def NewHttpEndpoint_def NewMemStore_def abs_svc_def)
  qed (rule endpoint_step_accounted)
  then obtain e' m' where run: "CheckPublishClients now (e, m) = (Ok (), (e', m'))" "accounted ((e', m'), F)"
    "\<forall>n p. mget (publicClients e') n = Some p \<longrightarrow> now - 10000 \<le> LastUpdate p"
    using CheckPublishClients_run by blast
  have "answers e' F s n" if "abs_svc (currentServices m') (s, n) = Some a" for s n a
    using run(2) that by (simp add: accounted_def)
  then show ?thesis using run(1,3) unfolding answers_def by blast
qed

theorem sweep_expires_services_witness:
  "\<exists>e' m'. CheckPublishClients 20000 (notePublish 0 ''n1'' ''svc'' ''10.0.0.1:80'' (NewHttpEndpoint False []),
      snd (PublishService ''svc'' \<lparr>Addr = ''10.0.0.1:80'', NodeId = ''n1''\<rparr> NewMemStore)) = (Ok (), (e', m'))
    \<and> (\<forall>s n a. abs_svc (currentServices m') (s, n) = Some a \<longrightarrow>
        (\<exists>p. mget (publicClients e') n = Some p \<and> mget (Publishment p) s \<noteq> None \<and> 10000 \<le> LastUpdate p))"
proof -
  let ?item = "\<lparr>Addr = ''10.0.0.1:80'', NodeId = ''n1''\<rparr>" and ?e = "NewHttpEndpoint False []"
  let ?m = "snd (PublishService ''svc'' ?item NewMemStore)"
  have 1: "endpoint_step ((?e, NewMemStore), []) ((?e, ?m), [(''svc'', ''n1'', ''10.0.0.1:80'')])"
    by (rule endpoint_step.publish) (simp add: PublishService_run)
  have 2: "endpoint_step ((?e, ?m), [(''svc'', ''n1'', ''10.0.0.1:80'')])
      ((notePublish 0 ''n1'' ''svc'' ''10.0.0.1:80'' ?e, ?m), [])"
    using endpoint_step.finish[of ?e ?m "[]" "''svc''" "''n1''" "''10.0.0.1:80''" "[]" 0] by simp
  have "endpoint_step\<^sup>*\<^sup>* ((?e, NewMemStore), []) ((notePublish 0 ''n1'' ''svc'' ''10.0.0.1:80'' ?e, ?m), [])"
    using 1 2 by (meson rtranclp.rtrancl_into_rtrancl rtranclp.rtrancl_refl)
  from sweep_expires_services[OF this, of 20000] show ?thesis by simp
qed

text \<open>
  C23: with authentication on, a request without the password reads and changes nothing: the
  answer is 401 without a body, and both the store and the table of clients stay as they are. Any
  other publication answers 200 and is the one that is then listed.
\<close>

theorem unauthorized_request_refused:
  "(refused e r \<longrightarrow> publishService now r (e, m) = (Ok (respond 401), (e, m))
      \<and> queryService r (e, m) = (Ok (respond 401), (e, m)))
   \<and> (\<not> refused e r \<longrightarrow> (\<exists>e' m'. publishService now r (e, m) = (Ok (respond 200), (e', m'))
      \<and> abs_svc (services m') (FormValue r ''name'', FormValue r ''node'') = Some (FormValue r ''address'')
      \<and> (\<exists>p. mget (publicClients e') (FormValue r ''node'') = Some p \<and> LastUpdate p = now
            \<and> mget (Publishment p) (FormValue r ''name'') = Some (FormValue r ''address''))))"
  using refused_untouched[of e r] publishService_run[of e r now m]
  by (auto simp: PublishService_run put_service_abs notePublish_def Let_def)

theorem unauthorized_request_refused_witness:
  "publishService 5 \<lparr>FormValue = (\<lambda>_. ''x''), Header = (\<lambda>_. ''wrong'')\<rparr> (NewHttpEndpoint True ''secret'', NewMemStore)
    = (Ok (respond 401), (NewHttpEndpoint True ''secret'', NewMemStore))"
  using unauthorized_request_refused[of "NewHttpEndpoint True ''secret''"
      "\<lparr>FormValue = (\<lambda>_. ''x''), Header = (\<lambda>_. ''wrong'')\<rparr>" 5 NewMemStore]
  by (simp add: refused_def NewHttpEndpoint_def)

end
