(* ===== verification/Ha_Module.thy ===== *)
theory Ha_Module
  imports Http_Endpoint
begin

text \<open>
  The replication module of a node (\<open>core.ha.go\<close>, \<open>core.ha.peertalk.go\<close>): the handlers that serve
  a peer with their routes, the health check of the peers, the worker that stores what the peers
  sent, and the worker that follows one peer. The state of the serving side is the module with
  the store of its node. The following side works on its own store and on the network, which is
  what the HTTP client of the library (\<open>resty\<close>) acts on; the time of a call and the random
  numbers are arguments.
\<close>

section \<open>The module\<close>

record HaModule =
  haNodeId :: string
  Listen :: string
  NodePeerMapping :: "(string, string) gomap"
  ClientPeerMapping :: "(string, int) gomap"
  ClusterName :: string
  ClusterSecret :: string

definition NewHaModule :: "string \<Rightarrow> string \<Rightarrow> string \<Rightarrow> string \<Rightarrow> (string, string) gomap \<Rightarrow> HaModule" where
  "NewHaModule node listen clusterName clusterSecret peerMapping =
     \<lparr>haNodeId = node, Listen = listen, NodePeerMapping = filter (\<lambda>(k, v). k \<noteq> node) peerMapping,
      ClientPeerMapping = [], ClusterName = clusterName, ClusterSecret = clusterSecret\<rparr>"

text \<open>
  The bodies of the answers, JSON text up to what the two clients make of it: a map of payloads,
  the pair of the changes (each map may be \<open>null\<close>), \<open>null\<close>, or text that both refuse.
\<close>

type_synonym payloads = "(string, payload) gomap"

datatype wire =
    WFull payloads
  | WInc "payloads option" "payloads option"
  | WNull
  | WBad

section \<open>Serving a peer\<close>

definition updateClientTime :: "int \<Rightarrow> string \<Rightarrow> bool \<Rightarrow> (HaModule, unit) prog" where
  "updateClientTime now nodeId failure =
     bindS getS (\<lambda>ha.
       if mget (ClientPeerMapping ha) nodeId = None \<and> failure then failS (ErrorMsg ''node not exist'')
       else modifyS (\<lambda>ha. ha\<lparr>ClientPeerMapping := mput nodeId now (ClientPeerMapping ha)\<rparr>))"

definition clusterMismatch :: "HaModule \<Rightarrow> HttpRequest \<Rightarrow> bool" where
  "clusterMismatch ha r \<longleftrightarrow>
     Header r ''X-Cluster-Name'' \<noteq> ClusterName ha \<or> Header r ''X-Cluster-Secret'' \<noteq> ClusterSecret ha"

definition httpClusterAuth :: "int \<Rightarrow> HttpRequest \<Rightarrow> (HaModule \<times> MemStore, wire HttpResponse) prog" where
  "httpClusterAuth now r =
     (let nodeId = FormValue r ''from'' in
      if nodeId = [] then returnS (respond 400)
      else tryS (onFst (updateClientTime now nodeId False)) (\<lambda>_.
        bindS getS (\<lambda>(ha, m).
          if clusterMismatch ha r then returnS (respond 401) else returnS (respond 200)))
        (\<lambda>err. returnS (respond 500)))"

definition httpClusterFull :: "int \<Rightarrow> HttpRequest \<Rightarrow> (HaModule \<times> MemStore, wire HttpResponse) prog" where
  "httpClusterFull now r =
     (let nodeId = FormValue r ''from'' in
      if nodeId = [] then returnS (respond 400)
      else tryS (onFst (updateClientTime now nodeId False)) (\<lambda>_.
        bindS getS (\<lambda>(ha, m).
          if clusterMismatch ha r then returnS (respond 401)
          else tryS (onSnd (FetchFullAndWatch nodeId))
            (\<lambda>dat. returnS \<lparr>Status = 200, Body = Some (WFull dat)\<rparr>)
            (\<lambda>err. returnS (respond 500))))
        (\<lambda>err. returnS (respond 500)))"

definition httpClusterIncremental :: "int \<Rightarrow> HttpRequest \<Rightarrow> (HaModule \<times> MemStore, wire HttpResponse) prog" where
  "httpClusterIncremental now r =
     (let nodeId = FormValue r ''from'' in
      if nodeId = [] then returnS (respond 400)
      else tryS (onFst (updateClientTime now nodeId True)) (\<lambda>_.
        bindS getS (\<lambda>(ha, m).
          if clusterMismatch ha r then returnS (respond 401)
          else tryS (onSnd (FetchChangesForPeerNodeRequest nodeId))
            (\<lambda>(add, del). returnS \<lparr>Status = 200, Body = Some (WInc (Some add) (Some del))\<rparr>)
            (\<lambda>err. returnS (respond 500))))
        (\<lambda>err. returnS (respond 500)))"

definition HttpAuth :: string where "HttpAuth = ''/cluster/auth''"
definition HttpFull :: string where "HttpFull = ''/cluster/full''"
definition HttpIncremental :: string where "HttpIncremental = ''/cluster/incremental''"

definition clusterRoutes :: "(HaModule \<times> MemStore, wire) routes" where
  "clusterRoutes =
     [((''POST'', HttpAuth), httpClusterAuth), ((''GET'', HttpFull), httpClusterFull),
      ((''GET'', HttpIncremental), httpClusterIncremental)]"

definition ServeHTTP ::
  "wire unrouted \<Rightarrow> int \<Rightarrow> string \<Rightarrow> string \<Rightarrow> HttpRequest \<Rightarrow> (HaModule \<times> MemStore, wire HttpResponse) prog" where
  "ServeHTTP other = routerServe other clusterRoutes"

text \<open>One round of \<open>CheckPeerHealth\<close>.\<close>

definition stalePeers :: "int \<Rightarrow> HaModule \<Rightarrow> string list" where
  "stalePeers now ha = mkeys (filter (\<lambda>(node, t). t < now - 20 * 1000) (ClientPeerMapping ha))"

definition CheckPeerHealth :: "int \<Rightarrow> (HaModule \<times> MemStore, unit) prog" where
  "CheckPeerHealth now =
     bindS getS (\<lambda>(ha, m).
     bindS (forEach (\<lambda>node. tryS (onSnd (Unwatch node)) returnS (\<lambda>err. returnS ())) (stalePeers now ha)) (\<lambda>_.
       onFst (modifyS (\<lambda>ha'. ha'\<lparr>ClientPeerMapping :=
         foldl (\<lambda>cm v. mdel v cm) (ClientPeerMapping ha') (stalePeers now ha)\<rparr>))))"

section \<open>Calling a peer\<close>

text \<open>What a call to the peer gives: no answer, or a status and a body.\<close>

datatype net = NetErr error | NetResp nat wire

text \<open>
  The libraries the calls rest on: \<open>dns.Fqdn\<close>, the parser and printer of URLs, and the HTTP client,
  which sends a request with a method to a URL.
\<close>

record url =
  Hostname :: string
  urlPort :: string
  urlHost :: string
  urlRest :: string

record 'w halib =
  haFqdn :: "string \<Rightarrow> string"
  Parse :: "string \<Rightarrow> url res"
  String :: "url \<Rightarrow> string"
  Do :: "string \<Rightarrow> string \<Rightarrow> HttpRequest \<Rightarrow> ('w, net) prog"

text \<open>The host of a peer is looked up in the storage of the node, with its nested stores.\<close>

definition innerUrlResolve :: "'w halib \<Rightarrow> resolver list \<Rightarrow> MemStore \<Rightarrow> string \<Rightarrow> string res" where
  "innerUrlResolve H nested m addr =
     bindR (must (Parse H addr)) (\<lambda>u.
       case ResolveDomain nested m (haFqdn H (Hostname u)) DomainTypeA of
         Ok r \<Rightarrow> Ok (String H (u\<lparr>urlHost := r @ '':'' @ urlPort u\<rparr>))
       | Err e \<Rightarrow> Ok (String H u)
       | Panic p \<Rightarrow> Panic p
       | Diverge \<Rightarrow> Diverge)"

definition clusterRequest :: "HaModule \<Rightarrow> HttpRequest" where
  "clusterRequest ha =
     \<lparr>FormValue = (\<lambda>k. if k = ''from'' then haNodeId ha else []),
      Header = (\<lambda>h. if h = ''X-Cluster-Name'' then ClusterName ha
                 else if h = ''X-Cluster-Secret'' then ClusterSecret ha
                 else if h = ''Accept'' \<or> h = ''Content-Type'' then ''application/json''
                 else [])\<rparr>"

definition callPeer ::
  "'w halib \<Rightarrow> resolver list \<Rightarrow> HaModule \<Rightarrow> string \<Rightarrow> string \<Rightarrow> string \<Rightarrow> string \<Rightarrow> (MemStore \<times> 'w, wire) prog" where
  "callPeer H nested ha meth addr path failure =
     bindS getS (\<lambda>(m, _).
     bindS (liftR (innerUrlResolve H nested m addr)) (\<lambda>u.
     bindS (onSnd (Do H meth (u @ path) (clusterRequest ha))) (\<lambda>resp.
       case resp of
         NetErr e \<Rightarrow> failS e
       | NetResp code body \<Rightarrow> if code \<noteq> 200 then failS (ErrorMsg failure) else returnS body)))"

definition connectRemote :: "'w halib \<Rightarrow> resolver list \<Rightarrow> HaModule \<Rightarrow> string \<Rightarrow> (MemStore \<times> 'w, unit) prog" where
  "connectRemote H nested ha host =
     bindS (callPeer H nested ha ''POST'' host HttpAuth ''cluster auth failed'') (\<lambda>_. returnS ())"

text \<open>
  Of an object of changes, a \<open>null\<close> is decoded to empty bytes, which are no JSON text, and an object
  is not bytes.
\<close>

definition decodeFull :: "wire \<Rightarrow> payloads option res" where
  "decodeFull w =
     (case w of
        WFull m \<Rightarrow> Ok (Some m)
      | WNull \<Rightarrow> Ok None
      | WInc a d \<Rightarrow> if a = None \<and> d = None then Ok (Some [(''add'', PBad), (''del'', PBad)]) else Err json_err
      | WBad \<Rightarrow> Err json_err)"

text \<open>The keys \<open>add\<close> and \<open>del\<close> of an object are matched in any letter case; the others are ignored.\<close>

definition decodeInc :: "wire \<Rightarrow> (payloads option \<times> payloads option) res" where
  "decodeInc w =
     (case w of
        WInc a d \<Rightarrow> Ok (a, d)
      | WNull \<Rightarrow> Ok (None, None)
      | WFull m \<Rightarrow> if \<exists>k \<in> set (mkeys m). ToLower k \<in> {''add'', ''del''} then Err json_err else Ok (None, None)
      | WBad \<Rightarrow> Err json_err)"

definition queryFullDataSet ::
  "'w halib \<Rightarrow> resolver list \<Rightarrow> HaModule \<Rightarrow> string \<Rightarrow> (MemStore \<times> 'w, payloads option) prog" where
  "queryFullDataSet H nested ha addr =
     bindS (callPeer H nested ha ''GET'' addr HttpFull ''cluster full failed'') (\<lambda>data. liftR (decodeFull data))"

definition queryIncrementalData ::
  "'w halib \<Rightarrow> resolver list \<Rightarrow> HaModule \<Rightarrow> string \<Rightarrow> (MemStore \<times> 'w, payloads option \<times> payloads option) prog" where
  "queryIncrementalData H nested ha addr =
     bindS (callPeer H nested ha ''GET'' addr HttpIncremental ''cluster incremental failed'') (\<lambda>data.
       liftR (decodeInc data))"

section \<open>Following a peer\<close>

record SyncReq =
  reqNodeId :: string
  reqFull :: "payloads option"
  reqAdd :: "payloads option"
  reqDel :: "payloads option"

definition newSyncReq :: "string \<Rightarrow> SyncReq" where
  "newSyncReq nodeId = \<lparr>reqNodeId = nodeId, reqFull = None, reqAdd = None, reqDel = None\<rparr>"

definition map_or_empty :: "payloads option \<Rightarrow> payloads" where
  "map_or_empty m = (case m of None \<Rightarrow> [] | Some m \<Rightarrow> m)"

text \<open>
  One round of \<open>ProcessSyncWorker\<close>: what it sends on the channel of the request, \<open>None\<close> when it
  sends nothing.
\<close>

definition ProcessSyncWorker :: "SyncReq \<Rightarrow> (MemStore, error option option) prog" where
  "ProcessSyncWorker req =
     (case reqFull req of
        Some full \<Rightarrow> tryS (FullFrom (reqNodeId req) full) (\<lambda>_. returnS (Some None)) (\<lambda>err. returnS (Some (Some err)))
      | None \<Rightarrow>
          if reqAdd req \<noteq> None \<or> reqDel req \<noteq> None then
            tryS (SyncFrom (reqNodeId req) (reqNodeId req) (map_or_empty (reqAdd req)) (map_or_empty (reqDel req)))
              (\<lambda>_. returnS (Some None)) (\<lambda>err. returnS (Some (Some err)))
          else returnS None)"

text \<open>
  The states of \<open>PeerSyncWorker\<close> between its sleeps: at the head of the outer loop, or at the head
  of the inner one with its two counters. One round takes the random number. Waiting for an
  answer of the storing worker that never comes does not return.
\<close>

datatype phase = MainLoop | NextTrigger int int

definition submit :: "SyncReq \<Rightarrow> phase \<Rightarrow> (MemStore \<times> 'w, phase) prog" where
  "submit req next =
     bindS (onFst (ProcessSyncWorker req)) (\<lambda>reply.
       case reply of
         None \<Rightarrow> (\<lambda>s. (Diverge, s))
       | Some None \<Rightarrow> returnS next
       | Some (Some err) \<Rightarrow> returnS MainLoop)"

text \<open>
  The full request, with which both loops go on: the counter of the queries starts again, the one
  of the retries is as it was.
\<close>

definition fullRound ::
  "'w halib \<Rightarrow> resolver list \<Rightarrow> HaModule \<Rightarrow> string \<Rightarrow> string \<Rightarrow> int \<Rightarrow> (MemStore \<times> 'w, phase) prog" where
  "fullRound H nested ha addr peer retryCnt =
     tryS (queryFullDataSet H nested ha addr)
       (\<lambda>dat. submit ((newSyncReq peer)\<lparr>reqFull := dat\<rparr>) (NextTrigger 0 retryCnt))
       (\<lambda>err. returnS MainLoop)"

fun PeerSyncWorker ::
  "'w halib \<Rightarrow> resolver list \<Rightarrow> HaModule \<Rightarrow> string \<Rightarrow> string \<Rightarrow> int \<Rightarrow> phase \<Rightarrow> (MemStore \<times> 'w, phase) prog" where
  "PeerSyncWorker H nested ha addr peer randIntn MainLoop =
     tryS (onFst (Abandon peer))
       (\<lambda>_. tryS (connectRemote H nested ha addr)
          (\<lambda>_. fullRound H nested ha addr peer 0)
          (\<lambda>err. returnS MainLoop))
       (\<lambda>err. returnS MainLoop)"
| "PeerSyncWorker H nested ha addr peer randIntn (NextTrigger queryCount retryCnt) =
     (if queryCount < randIntn + 590 then
        tryS (queryIncrementalData H nested ha addr)
          (\<lambda>(add, del). submit ((newSyncReq peer)\<lparr>reqAdd := add, reqDel := del\<rparr>) (NextTrigger (queryCount + 1) 0))
          (\<lambda>err. if retryCnt + 1 > 10 then returnS MainLoop else returnS (NextTrigger queryCount (retryCnt + 1)))
      else fullRound H nested ha addr peer retryCnt)"

section \<open>Start\<close>

text \<open>The goroutines of the module, and the listener, which returns only when it fails.\<close>

datatype goroutine = GoProcessSyncWorker | GoPeerSyncWorker string string | GoCheckPeerHealth

definition HaEndpoint :: "'w halib \<Rightarrow> (string \<Rightarrow> unit res) \<Rightarrow> HaModule \<Rightarrow> unit res" where
  "HaEndpoint H ListenAndServe ha =
     bindR (must (Parse H (Listen ha))) (\<lambda>u. must (ListenAndServe (urlHost u)))"

definition HaStartSync :: "'w halib \<Rightarrow> (string \<Rightarrow> unit res) \<Rightarrow> HaModule \<Rightarrow> goroutine list \<times> unit res" where
  "HaStartSync H ListenAndServe ha =
     (GoProcessSyncWorker # map (\<lambda>(node, peer). GoPeerSyncWorker peer node) (NodePeerMapping ha) @ [GoCheckPeerHealth],
      HaEndpoint H ListenAndServe ha)"

end
