(* ===== verification/Ha_Link.thy ===== *)
theory Ha_Link
  imports Ha_Module
begin

text \<open>
  Properties of replication. A link is a source node, a node that follows it, and the answer that
  is on its way between them; its steps are the requests of the follower, served by the handlers,
  the storing of an answer, the loss of one, and everything else the two stores and the table of
  peers do meanwhile.
\<close>

section \<open>Handlers\<close>

definition full_ok :: "HaModule \<Rightarrow> HttpRequest \<Rightarrow> bool" where
  "full_ok ha r \<longleftrightarrow> FormValue r ''from'' \<noteq> [] \<and> \<not> clusterMismatch ha r"

lemma updateClientTime_run:
  "updateClientTime now n failure ha =
     (if mget (ClientPeerMapping ha) n = None \<and> failure then (Err (ErrorMsg ''node not exist''), ha)
      else (Ok (), ha\<lparr>ClientPeerMapping := mput n now (ClientPeerMapping ha)\<rparr>))"
  by (simp add: updateClientTime_def run_simps)

lemma clusterMismatch_time [simp]:
  "clusterMismatch (ha\<lparr>ClientPeerMapping := cm\<rparr>) r = clusterMismatch ha r"
  by (simp add: clusterMismatch_def)

lemma httpClusterFull_run:
  "httpClusterFull now r (ha, m) =
     (let n = FormValue r ''from''; ha' = ha\<lparr>ClientPeerMapping := mput n now (ClientPeerMapping ha)\<rparr> in
      if n = [] then (Ok (respond 400), (ha, m))
      else if clusterMismatch ha r then (Ok (respond 401), (ha', m))
      else (Ok \<lparr>Status = 200, Body = Some (WFull [(DefaultDataKey, marshalNode (currentServices m))])\<rparr>,
            (ha', snd (FetchFullAndWatch n m))))"
  by (simp add: httpClusterFull_def Let_def tryS_def onFst_def onSnd_def updateClientTime_run
      FetchFullAndWatch_run run_simps)

lemma httpClusterIncremental_run:
  "httpClusterIncremental now r (ha, m) =
     (let n = FormValue r ''from''; ha' = ha\<lparr>ClientPeerMapping := mput n now (ClientPeerMapping ha)\<rparr> in
      if n = [] then (Ok (respond 400), (ha, m))
      else if mget (ClientPeerMapping ha) n = None then (Ok (respond 500), (ha, m))
      else if clusterMismatch ha r then (Ok (respond 401), (ha', m))
      else case mget (dataTo m) n of
        None \<Rightarrow> (Ok (respond 500), (ha', m))
      | Some c \<Rightarrow> (Ok \<lparr>Status = 200, Body = Some (WInc (Some [(DefaultDataKey, marshalList (Add c))])
                          (Some [(DefaultDataKey, marshalList (Del c))]))\<rparr>,
          (ha', m\<lparr>dataTo := mput n no_changes (dataTo m)\<rparr>)))"
  by (simp add: httpClusterIncremental_def Let_def tryS_def onFst_def onSnd_def updateClientTime_run
      FetchChanges_run run_simps split: option.splits)

section \<open>The link\<close>

text \<open>
  The last two components are bookkeeping of the model. \<open>valid\<close> belongs to the answer on its way:
  the source has watched for the follower since it was made. \<open>good\<close> says that the follower's copy
  rests on a full copy and that no answer with changes has been lost since.
\<close>

record link =
  srcHa :: HaModule
  src :: MemStore
  dst :: MemStore
  flight :: "wire option"
  valid :: bool
  good :: bool

text \<open>The operations of the follower's store that do not concern its copy of \<open>node\<close>.\<close>

inductive other_step :: "string \<Rightarrow> MemStore \<Rightarrow> MemStore \<Rightarrow> bool" for node where
  publish: "PublishService s item m = (r, m') \<Longrightarrow> other_step node m m'"
| delete: "DeleteService s item m = (r, m') \<Longrightarrow> other_step node m m'"
| full_from: "FullFrom n dat m = (r, m') \<Longrightarrow> \<forall>p \<in> snd ` set dat. payload_wf p \<Longrightarrow> n \<noteq> node \<Longrightarrow> other_step node m m'"
| sync_from: "SyncFrom n n' add del m = (r, m') \<Longrightarrow> n \<noteq> node \<Longrightarrow> other_step node m m'"
| abandon: "Abandon n m = (r, m') \<Longrightarrow> n \<noteq> node \<Longrightarrow> other_step node m m'"
| fetch_full: "FetchFullAndWatch n m = (r, m') \<Longrightarrow> other_step node m m'"
| fetch_changes: "FetchChangesForPeerNodeRequest n m = (r, m') \<Longrightarrow> other_step node m m'"
| unwatch: "Unwatch n m = (r, m') \<Longrightarrow> other_step node m m'"
| put_domain: "PutDomain Fqdn domain resolve t m = (r, m') \<Longrightarrow> other_step node m m'"

text \<open>What the follower submits for an answer it received.\<close>

definition requestOf :: "string \<Rightarrow> wire \<Rightarrow> SyncReq" where
  "requestOf node w =
     (case w of
        WFull m \<Rightarrow> (newSyncReq node)\<lparr>reqFull := Some m\<rparr>
      | WInc a d \<Rightarrow> (newSyncReq node)\<lparr>reqAdd := a, reqDel := d\<rparr>
      | _ \<Rightarrow> newSyncReq node)"

fun is_full :: "wire \<Rightarrow> bool" where
  "is_full (WFull m) = True"
| "is_full _ = False"

inductive link_step :: "string \<Rightarrow> string \<Rightarrow> link \<Rightarrow> link \<Rightarrow> bool" for node peer where
  source: "store_step peer (src l) m \<Longrightarrow> link_step node peer l (l\<lparr>src := m\<rparr>)"
| follower: "other_step node (dst l) m \<Longrightarrow> link_step node peer l (l\<lparr>dst := m\<rparr>)"
| fetch_full: "flight l = None \<Longrightarrow> FormValue r ''from'' = peer \<Longrightarrow>
    httpClusterFull now r (srcHa l, src l) = (Ok \<lparr>Status = 200, Body = Some w\<rparr>, (ha, m)) \<Longrightarrow>
    link_step node peer l (l\<lparr>srcHa := ha, src := m, flight := Some w, valid := True\<rparr>)"
| fetch_inc: "flight l = None \<Longrightarrow> FormValue r ''from'' = peer \<Longrightarrow>
    httpClusterIncremental now r (srcHa l, src l) = (Ok \<lparr>Status = 200, Body = Some w\<rparr>, (ha, m)) \<Longrightarrow>
    link_step node peer l (l\<lparr>srcHa := ha, src := m, flight := Some w, valid := True\<rparr>)"
| deliver: "flight l = Some w \<Longrightarrow> ProcessSyncWorker (requestOf node w) (dst l) = (Ok reply, m) \<Longrightarrow>
    link_step node peer l (l\<lparr>dst := m, flight := None, good := (if is_full w then valid l else good l)\<rparr>)"
| lose: "flight l = Some w \<Longrightarrow> link_step node peer l (l\<lparr>flight := None, good := (good l \<and> is_full w)\<rparr>)"
| unwatch: "Unwatch peer (src l) = (r, m) \<Longrightarrow> link_step node peer l (l\<lparr>src := m, good := False, valid := False\<rparr>)"
| abandon: "Abandon node (dst l) = (r, m) \<Longrightarrow> link_step node peer l (l\<lparr>dst := m, good := False\<rparr>)"
| peers: "link_step node peer l (l\<lparr>srcHa := (srcHa l)\<lparr>ClientPeerMapping := cm\<rparr>\<rparr>)"

definition newLink :: "HaModule \<Rightarrow> link" where
  "newLink ha = \<lparr>srcHa = ha, src = NewMemStore, dst = NewMemStore, flight = None, valid = False, good = False\<rparr>"

inductive_cases other_stepE: "other_step node m m'"
inductive_cases link_stepE: "link_step node peer l l'"

section \<open>The invariant\<close>

text \<open>What the follower's copy becomes once the answer on its way is stored.\<close>

definition upcoming :: "wire option \<Rightarrow> registry \<Rightarrow> registry \<Rightarrow> bool" where
  "upcoming f r r' \<longleftrightarrow>
     (case f of
        Some (WInc a d) \<Rightarrow> \<exists>c :: pending. a = Some [(DefaultDataKey, marshalList (Add c))]
          \<and> d = Some [(DefaultDataKey, marshalList (Del c))] \<and> r' = delta c r
      | _ \<Rightarrow> r' = r)"

definition flight_ok :: "link \<Rightarrow> string \<Rightarrow> bool" where
  "flight_ok l peer \<longleftrightarrow>
     (case flight l of
        None \<Rightarrow> True
      | Some (WFull m) \<Rightarrow> \<exists>sm. m = [(DefaultDataKey, marshalNode sm)] \<and> svc_wf sm
          \<and> (valid l \<longrightarrow> (\<exists>c. mget (dataTo (src l)) peer = Some c \<and> delta c (abs_svc sm) = abs_svc (currentServices (src l))))
      | Some (WInc a d) \<Rightarrow> \<exists>c :: pending. a = Some [(DefaultDataKey, marshalList (Add c))] \<and> d = Some [(DefaultDataKey, marshalList (Del c))]
      | _ \<Rightarrow> False)"

definition copy_ok :: "link \<Rightarrow> string \<Rightarrow> string \<Rightarrow> bool" where
  "copy_ok l node peer \<longleftrightarrow>
     (\<exists>c nd r'. mget (dataTo (src l)) peer = Some c \<and> mget (dataFrom (dst l)) node = Some nd
        \<and> recv_ok (ServiceMapping nd) \<and> upcoming (flight l) (abs_recv (ServiceMapping nd)) r'
        \<and> delta c r' = abs_svc (currentServices (src l)))"

definition link_inv :: "string \<Rightarrow> string \<Rightarrow> link \<Rightarrow> bool" where
  "link_inv node peer l \<longleftrightarrow> mem_inv (src l) \<and> mem_wf (dst l) \<and> flight_ok l peer \<and> (good l \<longrightarrow> copy_ok l node peer)"

lemma dataFrom_other:
  "FullFrom n dat m = (r, m') \<Longrightarrow> n \<noteq> node \<Longrightarrow> mget (dataFrom m') node = mget (dataFrom m) node"
  "SyncFrom n n' add del m = (r, m') \<Longrightarrow> n \<noteq> node \<Longrightarrow> mget (dataFrom m') node = mget (dataFrom m) node"
  "Abandon n m = (r, m') \<Longrightarrow> n \<noteq> node \<Longrightarrow> mget (dataFrom m') node = mget (dataFrom m) node"
proof -
  show "FullFrom n dat m = (r, m') \<Longrightarrow> n \<noteq> node \<Longrightarrow> mget (dataFrom m') node = mget (dataFrom m) node"
    by (cases "memNodeDataUnmarshall (the (mget dat DefaultDataKey))")
      (auto simp: FullFrom_def run_simps buildMemData_def split: option.splits)
  show "SyncFrom n n' add del m = (r, m') \<Longrightarrow> n \<noteq> node \<Longrightarrow> mget (dataFrom m') node = mget (dataFrom m) node"
    by (auto simp: SyncFrom_def run_simps buildMemData_def onMapping_def split: option.splits res.splits prod.splits)
  show "Abandon n m = (r, m') \<Longrightarrow> n \<noteq> node \<Longrightarrow> mget (dataFrom m') node = mget (dataFrom m) node"
    by (auto simp: Abandon_def run_simps buildMemData_def split: if_splits)
qed

lemma other_step_keeps:
  assumes "other_step node m m'"
  shows "mem_wf m \<Longrightarrow> mem_wf m'" "mget (dataFrom m') node = mget (dataFrom m) node"
proof -
  have q: "quiet_step m m' \<Longrightarrow> mem_wf m \<Longrightarrow> mem_wf m'" by (simp add: quiet_step_def)
  show "mem_wf m'" if "mem_wf m"
    using assms
  proof cases
    case (publish s item r)
    then show ?thesis using that by (auto simp: PublishService_run intro!: mem_wf_update put_service_wf dest: mem_wfD)
  next
    case (delete s item r)
    then show ?thesis using that by (auto simp: DeleteService_run intro!: mem_wf_update del_service_wf dest: mem_wfD)
  qed (use that q in \<open>auto simp: FetchFullAndWatch_run FetchChanges_run Unwatch_def PutDomain_def modifyS_def Let_def
      mem_wf_def[of "m\<lparr>dataTo := x\<rparr>" for x] mem_wf_def[of "m\<lparr>staticDomainMapping := x\<rparr>" for x] mem_wf_def[of m]
      split: option.splits if_splits dest: FullFrom_quiet SyncFrom_quiet Abandon_quiet\<close>)
  show "mget (dataFrom m') node = mget (dataFrom m) node"
    using assms
    by cases (auto simp: PublishService_run DeleteService_run FetchFullAndWatch_run FetchChanges_run Unwatch_def
        PutDomain_def modifyS_def Let_def dataFrom_other split: option.splits if_splits)
qed

lemma upcoming_full: "upcoming (Some (WFull m)) r r' \<longleftrightarrow> r' = r" "upcoming None r r' \<longleftrightarrow> r' = r"
  by (simp_all add: upcoming_def)

lemma upcoming_inc:
  "upcoming (Some (WInc (Some [(DefaultDataKey, marshalList (Add c))]) (Some [(DefaultDataKey, marshalList (Del c))]))) r r'
    \<longleftrightarrow> r' = delta c r"
proof -
  have inj: "marshalList x = marshalList y \<longleftrightarrow> x = y" for x y
    by (auto simp: marshalList_def dest: map_injective)
  have "\<exists>c'. Add c = Add c' \<and> Del c = Del c' \<and> r' = delta c' r" if "r' = delta c r" using that by blast
  then show ?thesis by (auto simp: upcoming_def inj delta_def)
qed

lemma flight_ok_frame:
  "flight l' = flight l \<Longrightarrow> valid l' = valid l \<Longrightarrow> src l' = src l \<Longrightarrow> flight_ok l' peer = flight_ok l peer"
  unfolding flight_ok_def by (simp only:)

lemma source_inv:
  assumes "store_step peer (src l) m" "link_inv node peer l"
  shows "link_inv node peer (l\<lparr>src := m\<rparr>)"
proof -
  have inv: "mem_inv (src l)" using assms(2) by (simp add: link_inv_def)
  note ex = store_step_exact[OF assms(1) inv]
  have "flight_ok (l\<lparr>src := m\<rparr>) peer"
    using assms(2) ex by (fastforce simp: link_inv_def flight_ok_def split: option.splits wire.splits)
  moreover have "copy_ok (l\<lparr>src := m\<rparr>) node peer" if "copy_ok l node peer"
    using that ex by (fastforce simp: copy_ok_def)
  ultimately show ?thesis using assms(2) store_step_inv[OF assms(1) inv] by (simp add: link_inv_def)
qed

lemma follower_inv:
  assumes "other_step node (dst l) m" "link_inv node peer l"
  shows "link_inv node peer (l\<lparr>dst := m\<rparr>)"
  using assms(2) other_step_keeps[OF assms(1)] flight_ok_frame[of "l\<lparr>dst := m\<rparr>" l peer]
  by (simp add: link_inv_def copy_ok_def)

lemma fetch_full_inv:
  assumes "httpClusterFull now r (srcHa l, src l) = (Ok \<lparr>Status = 200, Body = Some w\<rparr>, (ha, m))"
    and "FormValue r ''from'' = peer" "flight l = None" "link_inv node peer l"
  shows "link_inv node peer (l\<lparr>srcHa := ha, src := m, flight := Some w, valid := True\<rparr>)"
proof -
  have w: "w = WFull [(DefaultDataKey, marshalNode (currentServices (src l)))]" "m = snd (FetchFullAndWatch peer (src l))"
    using assms(1,2) by (auto simp: httpClusterFull_run Let_def respond_def split: if_splits)
  have inv: "mem_inv (src l)" "svc_wf (currentServices (src l))"
    using assms(4) by (auto simp: link_inv_def mem_inv_def mem_wf_def)
  have m: "mem_inv m" "currentServices m = currentServices (src l)"
    "\<exists>c. mget (dataTo m) peer = Some c" "mget (dataTo (src l)) peer \<noteq> None \<Longrightarrow> m = src l"
    using inv(1) by (auto simp: w(2) FetchFullAndWatch_run mem_inv_dataTo)
  have "\<exists>c. mget (dataTo m) peer = Some c \<and> delta c (abs_svc (currentServices m)) = abs_svc (currentServices m)"
    using m(3) feed.stable[OF m(1)] by blast
  then have "flight_ok (l\<lparr>srcHa := ha, src := m, flight := Some w, valid := True\<rparr>) peer"
    using m(2) inv(2) by (auto simp: flight_ok_def w(1) intro!: exI[of _ "currentServices (src l)"])
  moreover have "copy_ok (l\<lparr>srcHa := ha, src := m, flight := Some w, valid := True\<rparr>) node peer" if "copy_ok l node peer"
    using that assms(3) m(4) by (auto simp: copy_ok_def w(1) upcoming_full)
  ultimately show ?thesis using assms(4) m(1) by (simp add: link_inv_def)
qed

lemma fetch_inc_inv:
  assumes "httpClusterIncremental now r (srcHa l, src l) = (Ok \<lparr>Status = 200, Body = Some w\<rparr>, (ha, m))"
    and "FormValue r ''from'' = peer" "flight l = None" "link_inv node peer l"
  shows "link_inv node peer (l\<lparr>srcHa := ha, src := m, flight := Some w, valid := True\<rparr>)"
proof -
  obtain c where c: "mget (dataTo (src l)) peer = Some c"
    and w: "w = WInc (Some [(DefaultDataKey, marshalList (Add c))]) (Some [(DefaultDataKey, marshalList (Del c))])"
    and m: "m = (src l)\<lparr>dataTo := mput peer no_changes (dataTo (src l))\<rparr>"
    using assms(1,2) by (auto simp: httpClusterIncremental_run Let_def respond_def split: if_splits option.splits)
  have "flight_ok (l\<lparr>srcHa := ha, src := m, flight := Some w, valid := True\<rparr>) peer"
    by (auto simp: flight_ok_def w)
  moreover have "copy_ok (l\<lparr>srcHa := ha, src := m, flight := Some w, valid := True\<rparr>) node peer" if "copy_ok l node peer"
    using that assms(3) c by (auto simp: copy_ok_def w upcoming_full upcoming_inc m)
  moreover have "mem_inv m" using assms(4) by (simp add: m link_inv_def mem_inv_dataTo)
  ultimately show ?thesis using assms(4) by (simp add: link_inv_def)
qed

lemma deliver_inv:
  assumes "ProcessSyncWorker (requestOf node w) (dst l) = (Ok reply, m)" "flight l = Some w" "link_inv node peer l"
  shows "link_inv node peer (l\<lparr>dst := m, flight := None, good := (if is_full w then valid l else good l)\<rparr>)"
proof -
  have wf: "mem_wf (dst l)" using assms(3) by (simp add: link_inv_def)
  have fl: "flight_ok l peer" using assms(3) by (simp add: link_inv_def)
  show ?thesis
  proof (cases w)
    case (WFull f)
    then obtain sm where sm: "f = [(DefaultDataKey, marshalNode sm)]" "svc_wf sm"
        "valid l \<longrightarrow> (\<exists>c. mget (dataTo (src l)) peer = Some c \<and> delta c (abs_svc sm) = abs_svc (currentServices (src l)))"
      using fl assms(2) by (auto simp: flight_ok_def)
    obtain m1 nd where "FullFrom node f (dst l) = (Ok (), m1)" "received_step node (abs_svc sm) (dst l) m1"
        "mget (dataFrom m1) node = Some nd" "recv_ok (ServiceMapping nd)"
      using FullFrom_run[OF wf sm(2)] sm(1) by blast
    moreover from this have "m = m1"
      using assms(1) WFull by (simp add: ProcessSyncWorker_def requestOf_def newSyncReq_def tryS_def returnS_def)
    ultimately show ?thesis
      using sm(3) assms(3) WFull
      by (auto simp: link_inv_def flight_ok_def copy_ok_def upcoming_full received_step_def received_def)
  next
    case (WInc a d)
    then have "\<exists>c :: pending. a = Some [(DefaultDataKey, marshalList (Add c))] \<and> d = Some [(DefaultDataKey, marshalList (Del c))]"
      using fl assms(2) by (simp add: flight_ok_def)
    then obtain c :: pending where c: "a = Some [(DefaultDataKey, marshalList (Add c))]" "d = Some [(DefaultDataKey, marshalList (Del c))]"
      by blast
    let ?sync = "SyncFrom node node [(DefaultDataKey, marshalList (Add c))] [(DefaultDataKey, marshalList (Del c))] (dst l)"
    have m: "m = snd ?sync"
      using assms(1) WInc c
      by (auto simp: ProcessSyncWorker_def requestOf_def newSyncReq_def tryS_def returnS_def map_or_empty_def
          split: res.splits prod.splits)
    have "quiet_step (dst l) m" using SyncFrom_quiet[of node node _ _ "dst l" "fst ?sync" m] m by simp
    then have "mem_wf m" using wf by (simp add: quiet_step_def)
    moreover have "copy_ok (l\<lparr>dst := m, flight := None, good := good l\<rparr>) node peer" if cp: "copy_ok l node peer"
    proof -
      obtain c1 nd r' where nd: "mget (dataTo (src l)) peer = Some c1" "mget (dataFrom (dst l)) node = Some nd"
        "recv_ok (ServiceMapping nd)" "r' = delta c (abs_recv (ServiceMapping nd))"
        "delta c1 r' = abs_svc (currentServices (src l))"
        using cp assms(2) WInc c by (auto simp: copy_ok_def upcoming_inc)
      obtain nd' where "mget (dataFrom m) node = Some nd'" "recv_ok (ServiceMapping nd')" "abs_recv (ServiceMapping nd') = r'"
        using SyncFrom_run[OF wf nd(2,3), of c] m nd(4) by (auto simp: received_step_def received_def)
      then show ?thesis using nd(1,5) by (auto simp: copy_ok_def upcoming_full)
    qed
    ultimately show ?thesis using assms(3) WInc by (auto simp: link_inv_def flight_ok_def)
  qed (use fl assms(2) in \<open>auto simp: flight_ok_def\<close>)
qed

lemma link_step_inv:
  assumes "link_step node peer l l'" "link_inv node peer l"
  shows "link_inv node peer l'"
  using assms(1)
proof cases
  case (lose w)
  then show ?thesis
    using assms(2) by (cases w) (auto simp: link_inv_def flight_ok_def copy_ok_def upcoming_full)
next
  case (unwatch r m)
  then show ?thesis
    using assms(2) by (auto simp: link_inv_def flight_ok_def Unwatch_def modifyS_def mem_inv_dataTo split: option.splits wire.splits)
next
  case (abandon r m)
  then show ?thesis
    using assms(2) Abandon_quiet[OF abandon(2)] flight_ok_frame[of l' l peer] by (auto simp: link_inv_def quiet_step_def)
next
  case (peers cm)
  then show ?thesis using assms(2) flight_ok_frame[of l' l peer] by (simp add: link_inv_def copy_ok_def)
qed (use assms(2) in \<open>simp_all add: source_inv follower_inv fetch_full_inv fetch_inc_inv deliver_inv\<close>)

lemma link_inv_new: "link_inv node peer (newLink ha)"
  using mem_inv_new by (simp add: link_inv_def newLink_def flight_ok_def mem_inv_def)

lemma reachable_inv: "(link_step node peer)\<^sup>*\<^sup>* (newLink ha) l \<Longrightarrow> link_inv node peer l"
  by (induction rule: rtranclp_induct) (auto intro: link_step_inv link_inv_new)

lemma full_round:
  assumes "(link_step node peer)\<^sup>*\<^sup>* (newLink ha) l" "flight l = None" "FormValue r ''from'' = peer" "full_ok (srcHa l) r"
  shows "\<exists>w ha' m reply d. httpClusterFull now r (srcHa l, src l) = (Ok \<lparr>Status = 200, Body = Some w\<rparr>, (ha', m))
    \<and> decodeFull w = Ok (reqFull (requestOf node w))
    \<and> ProcessSyncWorker (requestOf node w) (dst l) = (Ok (Some None), d)
    \<and> received d node = Some (abs_svc (currentServices (src l)))
    \<and> (link_step node peer)\<^sup>*\<^sup>* l (l\<lparr>srcHa := ha', src := m, dst := d, flight := None, valid := True, good := True\<rparr>)"
proof -
  have inv: "link_inv node peer l" by (rule reachable_inv[OF assms(1)])
  have wf: "mem_wf (dst l)" "svc_wf (currentServices (src l))"
    using inv by (auto simp: link_inv_def mem_inv_def mem_wf_def)
  define w where "w = WFull [(DefaultDataKey, marshalNode (currentServices (src l)))]"
  obtain ha' m where f: "httpClusterFull now r (srcHa l, src l) = (Ok \<lparr>Status = 200, Body = Some w\<rparr>, (ha', m))"
    using assms(3,4) by (auto simp: httpClusterFull_run Let_def full_ok_def w_def)
  obtain d where d: "FullFrom node [(DefaultDataKey, marshalNode (currentServices (src l)))] (dst l) = (Ok (), d)"
      "received_step node (abs_svc (currentServices (src l))) (dst l) d"
    using FullFrom_run[OF wf] by blast
  have p: "ProcessSyncWorker (requestOf node w) (dst l) = (Ok (Some None), d)"
    using d(1) by (simp add: ProcessSyncWorker_def requestOf_def newSyncReq_def tryS_def returnS_def w_def)
  let ?l1 = "l\<lparr>srcHa := ha', src := m, flight := Some w, valid := True\<rparr>"
  have "link_step node peer l ?l1" using link_step.fetch_full[OF assms(2,3) f] .
  moreover have "link_step node peer ?l1 (?l1\<lparr>dst := d, flight := None, good := True\<rparr>)"
    using link_step.deliver[of ?l1 w node "Some None" d peer] p by (simp add: w_def)
  ultimately have "(link_step node peer)\<^sup>*\<^sup>* l (?l1\<lparr>dst := d, flight := None, good := True\<rparr>)"
    by (meson rtranclp.rtrancl_into_rtrancl rtranclp.rtrancl_refl)
  moreover have eq: "?l1\<lparr>dst := d, flight := None, good := True\<rparr>
      = l\<lparr>srcHa := ha', src := m, dst := d, flight := None, valid := True, good := True\<rparr>" by simp
  ultimately have "(link_step node peer)\<^sup>*\<^sup>* l (l\<lparr>srcHa := ha', src := m, dst := d, flight := None, valid := True, good := True\<rparr>)"
    unfolding eq by blast
  moreover have "decodeFull w = Ok (reqFull (requestOf node w))"
    by (simp add: decodeFull_def requestOf_def newSyncReq_def w_def)
  ultimately show ?thesis using f p d(2) unfolding received_step_def by blast
qed

text \<open>A node, one of its peers, and a request from elsewhere.\<close>

definition stranger :: HttpRequest where
  "stranger = \<lparr>FormValue = (\<lambda>_. ''B''), Header = (\<lambda>_. ''guess'')\<rparr>"

definition sample_ha :: HaModule where
  "sample_ha = NewHaModule ''A'' ''http://a'' ''cluster'' ''secret'' [(''A'', ''http://a''), (''B'', ''http://b'')]"

definition member :: HttpRequest where
  "member = \<lparr>FormValue = (\<lambda>_. ''B''),
     Header = (\<lambda>h. if h = ''X-Cluster-Name'' then ''cluster'' else ''secret'')\<rparr>"

lemma sample_requests: "clusterMismatch sample_ha stranger" "full_ok sample_ha member"
  by (simp_all add: clusterMismatch_def full_ok_def stranger_def member_def sample_ha_def NewHaModule_def)

lemma sample_link:
  "\<exists>l. (link_step ''A'' ''B'')\<^sup>*\<^sup>* (newLink sample_ha) l \<and> good l \<and> flight l = None
    \<and> src l = NewMemStore\<lparr>dataTo := [(''B'', no_changes)]\<rparr> \<and> received (dst l) ''A'' = Some (abs_svc [])
    \<and> mget (ClientPeerMapping (srcHa l)) ''B'' = Some 0 \<and> \<not> clusterMismatch (srcHa l) member"
proof -
  have n: "flight (newLink sample_ha) = None" "src (newLink sample_ha) = NewMemStore" "srcHa (newLink sample_ha) = sample_ha"
    by (simp_all add: newLink_def)
  have cur: "currentServices NewMemStore = []" by (simp add: NewMemStore_def)
  obtain w ha' m d where f: "httpClusterFull 0 member (sample_ha, NewMemStore) = (Ok \<lparr>Status = 200, Body = Some w\<rparr>, (ha', m))"
    "received d ''A'' = Some (abs_svc [])"
    "(link_step ''A'' ''B'')\<^sup>*\<^sup>* (newLink sample_ha)
       ((newLink sample_ha)\<lparr>srcHa := ha', src := m, dst := d, flight := None, valid := True, good := True\<rparr>)"
    using full_round[of "''A''" "''B''" sample_ha "newLink sample_ha" member 0] sample_requests(2) n cur
    by (auto simp: member_def)
  have "m = NewMemStore\<lparr>dataTo := [(''B'', no_changes)]\<rparr>" "mget (ClientPeerMapping ha') ''B'' = Some 0"
    "\<not> clusterMismatch ha' member"
    using f(1) sample_requests(2) sample_source_run(1)
    by (auto simp: httpClusterFull_run Let_def member_def full_ok_def)
  then show ?thesis using f(2,3) by (intro exI[of _ "(newLink sample_ha)\<lparr>srcHa := ha', src := m, dst := d,
      flight := None, valid := True, good := True\<rparr>"]) simp
qed

section \<open>Properties of the link\<close>

text \<open>
  C5: convergence. Whatever the two nodes do, whatever answers are lost or delayed: while the
  follower's copy rests on a full copy and no answer with changes was lost since, the source still
  watches for the follower and holds exactly the changes that turn the follower's copy into the
  source's registry; with none pending, the copy is the registry.
\<close>

theorem follower_converges:
  assumes "(link_step node peer)\<^sup>*\<^sup>* (newLink ha) l" "good l" "flight l = None"
  shows "\<exists>c r. mget (dataTo (src l)) peer = Some c \<and> received (dst l) node = Some r
    \<and> delta c r = abs_svc (currentServices (src l)) \<and> (c = no_changes \<longrightarrow> r = abs_svc (currentServices (src l)))"
proof -
  have "copy_ok l node peer" using reachable_inv[OF assms(1)] assms(2) by (simp add: link_inv_def)
  then show ?thesis using assms(3) by (auto simp: copy_ok_def upcoming_full received_def)
qed

theorem follower_converges_witness:
  "\<exists>l c r. (link_step ''A'' ''B'')\<^sup>*\<^sup>* (newLink sample_ha) l \<and> mget (dataTo (src l)) ''B'' = Some c
    \<and> received (dst l) ''A'' = Some r \<and> delta c r = abs_svc (currentServices (src l))"
  using sample_link follower_converges by blast

text \<open>
  C38: without the full copy it does not heal: when the answer to an incremental request is lost,
  the changes in it are gone from the source's list, so the two nodes can stay different with
  nothing pending and nothing on its way.
\<close>

theorem lost_answer_diverges:
  "\<exists>l. (link_step ''A'' ''B'')\<^sup>*\<^sup>* (newLink sample_ha) l \<and> flight l = None
    \<and> mget (dataTo (src l)) ''B'' = Some no_changes \<and> received (dst l) ''A'' = Some (abs_svc [])
    \<and> abs_svc (currentServices (src l)) (''svc'', ''n1'') = Some ''10.0.0.1:80''"
proof -
  obtain l where l: "(link_step ''A'' ''B'')\<^sup>*\<^sup>* (newLink sample_ha) l" "flight l = None"
    "src l = NewMemStore\<lparr>dataTo := [(''B'', no_changes)]\<rparr>" "received (dst l) ''A'' = Some (abs_svc [])"
    "mget (ClientPeerMapping (srcHa l)) ''B'' = Some 0" "\<not> clusterMismatch (srcHa l) member" using sample_link by blast
  let ?l1 = "l\<lparr>src := sample_source\<rparr>"
  have "PublishService ''svc'' sample_item (src l) = (Ok (), sample_source)"
    using sample_source_run(1) l(3) by (simp add: sample_source_def bindS_def PublishService_run)
  then have s1: "link_step ''A'' ''B'' l ?l1" by (intro link_step.source store_step.publish)
  obtain w ha' m where f: "httpClusterIncremental 1 member (srcHa ?l1, src ?l1) = (Ok \<lparr>Status = 200, Body = Some w\<rparr>, (ha', m))"
    "mget (dataTo m) ''B'' = Some no_changes" "currentServices m = currentServices sample_source" "\<not> is_full w"
    using l(5,6) by (auto simp: httpClusterIncremental_run Let_def member_def sample_source_run(2))
  let ?l2 = "?l1\<lparr>srcHa := ha', src := m, flight := Some w, valid := True\<rparr>"
  have s2: "link_step ''A'' ''B'' ?l1 ?l2"
    by (rule link_step.fetch_inc[OF _ _ f(1)]) (simp_all add: l(2) member_def)
  have s3: "link_step ''A'' ''B'' ?l2 (?l2\<lparr>flight := None, good := (good ?l2 \<and> is_full w)\<rparr>)"
    by (rule link_step.lose) simp
  have "(link_step ''A'' ''B'')\<^sup>*\<^sup>* (newLink sample_ha) (?l2\<lparr>flight := None, good := (good ?l2 \<and> is_full w)\<rparr>)"
    using l(1) s1 s2 s3 by (meson rtranclp.rtrancl_into_rtrancl)
  then show ?thesis
    using f l by (intro exI[of _ "?l2\<lparr>flight := None, good := (good ?l2 \<and> is_full w)\<rparr>"] conjI)
      (simp_all add: sample_source_run(2) abs_svc_def)
qed

section \<open>Access\<close>

text \<open>
  C24: a request with the wrong cluster name or secret is answered 400, 401 or 500 without a
  body and never reaches the store: no data is sent, no changes are taken, nobody is watched.
\<close>

theorem wrong_secret_gets_nothing:
  assumes "clusterMismatch ha r"
  shows "\<exists>code1 code2 code3 ha1 ha2 ha3. httpClusterAuth now r (ha, m) = (Ok (respond code1), (ha1, m))
    \<and> httpClusterFull now r (ha, m) = (Ok (respond code2), (ha2, m))
    \<and> httpClusterIncremental now r (ha, m) = (Ok (respond code3), (ha3, m))
    \<and> {code1, code2, code3} \<subseteq> {400, 401, 500}"
  using assms
  by (auto simp: httpClusterFull_run httpClusterIncremental_run Let_def httpClusterAuth_def tryS_def onFst_def
      updateClientTime_run run_simps)

theorem wrong_secret_gets_nothing_witness:
  "\<exists>code ha'. httpClusterFull 7 stranger (sample_ha, sample_source) = (Ok (respond code), (ha', sample_source))"
  using wrong_secret_gets_nothing[OF sample_requests(1), of 7 sample_source] by blast

text \<open>
  The check of the credentials comes after the bookkeeping: a request without them still
  enters its sender among the peers of the node, or renews it there, so anyone can keep a dead
  peer's changes piling up.
\<close>

lemma stranger_renews_peer:
  "clusterMismatch ha r \<Longrightarrow> FormValue r ''from'' \<noteq> [] \<Longrightarrow>
    \<exists>ha'. httpClusterFull now r (ha, m) = (Ok (respond 401), (ha', m))
      \<and> mget (ClientPeerMapping ha') (FormValue r ''from'') = Some now"
  by (simp add: httpClusterFull_run Let_def)

lemma stranger_renews_peer_witness:
  "\<exists>ha'. httpClusterFull 7 stranger (sample_ha, sample_source) = (Ok (respond 401), (ha', sample_source))
    \<and> mget (ClientPeerMapping ha') ''B'' = Some 7"
  using stranger_renews_peer[OF sample_requests(1), of 7 sample_source] by (simp add: stranger_def)

end
