(* ===== verification/Bootstrap.thy ===== *)
theory Bootstrap
  imports Dns_Http Ha_Link Dns_Dyn
begin

text \<open>
  The start of a node (\<open>cmd/nekoq-bootstrap/main.go\<close>): from the decoded configuration to the
  store with its static records, the replication module, the DNS service and the registration
  endpoint. Listeners and workers are started at the end and run the operations of the other
  theories.
\<close>

section \<open>Configuration\<close>

record TomlEnclosure =
  tomlType :: string
  tomlSuffix :: string

record Config =
  StorageProvider :: string
  Debug :: bool
  cfgClusterName :: string
  cfgClusterSecret :: string
  cfgNodeName :: string
  cfgClusterListener :: string
  cfgNodes :: "(string, string) gomap"
  DnsEnable :: bool
  DnsAddress :: string
  DnsHttpAddress :: string
  UpstreamDnsServers :: "string list"
  RulesA :: "(string, string) gomap"
  RulesTXT :: "(string, string) gomap"
  RulesSRV :: "(string, string) gomap"
  RulesPTR :: "(string, string) gomap"
  DynServers :: "string list option"
  HttpListener :: string
  cfgEnableAuth :: bool
  cfgAccessPassword :: string
  EnclosureDomains :: "TomlEnclosure list"

fun convertEnclosureDomainSuffix :: "TomlEnclosure list \<Rightarrow> enclosure list" where
  "convertEnclosureDomainSuffix [] = []"
| "convertEnclosureDomainSuffix (v # vs) =
     \<lparr>EType = tomlType v, Suffix = tomlSuffix v\<rparr> # convertEnclosureDomainSuffix vs"

section \<open>Start\<close>

definition putRules :: "dnslib \<Rightarrow> (string, string) gomap \<Rightarrow> DomainType \<Rightarrow> (MemStore, unit) prog" where
  "putRules L rules t = forEach (\<lambda>kv. PutDomain (Fqdn L) (fst kv) (snd kv) t) rules"

definition putReverse :: "dnslib \<Rightarrow> (string, string) gomap \<Rightarrow> (MemStore, unit) prog" where
  "putReverse L rules =
     forEach (\<lambda>kv. tryS (AddIpReverseDnsToStorage L (fst kv) (snd kv)) returnS (\<lambda>err. panicS (errText err))) rules"

definition loadRules :: "dnslib \<Rightarrow> Config \<Rightarrow> (MemStore, unit) prog" where
  "loadRules L config =
     bindS (putRules L (RulesA config) DomainTypeA) (\<lambda>_.
     bindS (putRules L (RulesTXT config) DomainTypeTxt) (\<lambda>_.
     bindS (putRules L (RulesSRV config) DomainTypeSrv) (\<lambda>_.
       putReverse L (RulesPTR config))))"

definition startDns ::
  "dnslib \<Rightarrow> exchange \<Rightarrow> (string \<Rightarrow> (string \<times> string) res) \<Rightarrow> Config \<Rightarrow> (MemStore, DnsHttp) prog" where
  "startDns L Exchange urlParse config =
     bindS (loadRules L config) (\<lambda>_.
     bindS (liftR (must (NewDnsEndpoint L Exchange urlParse (DnsAddress config) (UpstreamDnsServers config)
              (convertEnclosureDomainSuffix (EnclosureDomains config)) (Debug config)))) (\<lambda>endpoint.
       liftR (must (NewHttpDns urlParse (DnsHttpAddress config) endpoint (Debug config)))))"

definition startDyn :: "dnslib \<Rightarrow> configlib \<Rightarrow> string list option \<Rightarrow> DnsDynConfStore list res" where
  "startDyn L K servers =
     (case servers of
        None \<Rightarrow> Ok []
      | Some sl \<Rightarrow>
          (case dyn_Startup L K (NewDnsDynConfStore sl) of (out, store) \<Rightarrow> must (bindR out (\<lambda>_. Ok [store]))))"

record Node =
  dnsStores :: "DnsDynConfStore list"
  nodeStore :: MemStore
  nodeHa :: HaModule
  nodeDns :: "DnsHttp option"
  nodeHttp :: "string \<times> HttpEndpoint"

definition main ::
  "dnslib \<Rightarrow> exchange \<Rightarrow> (string \<Rightarrow> (string \<times> string) res) \<Rightarrow> configlib \<Rightarrow> unit res \<Rightarrow> Config res \<Rightarrow> Node res" where
  "main L Exchange urlParse K agentListen decodeFile =
     bindR (must agentListen) (\<lambda>_.
     bindR (must decodeFile) (\<lambda>config.
     bindR (startDyn L K (DynServers config)) (\<lambda>stores.
       if StorageProvider config \<noteq> ''mem'' then Panic ''unknown storage provider''
       else
         let ha = NewHaModule (cfgNodeName config) (cfgClusterListener config) (cfgClusterName config) (cfgClusterSecret config) (cfgNodes config) in
         (case (if DnsEnable config then bindS (startDns L Exchange urlParse config) (\<lambda>d. returnS (Some d)) else returnS None) NewMemStore
          of (out, storage) \<Rightarrow>
            bindR out (\<lambda>dns.
            bindR (must (OpenHttpEndpoint urlParse (HttpListener config) (cfgEnableAuth config) (cfgAccessPassword config))) (\<lambda>http.
              Ok \<lparr>dnsStores = stores, nodeStore = storage, nodeHa = ha, nodeDns = dns, nodeHttp = http\<rparr>))))))"

text \<open>The storage that the handlers of the node see.\<close>

definition node_storage :: "Node \<Rightarrow> resolver" where
  "node_storage n = ResolveDomain (map (\<lambda>d. dyn_ResolveDomain (GetContainer d)) (dnsStores n)) (nodeStore n)"

section \<open>Rules after the start\<close>

lemma putRules_run:
  "fst (putRules L rules t m) = Ok ()"
  "ResolveDomain nested (snd (putRules L rules t m)) q t' =
     (if t' = t then
        (case last_value (map (\<lambda>(k, v). (Fqdn L (ToLower k), v)) rules) (ToLower q) of
           Some v \<Rightarrow> Ok v | None \<Rightarrow> ResolveDomain nested m q t')
      else ResolveDomain nested m q t')"
proof -
  have put: "PutDomain F k v t m = (Ok (), snd (PutDomain F k v t m))" for F k v m
    by (simp add: PutDomain_def modifyS_def)
  show "fst (putRules L rules t m) = Ok ()"
    unfolding putRules_def by (induction rules arbitrary: m) (simp_all add: returnS_def bindS_Ok[OF put])
  show "ResolveDomain nested (snd (putRules L rules t m)) q t' =
     (if t' = t then
        (case last_value (map (\<lambda>(k, v). (Fqdn L (ToLower k), v)) rules) (ToLower q) of
           Some v \<Rightarrow> Ok v | None \<Rightarrow> ResolveDomain nested m q t')
      else ResolveDomain nested m q t')"
    unfolding putRules_def
  proof (induction rules arbitrary: m)
    case (Cons kv rules)
    obtain k v where "kv = (k, v)" by fastforce
    then show ?case
      using Cons.IH[of "snd (PutDomain (Fqdn L) k v t m)"]
      by (auto simp: bindS_Ok[OF put] ResolveDomain_PutDomain last_value_Cons map_add_def split: option.splits)
  qed (simp add: returnS_def last_value_def)
qed

lemma putReverse_frame: "keepsS (\<lambda>m. t \<noteq> DomainTypePtr \<longrightarrow> ResolveDomain nested m q t = x) (putReverse L rules)"
  unfolding putReverse_def AddIpReverseDnsToStorage_def
proof (intro keeps)
  fix d v F show "keepsS (\<lambda>m. t \<noteq> DomainTypePtr \<longrightarrow> ResolveDomain nested m q t = x) (PutDomain F d v DomainTypePtr)"
    by (simp add: keepsS_def ResolveDomain_PutDomain)
qed

end
