(* ===== verification/Crc32.thy ===== *)
theory Crc32
  imports Prelude
begin

text \<open>
  The standard library's \<open>crc32.Checksum\<close> with the IEEE table (reflected polynomial
  \<open>0xEDB88320\<close>), which guards every page of the write-ahead log, in its bitwise form, and the
  error detection the log relies on: an input with one byte changed has another checksum.
\<close>

definition crc_poly :: "32 word" where
  "crc_poly = 0xEDB88320"

definition crc_shift :: "32 word \<Rightarrow> 32 word" where
  "crc_shift c = (if bit c 0 then drop_bit 1 c XOR crc_poly else drop_bit 1 c)"

fun crc_shift8 :: "nat \<Rightarrow> 32 word \<Rightarrow> 32 word" where
  "crc_shift8 0 c = c"
| "crc_shift8 (Suc n) c = crc_shift8 n (crc_shift c)"

definition crc_byte :: "32 word \<Rightarrow> byte \<Rightarrow> 32 word" where
  "crc_byte c b = crc_shift8 8 (c XOR ucast b)"

definition crc32_Checksum :: "bytes \<Rightarrow> 32 word" where
  "crc32_Checksum bs = NOT (foldl crc_byte (NOT 0) bs)"

text \<open>The check value of the algorithm: the bytes of \<open>123456789\<close>.\<close>

lemma crc32_check_value:
  "crc32_Checksum [0x31, 0x32, 0x33, 0x34, 0x35, 0x36, 0x37, 0x38, 0x39] = 0xCBF43926"
  by code_simp

lemma crc_shift_top: "bit (crc_shift c) 31 = bit c 0"
proof -
  have "bit crc_poly 31" by (simp add: crc_poly_def)
  moreover have "\<not> bit c 32" using bit_imp_le_length[of c 32] by auto
  ultimately show ?thesis by (simp add: crc_shift_def bit_simps)
qed

lemma xor_right_cancel: "x XOR p = y XOR p \<longleftrightarrow> x = y" for x y p :: "'a::len word"
  by (metis xor.assoc xor.right_neutral xor_self_eq)

lemma crc_shift_inj: "crc_shift c = crc_shift d \<Longrightarrow> c = d"
proof -
  assume eq: "crc_shift c = crc_shift d"
  then have low: "bit c 0 = bit d 0" by (metis crc_shift_top)
  have "drop_bit 1 c = drop_bit 1 d"
    using eq low by (simp add: crc_shift_def xor_right_cancel split: if_splits)
  then have high: "bit c (Suc n) = bit d (Suc n)" for n
    by (metis bit_drop_bit_eq comp_apply plus_1_eq_Suc)
  show "c = d"
  proof (rule bit_word_eqI)
    fix n show "bit c n = bit d n" by (cases n) (use low high in auto)
  qed
qed

lemma crc_shift8_inj: "crc_shift8 n c = crc_shift8 n d \<Longrightarrow> c = d"
  by (induction n arbitrary: c d) (auto dest: crc_shift_inj)

lemma crc_byte_inj_state: "crc_byte c b = crc_byte d b \<Longrightarrow> c = d"
  by (auto simp: crc_byte_def xor_right_cancel dest: crc_shift8_inj)

lemma crc_byte_inj_byte: "crc_byte c a = crc_byte c b \<Longrightarrow> a = b"
proof -
  have u: "uint (ucast x :: 32 word) = uint x" for x :: byte
    using uint_lt2p[of x] by (simp add: unsigned_ucast_eq take_bit_int_eq_self)
  assume "crc_byte c a = crc_byte c b"
  then have "c XOR ucast a = c XOR ucast b" by (auto simp: crc_byte_def dest: crc_shift8_inj)
  then have "(ucast a :: 32 word) = ucast b" by (simp add: xor.commute[of c] xor_right_cancel)
  then have "uint a = uint b" by (metis u)
  then show "a = b" by (simp add: word_uint_eq_iff)
qed

lemma foldl_crc_inj: "foldl crc_byte c bs = foldl crc_byte d bs \<Longrightarrow> c = d"
  by (induction bs arbitrary: c d) (auto dest: crc_byte_inj_state)

lemma crc32_one_byte:
  assumes "i < length bs" and "bs ! i \<noteq> b"
  shows "crc32_Checksum (bs[i := b]) \<noteq> crc32_Checksum bs"
proof
  assume eq: "crc32_Checksum (bs[i := b]) = crc32_Checksum bs"
  let ?c = "foldl crc_byte (NOT 0) (take i bs)"
  have upd: "bs[i := b] = take i bs @ b # drop (Suc i) bs"
    using assms(1) by (rule upd_conv_take_nth_drop)
  have id: "bs = take i bs @ bs ! i # drop (Suc i) bs"
    using assms(1) by (rule id_take_nth_drop)
  have "foldl crc_byte (NOT 0) (bs[i := b]) = foldl crc_byte (NOT 0) bs"
    using eq by (simp add: crc32_Checksum_def)
  moreover have "foldl crc_byte (NOT 0) bs = foldl crc_byte (crc_byte ?c (bs ! i)) (drop (Suc i) bs)"
    by (metis foldl_Cons foldl_append id)
  ultimately have "foldl crc_byte (crc_byte ?c b) (drop (Suc i) bs)
      = foldl crc_byte (crc_byte ?c (bs ! i)) (drop (Suc i) bs)"
    unfolding upd by simp
  then have "crc_byte ?c b = crc_byte ?c (bs ! i)" by (rule foldl_crc_inj)
  then have "b = bs ! i" by (rule crc_byte_inj_byte)
  then show False using assms(2) by simp
qed

end
