(* ===== verification/Wal_Page.thy ===== *)
theory Wal_Page
  imports Crc32
begin

text \<open>
  The page format of the write-ahead log (\<open>prepareDataBufByPage\<close> and \<open>pageRecordsInfo\<close> of
  \<open>internal/wal/wal.go\<close>). A page is one record: a byte with the header and the entry type, the
  length in two bytes, the checksum in four, a reserved byte, the data, and zeros up to the page
  size. Shown: a page is read back, a page with one byte changed is refused, and which pages
  make the reader panic.
\<close>

section \<open>Big-endian fields\<close>

definition PutUint16 :: "16 word \<Rightarrow> bytes" where
  "PutUint16 v = [ucast (drop_bit 8 v), ucast v]"

fun Uint16 :: "bytes \<Rightarrow> 16 word" where
  "Uint16 (a # b # _) = push_bit 8 (ucast a) OR ucast b"
| "Uint16 _ = 0"

definition PutUint32 :: "32 word \<Rightarrow> bytes" where
  "PutUint32 v = [ucast (drop_bit 24 v), ucast (drop_bit 16 v), ucast (drop_bit 8 v), ucast v]"

fun Uint32 :: "bytes \<Rightarrow> 32 word" where
  "Uint32 (a # b # c # d # _) =
     push_bit 24 (ucast a) OR push_bit 16 (ucast b) OR push_bit 8 (ucast c) OR ucast d"
| "Uint32 _ = 0"

text \<open>\<open>copy(buf[i:], src)\<close>, for \<open>i\<close> inside the buffer.\<close>

definition copy_at :: "nat \<Rightarrow> bytes \<Rightarrow> bytes \<Rightarrow> bytes" where
  "copy_at i src buf =
     take i buf @ take (length buf - i) src @ drop (i + length src) buf"

section \<open>Entry types\<close>

type_synonym EntryType = byte

definition EntryTypeWhole :: EntryType where "EntryTypeWhole = 0b00001001"
definition EntryTypeStart :: EntryType where "EntryTypeStart = 0b00001010"
definition EntryTypeMiddle :: EntryType where "EntryTypeMiddle = 0b00001011"
definition EntryTypeEnd :: EntryType where "EntryTypeEnd = 0b00001100"
definition EntryTypeBrokenEnd :: EntryType where "EntryTypeBrokenEnd = 0b00001101"
definition EntryTypeMask :: EntryType where "EntryTypeMask = 0b00001111"
definition EntryHeader :: byte where "EntryHeader = 0b10100000"
definition RecordHeaderSize :: nat where "RecordHeaderSize = 8"

lemmas entry_type_defs = EntryTypeWhole_def EntryTypeStart_def EntryTypeMiddle_def
  EntryTypeEnd_def EntryTypeBrokenEnd_def EntryTypeMask_def EntryHeader_def

section \<open>Writing and reading a page\<close>

definition PageCrcMismatch :: error where
  "PageCrcMismatch = ErrorMsg ''page crc32 mismatch''"

definition LengthExceeded :: error where
  "LengthExceeded = ErrorMsg ''length field exceeded''"

definition prepareDataBufByPage :: "nat \<Rightarrow> bytes \<Rightarrow> EntryType \<Rightarrow> bytes res" where
  "prepareDataBufByPage maxPageSize dat entryType =
     (if maxPageSize < 8 then Panic ''slice bounds out of range''
      else
        let buf = replicate maxPageSize 0;
            buf = buf[0 := EntryHeader OR entryType];
            buf = copy_at 1 (PutUint16 (of_nat (length dat))) buf;
            buf = copy_at 8 dat buf
        in Ok (copy_at 3 (PutUint32 (crc32_Checksum buf)) buf))"

definition pageRecordsInfo :: "bytes \<Rightarrow> (bytes \<times> EntryType) list res" where
  "pageRecordsInfo buf =
     (if length buf < 7 then Panic ''index out of range''
      else
        let crc32dat = take 4 (drop 3 buf);
            buf = copy_at 3 [0, 0, 0, 0] buf;
            crc32val = Uint32 crc32dat;
            crc32nval = crc32_Checksum buf
        in if crc32nval \<noteq> crc32val then Err PageCrcMismatch
           else
             let length' = Uint16 (drop 1 buf)
             in if unat (length' + 8) > length buf then Err LengthExceeded
                else
                  let hi = unat (8 + length')
                  in if hi < 8 then Panic ''slice bounds out of range''
                     else Ok [(take (hi - 8) (drop 8 buf), buf ! 0 AND EntryTypeMask)])"

section \<open>Reading back\<close>

lemma ucast_bit: "bit (ucast (w :: 'a::len word) :: 'b::len word) n \<longleftrightarrow> n < LENGTH('b) \<and> bit w n"
  by (simp add: bit_simps)

lemma Uint16_Put: "Uint16 (PutUint16 v @ r) = v"
proof (rule bit_word_eqI)
  fix n assume "n < LENGTH(16)"
  then show "bit (Uint16 (PutUint16 v @ r)) n = bit v n"
    by (auto simp: PutUint16_def bit_simps)
qed

lemma Uint32_Put: "Uint32 (PutUint32 v @ r) = v"
proof (rule bit_word_eqI)
  fix n assume "n < LENGTH(32)"
  then show "bit (Uint32 (PutUint32 v @ r)) n = bit v n"
    by (cases "n < 8"; cases "n < 16"; cases "n < 24"; auto simp: PutUint32_def bit_simps)
qed

lemma length_PutUint16 [simp]: "length (PutUint16 v) = 2"
  by (simp add: PutUint16_def)

lemma length_PutUint32 [simp]: "length (PutUint32 v) = 4"
  by (simp add: PutUint32_def)

lemma length_copy_at: "i + length src \<le> length buf \<Longrightarrow> length (copy_at i src buf) = length buf"
  by (simp add: copy_at_def)

text \<open>The page as the reader sees it: first byte, length, checksum, reserved byte and the rest.\<close>

definition page_layout :: "byte \<Rightarrow> bytes \<Rightarrow> bytes \<Rightarrow> bytes \<Rightarrow> bytes" where
  "page_layout h l c rest = h # l @ c @ rest"

lemma copy_at_layout:
  "length l = 2 \<Longrightarrow> length l' = 2 \<Longrightarrow> copy_at (Suc 0) l' (page_layout h l c rest) = page_layout h l' c rest"
  "length l = 2 \<Longrightarrow> length c = 4 \<Longrightarrow> length c' = 4 \<Longrightarrow>
    copy_at 3 c' (page_layout h l c rest) = page_layout h l c' rest"
  by (auto simp: copy_at_def page_layout_def length_Suc_conv numeral_eq_Suc)

lemma copy_at_data:
  assumes "length l = 2" "length c = 4" "length dat \<le> n"
  shows "copy_at 8 dat (page_layout h l c (0 # replicate n 0))
    = page_layout h l c (0 # dat @ replicate (n - length dat) 0)"
  using assms by (auto simp: copy_at_def page_layout_def length_Suc_conv numeral_eq_Suc)

lemma replicate_layout:
  assumes "8 \<le> ps"
  shows "(replicate ps 0)[0 := h] = page_layout h [0, 0] [0, 0, 0, 0] (0 # replicate (ps - 8) 0)"
proof -
  obtain n where "ps = 8 + n" using assms le_Suc_ex by blast
  then show ?thesis by (simp add: page_layout_def numeral_eq_Suc)
qed

lemma prepare_layout:
  assumes "8 \<le> ps" "length dat \<le> ps - 8"
  defines "body \<equiv> 0 # dat @ replicate (ps - 8 - length dat) 0"
  defines "len \<equiv> PutUint16 (of_nat (length dat))"
  shows "prepareDataBufByPage ps dat t = Ok (page_layout (EntryHeader OR t) len
    (PutUint32 (crc32_Checksum (page_layout (EntryHeader OR t) len [0, 0, 0, 0] body))) body)"
  using assms by (simp add: prepareDataBufByPage_def replicate_layout copy_at_layout copy_at_data Let_def)

lemma prepare_Ok: "8 \<le> ps \<Longrightarrow> \<exists>page. prepareDataBufByPage ps dat t = Ok page"
  by (simp add: prepareDataBufByPage_def Let_def)

lemma length_prepare:
  assumes "8 \<le> ps" "length dat \<le> ps - 8" "prepareDataBufByPage ps dat t = Ok page"
  shows "length page = ps"
proof -
  have "page = page_layout (EntryHeader OR t) (PutUint16 (of_nat (length dat)))
      (PutUint32 (crc32_Checksum (page_layout (EntryHeader OR t) (PutUint16 (of_nat (length dat)))
        [0, 0, 0, 0] (0 # dat @ replicate (ps - 8 - length dat) 0))))
      (0 # dat @ replicate (ps - 8 - length dat) 0)"
    using assms(3) prepare_layout[OF assms(1,2), of t] by simp
  then show ?thesis using assms(1,2) by (simp add: page_layout_def)
qed

lemma entry_type_back: "t AND 15 = t \<Longrightarrow> (EntryHeader OR t) AND EntryTypeMask = t"
proof -
  assume "t AND 15 = t"
  moreover have "(160 :: byte) AND 15 = 0" by simp
  ultimately show ?thesis by (simp add: EntryHeader_def EntryTypeMask_def bit.conj_disj_distrib2)
qed

lemma page_read_back:
  assumes "8 \<le> ps" "ps < 65536" "length dat \<le> ps - 8" "t AND 15 = t"
    and "prepareDataBufByPage ps dat t = Ok page"
  shows "pageRecordsInfo page = Ok [(dat, t)]"
proof -
  define h where "h = EntryHeader OR t"
  define l where "l = PutUint16 (of_nat (length dat))"
  define body where "body = 0 # dat @ replicate (ps - 8 - length dat) 0"
  define crc where "crc = crc32_Checksum (page_layout h l [0, 0, 0, 0] body)"
  have page: "page = page_layout h l (PutUint32 crc) body"
    using assms(5) prepare_layout[OF assms(1,3), of t] by (simp add: h_def l_def body_def crc_def)
  have ll: "length l = 2" by (simp add: l_def)
  have len: "length page = ps"
    using length_prepare[OF assms(1,3,5)] .
  have z: "copy_at 3 [0, 0, 0, 0] page = page_layout h l [0, 0, 0, 0] body"
    unfolding page using ll by (simp add: copy_at_layout)
  have c: "Uint32 (take 4 (drop 3 page)) = crc"
    unfolding page page_layout_def using ll Uint32_Put[of crc "[]"]
    by (auto simp: length_Suc_conv numeral_eq_Suc)
  have u: "Uint16 (drop 1 (page_layout h l [0, 0, 0, 0] body)) = of_nat (length dat)"
    by (simp add: page_layout_def l_def Uint16_Put)
  have small: "unat (of_nat (length dat) + 8 :: 16 word) = length dat + 8"
  proof -
    have "(of_nat (length dat) + 8 :: 16 word) = of_nat (length dat + 8)" by simp
    moreover have "length dat + 8 < 2 ^ LENGTH(16)" using assms(1-3) by simp
    ultimately show ?thesis by (simp only: unat_of_nat mod_less)
  qed
  have data: "take (length dat) (drop 8 (page_layout h l [0, 0, 0, 0] body)) = dat"
    using ll by (auto simp: page_layout_def body_def length_Suc_conv numeral_eq_Suc)
  have len': "length (page_layout h l [0, 0, 0, 0] body) = ps"
    using len z length_copy_at[of 3 "[0, 0, 0, 0]" page] assms(1) by simp
  have ty: "page_layout h l [0, 0, 0, 0] body ! 0 AND EntryTypeMask = t"
    using entry_type_back[OF assms(4)] by (simp add: page_layout_def h_def)
  show ?thesis
    unfolding pageRecordsInfo_def Let_def z c u
    using assms(1,3) small len len' data ty crc_def by (simp add: add.commute)
qed

section \<open>Damaged pages\<close>

lemma pageRecordsInfo_crc:
  assumes "pageRecordsInfo page = Ok r"
  shows "7 \<le> length page"
    "crc32_Checksum (copy_at 3 [0, 0, 0, 0] page) = Uint32 (take 4 (drop 3 page))"
  using assms by (auto simp: pageRecordsInfo_def Let_def split: if_splits)

lemma pageRecordsInfo_crc_bad:
  assumes "7 \<le> length page"
    "crc32_Checksum (copy_at 3 [0, 0, 0, 0] page) \<noteq> Uint32 (take 4 (drop 3 page))"
  shows "pageRecordsInfo page = Err PageCrcMismatch"
  using assms by (simp add: pageRecordsInfo_def Let_def)

lemma Uint32_inj:
  assumes "length xs = 4" "length ys = 4" "Uint32 xs = Uint32 ys"
  shows "xs = ys"
proof -
  have split: "xs = PutUint32 (Uint32 xs)" if "length xs = 4" for xs
  proof -
    obtain a b c d where xs: "xs = [a, b, c, d]"
      using \<open>length xs = 4\<close> by (auto simp: length_Suc_conv numeral_eq_Suc)
    have "ucast (drop_bit 24 (Uint32 xs)) = a" "ucast (drop_bit 16 (Uint32 xs)) = b"
        "ucast (drop_bit 8 (Uint32 xs)) = c" "ucast (Uint32 xs) = d"
      unfolding xs by (rule bit_word_eqI, auto simp: bit_simps dest: bit_imp_le_length)+
    then show ?thesis unfolding xs by (simp add: PutUint32_def)
  qed
  from split[OF assms(1)] split[OF assms(2)] assms(3) show ?thesis by simp
qed

lemma copy_at_clear_inside:
  assumes "7 \<le> length page" "3 \<le> i" "i < 7"
  shows "copy_at 3 [0, 0, 0, 0] (page[i := b]) = copy_at 3 [0, 0, 0, 0] page"
  using assms by (simp add: copy_at_def)

lemma page_fields:
  assumes "7 \<le> length page"
  obtains h c r where "page = h @ c @ r" "length h = 3" "length c = 4"
proof
  show "page = take 3 page @ take 4 (drop 3 page) @ drop 4 (drop 3 page)"
    by (simp only: append_take_drop_id)
qed (use assms in auto)

lemma copy_at_clear_outside:
  assumes "7 \<le> length page" "i < 3 \<or> 7 \<le> i"
  shows "copy_at 3 [0, 0, 0, 0] (page[i := b]) = (copy_at 3 [0, 0, 0, 0] page)[i := b]"
    "take 4 (drop 3 (page[i := b])) = take 4 (drop 3 page)"
    "i < length page \<Longrightarrow> copy_at 3 [0, 0, 0, 0] page ! i = page ! i"
proof -
  obtain h c r where p: "page = h @ c @ r" "length h = 3" "length c = 4"
    using page_fields[OF assms(1)] by blast
  have clear: "copy_at 3 [0, 0, 0, 0] (h' @ c' @ r') = h' @ [0, 0, 0, 0] @ r'"
    if "length h' = 3" "length c' = 4" for h' c' r' :: bytes
    using that by (simp add: copy_at_def)
  show "copy_at 3 [0, 0, 0, 0] (page[i := b]) = (copy_at 3 [0, 0, 0, 0] page)[i := b]"
    using assms(2) p by (auto simp: list_update_append clear simp del: append_Cons append.simps)
  show "take 4 (drop 3 (page[i := b])) = take 4 (drop 3 page)"
    using assms(2) p by (auto simp: list_update_append)
  show "copy_at 3 [0, 0, 0, 0] page ! i = page ! i" if "i < length page"
    using assms(2) p that by (auto simp: nth_append clear simp del: append_Cons append.simps)
qed

text \<open>
  A page that the reader accepts is refused with a checksum error once any one of its bytes is
  changed, a byte of the stored checksum included.
\<close>

lemma one_byte_damage:
  assumes "pageRecordsInfo page = Ok r" "i < length page" "page ! i \<noteq> b"
  shows "pageRecordsInfo (page[i := b]) = Err PageCrcMismatch"
proof (rule pageRecordsInfo_crc_bad)
  note ok = pageRecordsInfo_crc[OF assms(1)]
  show "7 \<le> length (page[i := b])" using ok by simp
  show "crc32_Checksum (copy_at 3 [0, 0, 0, 0] (page[i := b])) \<noteq> Uint32 (take 4 (drop 3 (page[i := b])))"
  proof (cases "3 \<le> i \<and> i < 7")
    case True
    have "take 4 (drop 3 (page[i := b])) = (take 4 (drop 3 page))[i - 3 := b]"
      using True by (simp add: drop_update_swap take_update_swap)
    moreover have "(take 4 (drop 3 page))[i - 3 := b] \<noteq> take 4 (drop 3 page)"
    proof -
      have "(take 4 (drop 3 page))[i - 3 := b] ! (i - 3) = b"
        by (rule nth_list_update_eq) (use True ok(1) in auto)
      moreover have "take 4 (drop 3 page) ! (i - 3) = page ! i"
        using True ok(1) by auto
      ultimately show ?thesis using assms(3) by force
    qed
    ultimately have "take 4 (drop 3 (page[i := b])) \<noteq> take 4 (drop 3 page)" by simp
    then have "Uint32 (take 4 (drop 3 (page[i := b]))) \<noteq> Uint32 (take 4 (drop 3 page))"
      using Uint32_inj[of "take 4 (drop 3 (page[i := b]))" "take 4 (drop 3 page)"] ok(1) by auto
    then show ?thesis using True ok copy_at_clear_inside[of page i b] by simp
  next
    case False
    then have out: "i < 3 \<or> 7 \<le> i" by auto
    note o = copy_at_clear_outside[OF ok(1) out]
    have "i < length (copy_at 3 [0, 0, 0, 0] page)"
      using ok(1) assms(2) by (simp add: length_copy_at)
    then have "crc32_Checksum ((copy_at 3 [0, 0, 0, 0] page)[i := b])
        \<noteq> crc32_Checksum (copy_at 3 [0, 0, 0, 0] page)"
      using o(3)[OF assms(2)] assms(3) by (intro crc32_one_byte) simp_all
    then show ?thesis using ok(2) o(1,2) by simp
  qed
qed

text \<open>
  The length check adds the header size in 16 bits. A page whose checksum is right and whose
  length field is at least 65528 passes it and then panics in the slice expression.
\<close>

lemma page_length_wraps:
  assumes "7 \<le> length page"
    and "crc32_Checksum (copy_at 3 [0, 0, 0, 0] page) = Uint32 (take 4 (drop 3 page))"
    and "65528 \<le> unat (Uint16 (drop 1 (copy_at 3 [0, 0, 0, 0] page)))"
  shows "pageRecordsInfo page = Panic ''slice bounds out of range''"
proof -
  define l where "l = Uint16 (drop 1 (copy_at 3 [0, 0, 0, 0] page))"
  have big: "65528 \<le> unat l" using assms(3) by (simp only: l_def)
  have "unat l < 65536" using unsigned_less[of l, where 'a = nat] by simp
  moreover have "(unat l + 8) mod 65536 = unat l + 8 - 65536"
    using big \<open>unat l < 65536\<close> by (simp add: mod_if)
  ultimately have "unat (l + 8) = unat l - 65528"
    by (simp add: unat_word_ariths)
  then have "unat (l + 8) < 8" "unat (8 + l) < 8"
    using \<open>unat l < 65536\<close> big by (simp_all add: add.commute)
  then show ?thesis
    using assms(1,2) l_def by (simp add: pageRecordsInfo_def Let_def length_copy_at)
qed

end
