(* ===== verification/Disk_Wal.thy ===== *)
theory Disk_Wal
  imports Sequence_Id Wal_Page
begin

text \<open>
  The write-ahead log on disk (\<open>internal/wal/wal.go\<close>): writing an entry as one or more pages,
  rotating the files, reading the position back at start-up and replaying the log.

  The state is the \<open>DiskWal\<close> struct together with the folder it works on: the files by name, and
  a schedule of faults, one for each call of the operating system, so that every error branch is
  a behaviour of the model. A faulty write leaves a prefix of its data in the file.
\<close>

section \<open>State and operating system\<close>

datatype fault = NoFault | Fault nat

record DiskWal =
  curTerm :: int
  curCollection :: int
  curSeq :: int
  pageOccupied :: int
  maxFileSize :: int
  maxPageSize :: nat
  curFile :: "(string \<times> bool) option"
  dirty :: bool
  files :: "(string, bytes) gomap"
  faults :: "fault list"

definition NewDiskWal :: "(string, bytes) gomap \<Rightarrow> fault list \<Rightarrow> DiskWal" where
  "NewDiskWal folder flts =
     \<lparr>curTerm = 1, curCollection = 0, curSeq = 0, pageOccupied = 0,
      maxFileSize = 1 * 1024 * 1024 * 1024, maxPageSize = 4 * 1024,
      curFile = None, dirty = False, files = folder, faults = flts\<rparr>"

definition os_call :: "(DiskWal, fault) prog" where
  "os_call d = (case faults d of [] \<Rightarrow> (Ok NoFault, d) | f # fs \<Rightarrow> (Ok f, d\<lparr>faults := fs\<rparr>))"

definition os_check :: "string \<Rightarrow> (DiskWal, unit) prog" where
  "os_check what = bindS os_call (\<lambda>f. if f = NoFault then returnS () else failS (OsError what))"

text \<open>\<open>os.OpenFile\<close> with \<open>O_APPEND|O_CREATE|O_RDWR\<close>: an absent file is created empty.\<close>

definition os_OpenFile :: "string \<Rightarrow> (DiskWal, bytes) prog" where
  "os_OpenFile name =
     bindS (os_check ''open'') (\<lambda>_.
     bindS getS (\<lambda>d.
       case mget (files d) name of
         Some content \<Rightarrow> returnS content
       | None \<Rightarrow> bindS (modifyS (\<lambda>d. d\<lparr>files := mput name [] (files d)\<rparr>)) (\<lambda>_. returnS [])))"

definition append_file :: "string \<Rightarrow> bytes \<Rightarrow> DiskWal \<Rightarrow> DiskWal" where
  "append_file name buf d =
     d\<lparr>files := mput name ((case mget (files d) name of None \<Rightarrow> [] | Some c \<Rightarrow> c) @ buf) (files d)\<rparr>"

definition os_Append :: "string \<Rightarrow> bytes \<Rightarrow> (DiskWal, unit) prog" where
  "os_Append name buf =
     bindS os_call (\<lambda>f.
       case f of
         NoFault \<Rightarrow> modifyS (append_file name buf)
       | Fault n \<Rightarrow> bindS (modifyS (append_file name (take n buf))) (\<lambda>_. failS (OsError ''write'')))"

definition os_Write :: "bytes \<Rightarrow> (DiskWal, unit) prog" where
  "os_Write buf =
     bindS getS (\<lambda>d.
       case curFile d of
         None \<Rightarrow> failS (OsError ''invalid argument'')
       | Some (name, is_open) \<Rightarrow>
           if is_open then os_Append name buf else failS (OsError ''file already closed''))"

definition os_Close :: "(DiskWal, unit) prog" where
  "os_Close =
     bindS getS (\<lambda>d.
       case curFile d of
         None \<Rightarrow> failS (OsError ''invalid argument'')
       | Some (name, is_open) \<Rightarrow>
           if is_open
           then bindS (modifyS (\<lambda>d. d\<lparr>curFile := Some (name, False)\<rparr>)) (\<lambda>_. os_check ''close'')
           else failS (OsError ''file already closed''))"

section \<open>Writing\<close>

definition curPosition :: "DiskWal \<Rightarrow> SequenceId" where
  "curPosition d = SequenceId (curTerm d) (curCollection d) (curSeq d)"

definition CurrentSequence :: "DiskWal \<Rightarrow> SequenceId" where
  "CurrentSequence d = curPosition d"

definition openCurrent :: "(DiskWal, unit) prog" where
  "openCurrent =
     bindS getS (\<lambda>d.
     bindS (os_OpenFile (filename (curTerm d) (curCollection d))) (\<lambda>_.
       modifyS (\<lambda>d'. d'\<lparr>curFile := Some (filename (curTerm d) (curCollection d), True)\<rparr>)))"

definition guaranteePage :: "int \<Rightarrow> (DiskWal, unit) prog" where
  "guaranteePage pageCnt =
     bindS getS (\<lambda>d.
       if curFile d = None then
         bindS (modifyS (\<lambda>d. d\<lparr>curCollection := i64 (curCollection d + 1), curSeq := 0\<rparr>)) (\<lambda>_.
           openCurrent)
       else if i64 ((pageOccupied d + pageCnt) * int (maxPageSize d)) > maxFileSize d then
         bindS os_Close (\<lambda>_.
         bindS (modifyS (\<lambda>d. d\<lparr>curCollection := i64 (curCollection d + 1), curSeq := 0, pageOccupied := 0\<rparr>)) (\<lambda>_.
           openCurrent))
       else returnS ())"

definition writeDataPage :: "bytes \<Rightarrow> EntryType \<Rightarrow> (DiskWal, unit) prog" where
  "writeDataPage dat entryType =
     bindS getS (\<lambda>d.
     bindS (liftR (prepareDataBufByPage (maxPageSize d) dat entryType)) (\<lambda>buf.
     bindS (os_Write buf) (\<lambda>_.
       modifyS (\<lambda>d. d\<lparr>curSeq := i64 (curSeq d + 1), pageOccupied := i32 (pageOccupied d + 1)\<rparr>))))"

text \<open>
  The loop over the pages of a long entry. A page that holds no data (\<open>recordMax = 0\<close>, which the
  page size of \<open>NewDiskWal\<close> excludes) makes no progress: the loop does not return.
\<close>

function writeLoop :: "nat \<Rightarrow> bytes \<Rightarrow> nat \<Rightarrow> (DiskWal, unit) prog" where
  "writeLoop recordMax bs offset s =
     (let t = (if offset = 0 then EntryTypeStart else EntryTypeMiddle);
          (n, t) = (if offset + recordMax \<ge> length bs then (length bs - offset, EntryTypeEnd)
                    else (recordMax, t))
      in case bindS (guaranteePage 1) (\<lambda>_. writeDataPage (take n (drop offset bs)) t) s of
           (Ok _, s') \<Rightarrow>
             if offset + n \<ge> length bs then (Ok (), s')
             else if n = 0 then (Diverge, s')
             else writeLoop recordMax bs (offset + n) s'
         | (r, s') \<Rightarrow> (r, s'))"
  by pat_completeness auto
termination
  by (relation "measure (\<lambda>(recordMax, bs, offset, s). length bs - offset)") auto

declare writeLoop.simps [simp del]

definition WriteEntryWithFullPage :: "bytes \<Rightarrow> (DiskWal, SequenceId) prog" where
  "WriteEntryWithFullPage bs =
     bindS getS (\<lambda>d.
       let recordMax = maxPageSize d - RecordHeaderSize in
       bindS (if recordMax \<ge> length bs
              then bindS (guaranteePage 1) (\<lambda>_. writeDataPage bs EntryTypeWhole)
              else writeLoop recordMax bs 0) (\<lambda>_.
       bindS (modifyS (\<lambda>d. d\<lparr>dirty := True\<rparr>)) (\<lambda>_.
       bindS getS (\<lambda>d. returnS (curPosition d)))))"

definition WriteEntry :: "bytes \<Rightarrow> (DiskWal, SequenceId) prog" where
  "WriteEntry bs = WriteEntryWithFullPage bs"

section \<open>Reading\<close>

text \<open>
  The loop over the pages of an open file, with the unread rest as the file position:
  \<open>io.ReadFull\<close> fills one page, ends the loop at the end of the file and fails inside a page.
\<close>

function forPages :: "('s, fault) prog \<Rightarrow> nat \<Rightarrow> (bytes \<Rightarrow> ('s, unit) prog) \<Rightarrow> bytes \<Rightarrow> ('s, unit) prog" where
  "forPages call n body rest s =
     (if n = 0 then (case body [] s of (Ok _, s') \<Rightarrow> (Diverge, s') | (r, s') \<Rightarrow> (r, s'))
      else case call s of
        (Ok (Fault _), s') \<Rightarrow> (Err (OsError ''read''), s')
      | (Ok NoFault, s') \<Rightarrow>
          if rest = [] then (Ok (), s')
          else if length rest < n then (Err (OsError ''unexpected EOF''), s')
          else (case body (take n rest) s' of
                  (Ok _, s'') \<Rightarrow> forPages call n body (drop n rest) s''
                | (r, s'') \<Rightarrow> (r, s''))
      | (Err e, s') \<Rightarrow> (Err e, s')
      | (Panic p, s') \<Rightarrow> (Panic p, s')
      | (Diverge, s') \<Rightarrow> (Diverge, s'))"
  by pat_completeness auto
termination
  by (relation "measure (\<lambda>(call, n, body, rest, s). length rest)") auto

declare forPages.simps [simp del]

record wal_info =
  totalPages :: int
  totalValidSeq :: int
  lastRecords :: "(bytes \<times> EntryType) list"

definition infoBody :: "bytes \<Rightarrow> (DiskWal \<times> wal_info, unit) prog" where
  "infoBody pageBuf =
     bindS (liftR (pageRecordsInfo pageBuf)) (\<lambda>recordsInfo.
       modifyS (\<lambda>(d, i). (d, i\<lparr>lastRecords := recordsInfo, totalPages := i32 (totalPages i + 1),
         totalValidSeq := i64 (totalValidSeq i + int (length recordsInfo))\<rparr>)))"

definition readWalFileInfo :: "string \<Rightarrow> (DiskWal, wal_info) prog" where
  "readWalFileInfo file =
     bindS getS (\<lambda>d0.
     bindS (os_OpenFile file) (\<lambda>content d.
       case forPages (onFst os_call) (maxPageSize d0) infoBody content
              (d, \<lparr>totalPages = 0, totalValidSeq = 0, lastRecords = []\<rparr>) of
         (Ok _, (d, i)) \<Rightarrow>
           if lastRecords i = [] then (Panic ''index out of range'', d)
           else if snd (last (lastRecords i)) = EntryTypeMiddle then
             bindS (liftR (prepareDataBufByPage (maxPageSize d0) [] EntryTypeBrokenEnd)) (\<lambda>dat.
             bindS (os_Append file dat) (\<lambda>_.
               returnS (i\<lparr>totalPages := i32 (totalPages i + 1),
                          totalValidSeq := i64 (totalValidSeq i + 1)\<rparr>))) d
           else (Ok i, d)
       | (Err e, (d, _)) \<Rightarrow> (Err e, d)
       | (Panic p, (d, _)) \<Rightarrow> (Panic p, d)
       | (Diverge, (d, _)) \<Rightarrow> (Diverge, d)))"

definition seekBody :: "bytes \<Rightarrow> (DiskWal, unit) prog" where
  "seekBody _ = modifyS (\<lambda>d. d\<lparr>pageOccupied := i32 (pageOccupied d + 1)\<rparr>)"

definition seekWalFileWritePoint :: "string \<Rightarrow> (DiskWal, unit) prog" where
  "seekWalFileWritePoint name =
     bindS getS (\<lambda>d0.
     bindS (os_OpenFile name) (\<lambda>content.
     bindS (forPages os_call (maxPageSize d0) seekBody content) (\<lambda>_.
       modifyS (\<lambda>d. d\<lparr>curFile := Some (name, True)\<rparr>))))"

text \<open>The walk over the folder keeps the names that \<open>walfilename\<close> accepts, with their positions.\<close>

definition walkStep :: "(string, SequenceId) gomap \<Rightarrow> string \<Rightarrow> (string, SequenceId) gomap" where
  "walkStep m path = (case walfilename path of Ok (name, seq) \<Rightarrow> mput name seq m | _ \<Rightarrow> m)"

definition walFileMap :: "(string, bytes) gomap \<Rightarrow> (string, SequenceId) gomap" where
  "walFileMap fs = foldl walkStep [] (mkeys fs)"

definition listWalFiles :: "(DiskWal, string list) prog" where
  "listWalFiles =
     bindS (os_check ''walk'') (\<lambda>_.
     bindS getS (\<lambda>d. returnS (sort (mkeys (walFileMap (files d))))))"

definition Initialize :: "(DiskWal, SequenceId) prog" where
  "Initialize =
     bindS (os_check ''mkdir'') (\<lambda>_.
     bindS (os_check ''walk'') (\<lambda>_.
     bindS getS (\<lambda>d.
       let fileMap = walFileMap (files d); fileNames = sort (mkeys fileMap) in
       if fileNames = [] then
         bindS (modifyS (\<lambda>d. d\<lparr>curTerm := 1, curCollection := 0, curSeq := 0\<rparr>)) (\<lambda>_.
         bindS getS (\<lambda>d. returnS (curPosition d)))
       else
         let lastFileName = last fileNames;
             pos = (case mget fileMap lastFileName of Some p \<Rightarrow> p | None \<Rightarrow> EmptySequenceId) in
         bindS (readWalFileInfo lastFileName) (\<lambda>finfo.
         bindS (modifyS (\<lambda>d. d\<lparr>curSeq := totalValidSeq finfo, curTerm := Term pos,
                                curCollection := Collection pos\<rparr>)) (\<lambda>_.
         bindS (seekWalFileWritePoint lastFileName) (\<lambda>_.
         bindS getS (\<lambda>d. returnS (curPosition d))))))))"

section \<open>Replay\<close>

definition replayBody :: "(bytes \<Rightarrow> ('k, unit) prog) \<Rightarrow> bytes \<Rightarrow> (DiskWal \<times> 'k, unit) prog" where
  "replayBody fn pageBuf =
     bindS (liftR (pageRecordsInfo pageBuf)) (\<lambda>recordsInfo.
       forEach (\<lambda>v. onSnd (fn (fst v))) recordsInfo)"

definition replayFile :: "string \<Rightarrow> (bytes \<Rightarrow> ('k, unit) prog) \<Rightarrow> (DiskWal \<times> 'k, unit) prog" where
  "replayFile name fn =
     bindS getS (\<lambda>dk.
     bindS (onFst (os_OpenFile name)) (\<lambda>content.
       forPages (onFst os_call) (maxPageSize (fst dk)) (replayBody fn) content))"

definition replayFiles :: "string list \<Rightarrow> (bytes \<Rightarrow> ('k, unit) prog) \<Rightarrow> (DiskWal \<times> 'k, unit) prog" where
  "replayFiles vs fn = forEach (\<lambda>v. replayFile v fn) vs"

text \<open>The search for the file to start from: the last one that is not after the target.\<close>

fun replayIndex :: "string \<Rightarrow> string list \<Rightarrow> int \<Rightarrow> int" where
  "replayIndex target [] idx = idx"
| "replayIndex target (v # vs) idx = (if target < v then idx else replayIndex target vs (idx + 1))"

definition ReplayIncomplete :: "SequenceId \<Rightarrow> (bytes \<Rightarrow> ('k, unit) prog) \<Rightarrow> (DiskWal \<times> 'k, SequenceId) prog" where
  "ReplayIncomplete from f =
     bindS getS (\<lambda>(d, _).
       if curTerm d = Term from \<and> curCollection d = Collection from \<and> curSeq d = Seq from then returnS from
       else if curTerm d = 1 \<and> curCollection d = 0 \<and> curSeq d = 0 then returnS StartWalSequence
       else if Compare from (SequenceId (curTerm d) (curCollection d) (curSeq d)) > 0 then
         failS (ErrorMsg ''replay incomplete failed - request newer wal than history'')
       else
         bindS (onFst listWalFiles) (\<lambda>fs.
           let idx = replayIndex (filename (Term from) (Collection from)) fs (-1) in
           if idx = -1 then failS (ErrorMsg ''replay incomplete failed - insufficient wal history'')
           else bindS (replayFiles (drop (nat idx) fs) f) (\<lambda>_.
                bindS getS (\<lambda>(d, _). returnS (curPosition d)))))"

end
