(* ===== verification/Disk_Wal_Props.thy ===== *)
theory Disk_Wal_Props
  imports Disk_Wal
begin

text \<open>
  What the write-ahead log promises. The contents of a folder are described by a ghost log: the
  records of each file, in file order. \<open>wal_rep\<close> ties a state to its ghost log; every successful
  write appends the pages of the entry to it, and start-up and replay read it back.
\<close>

section \<open>The ghost log\<close>

type_synonym wal_record = "bytes \<times> EntryType"
type_synonym wal_log = "((int \<times> int) \<times> wal_record list) list"

definition rec_ok :: "nat \<Rightarrow> wal_record \<Rightarrow> bool" where
  "rec_ok ps r \<longleftrightarrow> length (fst r) \<le> ps - 8 \<and> snd r AND 15 = snd r"

definition page_of :: "nat \<Rightarrow> wal_record \<Rightarrow> bytes" where
  "page_of ps r = (case prepareDataBufByPage ps (fst r) (snd r) of Ok b \<Rightarrow> b | _ \<Rightarrow> [])"

definition file_of :: "nat \<Rightarrow> wal_record list \<Rightarrow> bytes" where
  "file_of ps rs = concat (map (page_of ps) rs)"

definition log_name :: "int \<times> int \<Rightarrow> string" where
  "log_name k = filename (fst k) (snd k)"

definition key_ok :: "int \<times> int \<Rightarrow> bool" where
  "key_ok k \<longleftrightarrow> 0 < fst k \<and> in_i64 (fst k) \<and> 0 < snd k \<and> in_i64 (snd k)"

definition wal_files :: "nat \<Rightarrow> (string, bytes) gomap \<Rightarrow> wal_log \<Rightarrow> bool" where
  "wal_files ps fs L \<longleftrightarrow>
     mwf fs \<and> sorted_wrt (<) (map (log_name \<circ> fst) L)
     \<and> (\<forall>(k, rs) \<in> set L. key_ok k \<and> mget fs (log_name k) = Some (file_of ps rs)
          \<and> (\<forall>r \<in> set rs. rec_ok ps r))
     \<and> (\<forall>n x. mget fs n \<noteq> None \<longrightarrow> walfilename n = Ok x \<longrightarrow> n \<in> (log_name \<circ> fst) ` set L)"

definition wal_params :: "DiskWal \<Rightarrow> bool" where
  "wal_params d \<longleftrightarrow> 8 < maxPageSize d \<and> maxPageSize d < 65536
     \<and> int (maxPageSize d) \<le> maxFileSize d \<and> maxFileSize d < 2 ^ 31"

definition wal_rep :: "DiskWal \<Rightarrow> wal_log \<Rightarrow> bool" where
  "wal_rep d L \<longleftrightarrow> wal_params d \<and> wal_files (maxPageSize d) (files d) L
     \<and> 0 < curTerm d \<and> in_i64 (curTerm d) \<and> 0 \<le> curCollection d
     \<and> (case curFile d of
          None \<Rightarrow> L = [] \<and> pageOccupied d = 0 \<and> curSeq d = 0
        | Some (n, is_open) \<Rightarrow>
            is_open \<and> L \<noteq> [] \<and> snd (last L) \<noteq> [] \<and> fst (last L) = (curTerm d, curCollection d)
            \<and> n = log_name (fst (last L))
            \<and> pageOccupied d = int (length (snd (last L))) \<and> curSeq d = pageOccupied d
            \<and> pageOccupied d * int (maxPageSize d) \<le> maxFileSize d)"

definition log_records :: "wal_log \<Rightarrow> wal_record list" where
  "log_records L = concat (map snd L)"

text \<open>The ghost step of one page: into the last file, or into the first of a new file.\<close>

definition log_extend :: "wal_log \<Rightarrow> wal_record \<Rightarrow> wal_log" where
  "log_extend L r = butlast L @ [(fst (last L), snd (last L) @ [r])]"

definition log_rotate :: "wal_log \<Rightarrow> int \<times> int \<Rightarrow> wal_record \<Rightarrow> wal_log" where
  "log_rotate L k r = L @ [(k, [r])]"

lemma log_records_extend: "L \<noteq> [] \<Longrightarrow> log_records (log_extend L r) = log_records L @ [r]"
  by (cases L rule: rev_cases) (auto simp: log_records_def log_extend_def)

lemma log_records_rotate: "log_records (log_rotate L k r) = log_records L @ [r]"
  by (simp add: log_records_def log_rotate_def)

lemma file_of_append: "file_of ps (rs @ [r]) = file_of ps rs @ page_of ps r"
  by (simp add: file_of_def)

lemma prepare_page_of:
  "8 \<le> ps \<Longrightarrow> prepareDataBufByPage ps (fst r) (snd r) = Ok (page_of ps r)"
  using prepare_Ok[of ps "fst r" "snd r"] by (auto simp: page_of_def)

lemma log_name_less:
  "key_ok k \<Longrightarrow> key_ok k' \<Longrightarrow>
    log_name k < log_name k' \<longleftrightarrow> fst k < fst k' \<or> fst k = fst k' \<and> snd k < snd k'"
  by (simp add: key_ok_def log_name_def filename_less)

lemma log_name_ok: "key_ok k \<Longrightarrow> walfilename (log_name k) = Ok (log_name k, SequenceId (fst k) (snd k) 0)"
  by (simp add: key_ok_def log_name_def walfilename_filename)

lemma log_name_inj: "key_ok k \<Longrightarrow> key_ok k' \<Longrightarrow> log_name k = log_name k' \<longleftrightarrow> k = k'"
  by (auto simp: key_ok_def log_name_def filename_inj prod_eq_iff)

section \<open>The folder after a page\<close>

lemma wal_filesD:
  assumes "wal_files ps fs L"
  shows "mwf fs" "sorted_wrt (<) (map (log_name \<circ> fst) L)"
    and "\<And>k rs. (k, rs) \<in> set L \<Longrightarrow> key_ok k"
    and "\<And>k rs. (k, rs) \<in> set L \<Longrightarrow> mget fs (log_name k) = Some (file_of ps rs)"
    and "\<And>k rs r. (k, rs) \<in> set L \<Longrightarrow> r \<in> set rs \<Longrightarrow> rec_ok ps r"
    and "\<And>n c x. mget fs n = Some c \<Longrightarrow> walfilename n = Ok x \<Longrightarrow> n \<in> (log_name \<circ> fst) ` set L"
  using assms unfolding wal_files_def by fastforce+

lemma wal_filesI:
  assumes "mwf fs" "sorted_wrt (<) (map (log_name \<circ> fst) L)"
    and "\<And>k rs. (k, rs) \<in> set L \<Longrightarrow> key_ok k"
    and "\<And>k rs. (k, rs) \<in> set L \<Longrightarrow> mget fs (log_name k) = Some (file_of ps rs)"
    and "\<And>k rs r. (k, rs) \<in> set L \<Longrightarrow> r \<in> set rs \<Longrightarrow> rec_ok ps r"
    and "\<And>n c x. mget fs n = Some c \<Longrightarrow> walfilename n = Ok x \<Longrightarrow> n \<in> (log_name \<circ> fst) ` set L"
  shows "wal_files ps fs L"
  using assms unfolding wal_files_def by auto

lemma wal_files_extend:
  assumes w: "wal_files ps fs L" and ne: "L \<noteq> []" and r: "rec_ok ps r"
  shows "wal_files ps (mput (log_name (fst (last L))) (file_of ps (snd (last L)) @ page_of ps r) fs)
    (log_extend L r)"
proof -
  obtain M k rs where L: "L = M @ [(k, rs)]"
    using ne by (metis rev_exhaust surj_pair)
  note d = wal_filesD[OF w, unfolded L]
  have less: "log_name k' < log_name k" if "(k', rs') \<in> set M" for k' rs'
    using d(2) that by (force simp: sorted_wrt_append)
  have E: "log_extend L r = M @ [(k, rs @ [r])]" by (simp add: L log_extend_def)
  have "wal_files ps (mput (log_name k) (file_of ps rs @ page_of ps r) fs) (M @ [(k, rs @ [r])])"
  proof (rule wal_filesI, goal_cases)
    case 1 show ?case using d(1) by simp
  next
    case 2 show ?case using d(2) by simp
  next
    case (3 k' rs') then show ?case using d(3)[of k' rs'] d(3)[of k rs] by auto
  next
    case (4 k' rs') then show ?case
      using d(4)[of k' rs'] less[of k' rs'] by (auto simp: file_of_append)
  next
    case (5 k' rs' x) then show ?case using d(5)[of k' rs' x] d(5)[of k rs x] r by auto
  next
    case (6 n c x) then show ?case using d(6)[of n _ x] by (cases "n = log_name k") auto
  qed
  then show ?thesis by (simp add: L E[unfolded L])
qed

lemma wal_files_fresh_name:
  assumes "wal_files ps fs L" "key_ok k" "\<forall>k' \<in> fst ` set L. log_name k' < log_name k"
  shows "mget fs (log_name k) = None"
proof (rule ccontr)
  assume "mget fs (log_name k) \<noteq> None"
  then obtain c where "mget fs (log_name k) = Some c" by auto
  then have "log_name k \<in> (log_name \<circ> fst) ` set L"
    using wal_filesD(6)[OF assms(1)] log_name_ok[OF assms(2)] by blast
  then show False using assms(3) by auto
qed

lemma wal_files_rotate:
  assumes w: "wal_files ps fs L" and r: "rec_ok ps r" and k: "key_ok k"
    and less: "\<forall>k' \<in> fst ` set L. log_name k' < log_name k"
  shows "wal_files ps (mput (log_name k) (page_of ps r) fs) (log_rotate L k r)"
  unfolding log_rotate_def
proof (rule wal_filesI, goal_cases)
  case 1 show ?case using wal_filesD(1)[OF w] by simp
next
  case 2 show ?case using wal_filesD(2)[OF w] less by (auto simp: sorted_wrt_append)
next
  case (3 k' rs') then show ?case using wal_filesD(3)[OF w, of k' rs'] k by auto
next
  case (4 k' rs') then show ?case
    using wal_filesD(4)[OF w, of k' rs'] less by (auto simp: file_of_def)
next
  case (5 k' rs' x) then show ?case using wal_filesD(5)[OF w, of k' rs' x] r by auto
next
  case (6 n c x) then show ?case using wal_filesD(6)[OF w, of n _ x] by (cases "n = log_name k") auto
qed

section \<open>One page\<close>

text \<open>Leaving the fault schedule aside, a call of the operating system that succeeds.\<close>

lemma os_call_cases:
  obtains fs where "os_call d = (Ok NoFault, d\<lparr>faults := fs\<rparr>)"
  | n fs where "os_call d = (Ok (Fault n), d\<lparr>faults := fs\<rparr>)"
proof (cases "faults d")
  case Nil
  then have "os_call d = (Ok NoFault, d\<lparr>faults := []\<rparr>)" by (simp add: os_call_def)
  then show ?thesis using that(1) by blast
next
  case (Cons f fs)
  then have "os_call d = (Ok f, d\<lparr>faults := fs\<rparr>)" by (simp add: os_call_def)
  then show ?thesis using that by (cases f) auto
qed

lemma os_check_Ok: "os_check w d = (Ok u, d') \<Longrightarrow> \<exists>fs. d' = d\<lparr>faults := fs\<rparr>"
  by (rule os_call_cases[of d])
    (auto simp: os_check_def returnS_def failS_def bindS_def split: if_splits)

lemma os_OpenFile_Ok:
  assumes "os_OpenFile name d = (Ok c, d')"
  obtains (old) fs where "mget (files d) name = Some c" "d' = d\<lparr>faults := fs\<rparr>"
  | (new) fs where "mget (files d) name = None" "c = []"
      "d' = d\<lparr>faults := fs, files := mput name [] (files d)\<rparr>"
proof -
  from assms[unfolded os_OpenFile_def] obtain u d1 where 1: "os_check ''open'' d = (Ok u, d1)"
    and 2: "bindS getS (\<lambda>d. case mget (files d) name of Some content \<Rightarrow> returnS content
       | None \<Rightarrow> bindS (modifyS (\<lambda>d. d\<lparr>files := mput name [] (files d)\<rparr>)) (\<lambda>_. returnS [])) d1 = (Ok c, d')"
    by (rule bindS_OkE)
  from os_check_Ok[OF 1] obtain fs where d1: "d1 = d\<lparr>faults := fs\<rparr>" by blast
  show thesis
  proof (cases "mget (files d) name")
    case None
    then show thesis using 2 d1 new by (auto simp: go_simps returnS_def)
  next
    case (Some x)
    then show thesis using 2 d1 old by (auto simp: go_simps returnS_def)
  qed
qed

lemma os_Append_Ok:
  "os_Append name buf d = (Ok u, d') \<Longrightarrow> \<exists>fs. d' = append_file name buf (d\<lparr>faults := fs\<rparr>)"
  by (rule os_call_cases[of d])
    (auto simp: os_Append_def modifyS_def failS_def bindS_def)

lemma os_Write_Ok:
  assumes "os_Write buf d = (Ok u, d')"
  shows "\<exists>name fs. curFile d = Some (name, True) \<and> d' = append_file name buf (d\<lparr>faults := fs\<rparr>)"
  using assms os_Append_Ok
  by (auto simp: os_Write_def go_simps failS_def split: option.splits prod.splits if_splits)

lemma os_Close_Ok:
  assumes "os_Close d = (Ok u, d')"
  shows "\<exists>name fs. curFile d = Some (name, True) \<and> d' = d\<lparr>curFile := Some (name, False), faults := fs\<rparr>"
  using assms
  by (fastforce simp: os_Close_def go_simps failS_def split: option.splits prod.splits if_splits
      dest: os_check_Ok)

lemma openCurrent_Ok:
  assumes "openCurrent d = (Ok u, d')" and "mget (files d) (filename (curTerm d) (curCollection d)) = None"
  shows "\<exists>fs. d' = d\<lparr>faults := fs, files := mput (filename (curTerm d) (curCollection d)) [] (files d),
    curFile := Some (filename (curTerm d) (curCollection d), True)\<rparr>"
  using assms(1) unfolding openCurrent_def
  by (auto simp: go_simps modifyS_def bindS_eq_Ok assms(2) elim!: os_OpenFile_Ok)

lemma writeDataPage_Ok:
  assumes "writeDataPage dat t d = (Ok u, d')" "8 \<le> maxPageSize d"
  shows "\<exists>name fs. curFile d = Some (name, True) \<and>
    d' = (append_file name (page_of (maxPageSize d) (dat, t)) (d\<lparr>faults := fs\<rparr>))
      \<lparr>curSeq := i64 (curSeq d + 1), pageOccupied := i32 (pageOccupied d + 1)\<rparr>"
proof -
  have "prepareDataBufByPage (maxPageSize d) dat t = Ok (page_of (maxPageSize d) (dat, t))"
    using prepare_page_of[OF assms(2), of "(dat, t)"] by simp
  then obtain d1 where w: "os_Write (page_of (maxPageSize d) (dat, t)) d = (Ok (), d1)"
    and d': "d' = d1\<lparr>curSeq := i64 (curSeq d1 + 1), pageOccupied := i32 (pageOccupied d1 + 1)\<rparr>"
    using assms(1) by (auto simp: writeDataPage_def go_simps modifyS_def bindS_eq_Ok)
  from os_Write_Ok[OF w] d' show ?thesis by (auto simp: append_file_def)
qed

lemma wal_repD:
  assumes "wal_rep d L"
  shows "wal_params d" "wal_files (maxPageSize d) (files d) L" "0 < curTerm d" "in_i64 (curTerm d)"
    "0 \<le> curCollection d"
    and "curFile d = None \<Longrightarrow> L = [] \<and> pageOccupied d = 0 \<and> curSeq d = 0"
    and "curFile d = Some (n, is_open) \<Longrightarrow> is_open \<and> L \<noteq> [] \<and> snd (last L) \<noteq> [] \<and> fst (last L) = (curTerm d, curCollection d)
        \<and> n = log_name (fst (last L)) \<and> pageOccupied d = int (length (snd (last L)))
        \<and> curSeq d = pageOccupied d \<and> pageOccupied d * int (maxPageSize d) \<le> maxFileSize d"
  using assms by (auto simp: wal_rep_def)

text \<open>How a successful step relates the two states: the log grows by the records, the files keep
  what they have, the position moves forward, by at most one file for each record.\<close>

definition log_grows :: "wal_log \<Rightarrow> wal_log \<Rightarrow> bool" where
  "log_grows L L' \<longleftrightarrow> (\<forall>(k, rs) \<in> set L. \<exists>rs'. (k, rs @ rs') \<in> set L')"

lemma log_grows_keys: "log_grows L L' \<Longrightarrow> fst ` set L \<subseteq> fst ` set L'"
  by (force simp: log_grows_def)

lemma log_grows_trans: "log_grows L L1 \<Longrightarrow> log_grows L1 L2 \<Longrightarrow> log_grows L L2"
  unfolding log_grows_def by (fastforce simp: split_beta)

definition page_step :: "DiskWal \<Rightarrow> wal_log \<Rightarrow> wal_record list \<Rightarrow> DiskWal \<Rightarrow> wal_log \<Rightarrow> bool" where
  "page_step d L rs d' L' \<longleftrightarrow>
     wal_rep d' L' \<and> log_records L' = log_records L @ rs \<and> L' \<noteq> []
     \<and> curPosition d < curPosition d' \<and> curCollection d \<le> curCollection d'
     \<and> curCollection d' \<le> curCollection d + int (length rs)
     \<and> curTerm d' = curTerm d \<and> maxPageSize d' = maxPageSize d \<and> maxFileSize d' = maxFileSize d
     \<and> fst ` set L \<subseteq> fst ` set L' \<and> log_grows L L'"

lemma page_step_new:
  assumes rep: "wal_rep d L" and r: "rec_ok (maxPageSize d) (dat, t)"
    and c: "curCollection d + 1 < 2 ^ 63" and L: "L = [] \<or> fst (last L) = (curTerm d, curCollection d)"
    and d1: "d1 = d\<lparr>curCollection := curCollection d + 1, curSeq := 0, pageOccupied := 0, faults := fs1, curFile := cf\<rparr>"
    and run: "bindS openCurrent (\<lambda>_. writeDataPage dat t) d1 = (Ok u, d')"
  shows "page_step d L [(dat, t)] d' (log_rotate L (curTerm d, curCollection d + 1) (dat, t))"
proof -
  let ?ps = "maxPageSize d"
  define k where "k = (curTerm d, curCollection d + 1)"
  note rd = wal_repD[OF rep]
  have ps: "8 < ?ps" "?ps < 65536" "int ?ps \<le> maxFileSize d" "maxFileSize d < 2 ^ 31"
    using rd(1) by (auto simp: wal_params_def)
  have k: "key_ok k" using rd(3-5) c by (simp add: key_ok_def k_def in_i64_def)
  have less: "\<forall>k' \<in> fst ` set L. log_name k' < log_name k"
  proof
    fix k' assume k': "k' \<in> fst ` set L"
    then obtain M z where L': "L = M @ [z]" by (metis empty_iff image_is_empty rev_exhaust set_empty2)
    then have z: "fst z = (curTerm d, curCollection d)" using L by simp
    have zk: "key_ok (fst z)" using wal_filesD(3)[OF rd(2), of "fst z" "snd z"] L' by simp
    have "log_name (fst z) < log_name k"
      using log_name_less[OF zk k] z by (simp add: k_def)
    moreover have "log_name k' \<le> log_name (fst z)"
      using wal_filesD(2)[OF rd(2)] k' unfolding L' by (auto simp: sorted_wrt_append order.strict_implies_order)
    ultimately show "log_name k' < log_name k" by simp
  qed
  have name: "filename (curTerm d1) (curCollection d1) = log_name k"
    by (simp add: d1 k_def log_name_def)
  have fresh: "mget (files d1) (log_name k) = None"
    using wal_files_fresh_name[OF rd(2) k less] by (simp add: d1)
  obtain d2 where o: "openCurrent d1 = (Ok (), d2)" and w: "writeDataPage dat t d2 = (Ok u, d')"
    using run by (auto simp: bindS_eq_Ok)
  obtain fs2 where d2: "d2 = d1\<lparr>faults := fs2, files := mput (log_name k) [] (files d1),
      curFile := Some (log_name k, True)\<rparr>"
    using openCurrent_Ok[OF o] fresh name by auto
  obtain fs3 where d': "d' = (append_file (log_name k) (page_of ?ps (dat, t)) (d2\<lparr>faults := fs3\<rparr>))
      \<lparr>curSeq := 1, pageOccupied := 1\<rparr>"
    using writeDataPage_Ok[OF w] ps(1) by (auto simp: d2 d1 i64_small i32_small)
  have files: "files d' = mput (log_name k) (page_of ?ps (dat, t)) (files d)"
    by (simp add: d' append_file_def d2 d1)
  have wf: "wal_files ?ps (files d') (log_rotate L k (dat, t))"
    unfolding files by (rule wal_files_rotate[OF rd(2) r k less])
  have rep': "wal_rep d' (log_rotate L k (dat, t))"
    using wf rd(3-5) ps unfolding wal_rep_def
    by (auto simp: d' append_file_def d2 d1 log_rotate_def k_def wal_params_def)
  have "curPosition d < curPosition d'"
    by (simp add: less_SequenceId_def curPosition_def d' append_file_def d2 d1)
  then show ?thesis
    using rep' unfolding page_step_def
    by (simp add: k_def[symmetric] log_records_rotate d' append_file_def d2 d1) (auto simp: log_rotate_def log_grows_def intro: exI[of _ "[]"])
qed

lemma page_step_same:
  assumes rep: "wal_rep d L" and r: "rec_ok (maxPageSize d) (dat, t)"
    and cf: "curFile d = Some (n, is_open)"
    and room: "(pageOccupied d + 1) * int (maxPageSize d) \<le> maxFileSize d"
    and run: "writeDataPage dat t d = (Ok u, d')"
  shows "page_step d L [(dat, t)] d' (log_extend L (dat, t))"
proof -
  let ?ps = "maxPageSize d"
  note rd = wal_repD(1-5)[OF rep] wal_repD(7)[OF rep cf]
  have ps: "8 < ?ps" "?ps < 65536" "int ?ps \<le> maxFileSize d" "maxFileSize d < 2 ^ 31"
    using rd(1) by (auto simp: wal_params_def)
  have po: "0 \<le> pageOccupied d" using rd(6) by auto
  have "(pageOccupied d + 1) * 8 \<le> (pageOccupied d + 1) * int ?ps"
    using po ps(1) by (intro mult_left_mono) auto
  then have bound: "pageOccupied d + 1 < 2147483648" using room ps(4) by simp
  obtain M k rs where L: "L = M @ [(k, rs)]" and k: "k = (curTerm d, curCollection d)"
    using rd(6) by (metis fst_conv last_snoc rev_exhaust surj_pair)
  have n: "n = log_name k" and len: "pageOccupied d = int (length rs)" "curSeq d = int (length rs)" is_open
    using rd(6) L by auto
  have old: "mget (files d) (log_name k) = Some (file_of ?ps rs)"
    using wal_filesD(4)[OF rd(2)] L by auto
  obtain fs where d': "d' = (append_file (log_name k) (page_of ?ps (dat, t)) (d\<lparr>faults := fs\<rparr>))
      \<lparr>curSeq := int (length rs) + 1, pageOccupied := int (length rs) + 1\<rparr>"
    using writeDataPage_Ok[OF run] ps(1) cf n bound len by (auto simp: i64_small i32_small)
  have files: "files d' = mput (log_name k) (file_of ?ps rs @ page_of ?ps (dat, t)) (files d)"
    using old by (simp add: d' append_file_def)
  have wf: "wal_files ?ps (files d') (log_extend L (dat, t))"
    unfolding files using wal_files_extend[OF rd(2) _ r] L by simp
  have E: "log_extend L (dat, t) = M @ [(k, rs @ [(dat, t)])]" by (simp add: log_extend_def L)
  have rep': "wal_rep d' (log_extend L (dat, t))"
    using wf rd(3-5) ps room k n cf len unfolding wal_rep_def
    by (auto simp: d' append_file_def E wal_params_def add.commute)
  have "curPosition d < curPosition d'"
    by (simp add: less_SequenceId_def curPosition_def d' append_file_def len)
  moreover have "log_records (log_extend L (dat, t)) = log_records L @ [(dat, t)]"
    by (rule log_records_extend) (simp add: L)
  moreover have "fst ` set L \<subseteq> fst ` set (log_extend L (dat, t))"
    unfolding E by (simp add: L)
  moreover have "log_grows L (log_extend L (dat, t))" unfolding E by (auto simp: L log_grows_def intro: exI[of _ "[]"])
  moreover have "log_extend L (dat, t) \<noteq> []" by (simp add: E)
  ultimately show ?thesis
    using rep' unfolding page_step_def by (simp add: d' append_file_def)
qed

lemma guaranteed_page_step:
  assumes rep: "wal_rep d L" and r: "rec_ok (maxPageSize d) (dat, t)"
    and c: "curCollection d + 1 < 2 ^ 63"
    and run: "bindS (guaranteePage 1) (\<lambda>_. writeDataPage dat t) d = (Ok u, d')"
  shows "\<exists>L'. page_step d L [(dat, t)] d' L'"
proof -
  note rd = wal_repD[OF rep]
  have ci: "i64 (curCollection d + 1) = curCollection d + 1"
    using rd(5) c by (intro i64_small) auto
  have ps: "8 < maxPageSize d" "maxPageSize d < 65536" "maxFileSize d < 2 ^ 31"
    using rd(1) by (auto simp: wal_params_def)
  show ?thesis
  proof (cases "curFile d")
    case None
    have "d\<lparr>curCollection := curCollection d + 1, curSeq := 0\<rparr>
        = d\<lparr>curCollection := curCollection d + 1, curSeq := 0, pageOccupied := 0, faults := faults d, curFile := curFile d\<rparr>"
      using rd(6)[OF None] by simp
    moreover have "bindS openCurrent (\<lambda>_. writeDataPage dat t)
        (d\<lparr>curCollection := curCollection d + 1, curSeq := 0\<rparr>) = (Ok u, d')"
      using run None ci by (simp add: guaranteePage_def bindS_def getS_def modifyS_def)
    ultimately show ?thesis
      using page_step_new[OF rep r c, of _ "curFile d" "faults d"] rd(6)[OF None] by metis
  next
    case (Some f)
    obtain n is_open where f: "f = (n, is_open)" by fastforce
    note cf = rd(7)[OF Some[unfolded f]]
    have mult: "(pageOccupied d + 1) * int (maxPageSize d) = pageOccupied d * int (maxPageSize d) + int (maxPageSize d)"
      by (simp add: algebra_simps)
    have "0 \<le> pageOccupied d * int (maxPageSize d)" using cf by auto
    then have small: "i64 ((pageOccupied d + 1) * int (maxPageSize d)) = (pageOccupied d + 1) * int (maxPageSize d)"
      using cf ps mult by (intro i64_small) auto
    show ?thesis
    proof (cases "(pageOccupied d + 1) * int (maxPageSize d) \<le> maxFileSize d")
      case True
      then have "writeDataPage dat t d = (Ok u, d')"
        using run Some small by (simp add: guaranteePage_def bindS_def getS_def returnS_def)
      then show ?thesis
        using page_step_same[OF rep r Some[unfolded f] True] by blast
    next
      case False
      obtain d0 where close: "os_Close d = (Ok (), d0)"
        and rest: "bindS openCurrent (\<lambda>_. writeDataPage dat t)
          (d0\<lparr>curCollection := i64 (curCollection d0 + 1), curSeq := 0, pageOccupied := 0\<rparr>) = (Ok u, d')"
        using run Some small False
        by (auto simp: guaranteePage_def bindS_def getS_def modifyS_def split: prod.splits res.splits)
      obtain fs where d0: "d0 = d\<lparr>curFile := Some (n, False), faults := fs\<rparr>"
        using os_Close_Ok[OF close] Some f by auto
      show ?thesis
        using page_step_new[OF rep r c _ _ rest, of "Some (n, False)" fs] cf ci
        by (auto simp: d0)
    qed
  qed
qed

lemma page_step_trans:
  "page_step d L rs d1 L1 \<Longrightarrow> page_step d1 L1 rs' d2 L2 \<Longrightarrow> page_step d L (rs @ rs') d2 L2"
  unfolding page_step_def by (elim conjE, intro conjI) (assumption | simp | erule (1) less_trans subset_trans log_grows_trans)+

section \<open>The pages of an entry\<close>

function chunks :: "nat \<Rightarrow> bool \<Rightarrow> bytes \<Rightarrow> wal_record list" where
  "chunks m first bs =
     (if m = 0 \<or> length bs \<le> m then [(bs, EntryTypeEnd)]
      else (take m bs, if first then EntryTypeStart else EntryTypeMiddle) # chunks m False (drop m bs))"
  by pat_completeness auto
termination
  by (relation "measure (\<lambda>(m, first, bs). length bs)") auto

declare chunks.simps [simp del]

definition entry_records :: "nat \<Rightarrow> bytes \<Rightarrow> wal_record list" where
  "entry_records ps bs =
     (if length bs \<le> ps - RecordHeaderSize then [(bs, EntryTypeWhole)]
      else chunks (ps - RecordHeaderSize) True bs)"

lemma concat_chunks: "concat (map fst (chunks m first bs)) = bs"
proof (induction m first bs rule: chunks.induct)
  case (1 m first bs)
  then show ?case by (cases "m = 0 \<or> length bs \<le> m") (simp_all add: chunks.simps[of m first])
qed

lemma length_chunks: "0 < m \<Longrightarrow> length (chunks m first bs) \<le> Suc (length bs div m)"
proof (induction m first bs rule: chunks.induct)
  case (1 m first bs)
  show ?case
  proof (cases "length bs \<le> m")
    case True
    then show ?thesis by (simp add: chunks.simps[of m first])
  next
    case False
    then have "length bs div m = Suc ((length bs - m) div m)"
      using "1.prems" by (simp add: le_div_geq)
    then show ?thesis using 1 False by (simp add: chunks.simps[of m first])
  qed
qed

lemma chunks_rec_ok: "r \<in> set (chunks (ps - 8) first bs) \<Longrightarrow> 8 < ps \<Longrightarrow> rec_ok ps r"
proof (induction "ps - 8" first bs rule: chunks.induct)
  case (1 first bs)
  have t: "EntryTypeEnd AND 15 = EntryTypeEnd" "EntryTypeStart AND 15 = EntryTypeStart"
    "EntryTypeMiddle AND 15 = EntryTypeMiddle" by (simp_all add: entry_type_defs)
  show ?case
  proof (cases "length bs \<le> ps - 8")
    case True
    then show ?thesis using "1.prems" t by (simp add: chunks.simps[of "ps - 8"] rec_ok_def)
  next
    case False
    then have "r = (take (ps - 8) bs, if first then EntryTypeStart else EntryTypeMiddle)
        \<or> r \<in> set (chunks (ps - 8) False (drop (ps - 8) bs))"
      using "1.prems" by (auto simp: chunks.simps[of "ps - 8" first])
    then show ?thesis using 1 False t by (auto simp: rec_ok_def)
  qed
qed

lemma entry_records_concat: "concat (map fst (entry_records ps bs)) = bs"
  by (simp add: entry_records_def concat_chunks)

lemma entry_records_ok: "r \<in> set (entry_records ps bs) \<Longrightarrow> 8 < ps \<Longrightarrow> rec_ok ps r"
  using chunks_rec_ok[of r ps True bs]
  by (auto simp: entry_records_def rec_ok_def RecordHeaderSize_def entry_type_defs split: if_splits)

text \<open>The types of the pages: a whole entry, or a start, middles and an end.\<close>

lemma chunks_types:
  "0 < m \<Longrightarrow> \<exists>k. map snd (chunks m False bs) = replicate k EntryTypeMiddle @ [EntryTypeEnd]"
proof (induction m False bs rule: chunks.induct)
  case (1 m bs)
  show ?case
  proof (cases "length bs \<le> m")
    case True
    then show ?thesis by (intro exI[of _ 0]) (simp add: chunks.simps[of m])
  next
    case False
    with 1 obtain k where "map snd (chunks m False (drop m bs)) = replicate k EntryTypeMiddle @ [EntryTypeEnd]"
      by auto
    then show ?thesis
      using False "1.prems" by (intro exI[of _ "Suc k"]) (simp add: chunks.simps[of m False bs])
  qed
qed

lemma entry_records_types:
  assumes "8 < ps"
  shows "map snd (entry_records ps bs) = [EntryTypeWhole] \<or>
    (\<exists>k. map snd (entry_records ps bs) = EntryTypeStart # replicate k EntryTypeMiddle @ [EntryTypeEnd])"
  using assms chunks_types[of "ps - 8" "drop (ps - 8) bs"]
  by (auto simp: entry_records_def RecordHeaderSize_def chunks.simps[of _ True])

section \<open>Writing an entry\<close>

lemma writeLoop_step:
  assumes "writeLoop m bs offset d = (Ok u, d')" "wal_rep d L" "m = maxPageSize d - 8" "offset < length bs"
    "curCollection d + int (length (chunks m (offset = 0) (drop offset bs))) < 2 ^ 63"
  shows "\<exists>L'. page_step d L (chunks m (offset = 0) (drop offset bs)) d' L'"
  using assms
proof (induction m bs offset d arbitrary: L rule: writeLoop.induct)
  case (1 m bs offset d)
  have ps: "8 < maxPageSize d" using wal_repD(1)[OF "1.prems"(2)] by (simp add: wal_params_def)
  then have m: "0 < m" using "1.prems"(3) by simp
  let ?final = "length bs \<le> offset + m"
  define t where "t = (if ?final then EntryTypeEnd else if offset = 0 then EntryTypeStart else EntryTypeMiddle)"
  define n where "n = (if ?final then length bs - offset else m)"
  let ?dat = "take n (drop offset bs)"
  let ?cs = "chunks m (offset = 0) (drop offset bs)"
  have cs: "?cs = (?dat, t) # (if ?final then [] else chunks m False (drop (offset + n) bs))"
    using m by (simp add: chunks.simps[of m "offset = 0"] n_def t_def le_diff_conv add.commute)
  have ok: "rec_ok (maxPageSize d) (?dat, t)"
    by (rule chunks_rec_ok[of _ _ "offset = 0" "drop offset bs"]) (use cs "1.prems"(3) ps in auto)
  have c: "curCollection d + 1 < 2 ^ 63" using "1.prems"(5) unfolding cs by simp
  have run: "(case bindS (guaranteePage 1) (\<lambda>_. writeDataPage ?dat t) d of
           (Ok _, s') \<Rightarrow> if offset + n \<ge> length bs then (Ok (), s') else if n = 0 then (Diverge, s')
             else writeLoop m bs (offset + n) s'
         | (r, s') \<Rightarrow> (r, s')) = (Ok u, d')"
    using "1.prems"(1) unfolding writeLoop.simps[of m bs offset d] n_def t_def
    by (cases ?final; cases "offset = 0") (simp_all add: Let_def cong: res.case_cong prod.case_cong)
  then obtain d1 where step: "bindS (guaranteePage 1) (\<lambda>_. writeDataPage ?dat t) d = (Ok (), d1)"
    and rest: "(if length bs \<le> offset + n then (Ok (), d1) else if n = 0 then (Diverge, d1)
       else writeLoop m bs (offset + n) d1) = (Ok u, d')"
    by (auto split: prod.splits res.splits)
  obtain L1 where s1: "page_step d L [(?dat, t)] d1 L1"
    using guaranteed_page_step[OF "1.prems"(2) ok c step] by blast
  show ?case
  proof (cases ?final)
    case True
    then have "d1 = d'" using rest "1.prems"(4) by (simp add: n_def)
    then show ?thesis using s1 True unfolding cs by auto
  next
    case False
    then have n: "n = m" "\<not> length bs \<le> offset + n" by (simp_all add: n_def)
    have rest': "writeLoop m bs (offset + n) d1 = (Ok u, d')" using rest n m by simp
    have rep1: "wal_rep d1 L1" "maxPageSize d1 = maxPageSize d" "curCollection d1 \<le> curCollection d + 1"
      using s1 by (auto simp: page_step_def)
    have "\<exists>L'. page_step d1 L1 (chunks m (offset + n = 0) (drop (offset + n) bs)) d' L'"
    proof (rule "1.IH"[OF refl _ refl _ refl])
      show "writeLoop m bs (offset + n) d1 = (Ok u, d')" by (rule rest')
    qed (use False n m step rep1 "1.prems"(3,5) cs t_def in auto)
    then obtain L2 where "page_step d1 L1 (chunks m False (drop (offset + n) bs)) d' L2"
      using n m by auto
    from page_step_trans[OF s1 this] show ?thesis unfolding cs using False by auto
  qed
qed

lemma wal_rep_dirty: "wal_rep (d\<lparr>dirty := b\<rparr>) L = wal_rep d L"
  by (cases "curFile d") (simp_all add: wal_rep_def wal_params_def split: prod.splits)

lemma page_step_dirty:
  "page_step d L rs d' L' \<Longrightarrow> page_step d L rs (d'\<lparr>dirty := b\<rparr>) L'"
  by (auto simp: page_step_def wal_rep_dirty curPosition_def)

lemma WriteEntry_step:
  assumes run: "WriteEntryWithFullPage bs d = (Ok seq, d')" and rep: "wal_rep d L"
    and c: "curCollection d + int (length (entry_records (maxPageSize d) bs)) < 2 ^ 63"
  shows "\<exists>L'. page_step d L (entry_records (maxPageSize d) bs) d' L' \<and> seq = curPosition d'"
proof -
  let ?ps = "maxPageSize d"
  let ?m = "?ps - RecordHeaderSize"
  have ps: "8 < ?ps" using wal_repD(1)[OF rep] by (simp add: wal_params_def)
  obtain d1 where w: "(if ?m \<ge> length bs
              then bindS (guaranteePage 1) (\<lambda>_. writeDataPage bs EntryTypeWhole)
              else writeLoop ?m bs 0) d = (Ok (), d1)"
    and d': "d' = d1\<lparr>dirty := True\<rparr>" and seq: "seq = curPosition d'"
    using run by (auto simp: WriteEntryWithFullPage_def Let_def go_simps bindS_eq_Ok getS_def
        modifyS_def returnS_def)
  have "\<exists>L'. page_step d L (entry_records ?ps bs) d1 L'"
  proof (cases "length bs \<le> ?m")
    case True
    then have e: "entry_records ?ps bs = [(bs, EntryTypeWhole)]" by (simp add: entry_records_def)
    have "rec_ok ?ps (bs, EntryTypeWhole)" using entry_records_ok[OF _ ps, of _ bs] e by simp
    then show ?thesis using guaranteed_page_step[OF rep] w True c e by auto
  next
    case False
    then have e: "entry_records ?ps bs = chunks ?m True bs" by (simp add: entry_records_def)
    from False have "bs \<noteq> []" by auto
    then show ?thesis
      using writeLoop_step[of ?m bs 0 d "()" d1 L] w False c rep ps e by (auto simp: RecordHeaderSize_def)
  qed
  then show ?thesis using d' seq page_step_dirty by blast
qed

text \<open>Without faults a write returns: no error, no panic, and the loop ends.\<close>

definition healthy :: "DiskWal \<Rightarrow> bool" where
  "healthy d \<longleftrightarrow> faults d = [] \<and> 8 < maxPageSize d \<and> (\<forall>n b. curFile d = Some (n, b) \<longrightarrow> b)"

lemma os_OpenFile_healthy:
  assumes "faults d = []"
  shows "\<exists>c fs. os_OpenFile n d = (Ok c, d\<lparr>files := fs\<rparr>)"
proof (cases "mget (files d) n")
  case None
  then have "os_OpenFile n d = (Ok [], d\<lparr>files := mput n [] (files d)\<rparr>)"
    using assms by (simp add: os_OpenFile_def os_check_def os_call_def run_simps)
  then show ?thesis by blast
next
  case (Some c)
  then have "os_OpenFile n d = (Ok c, d\<lparr>files := files d\<rparr>)"
    using assms by (simp add: os_OpenFile_def os_check_def os_call_def run_simps)
  then show ?thesis by blast
qed

lemma openCurrent_healthy:
  assumes "faults d = []"
  shows "\<exists>fs n. openCurrent d = (Ok (), d\<lparr>files := fs, curFile := Some (n, True)\<rparr>)"
proof -
  obtain c fs where "os_OpenFile (filename (curTerm d) (curCollection d)) d = (Ok c, d\<lparr>files := fs\<rparr>)"
    using os_OpenFile_healthy[OF assms] by blast
  then have "openCurrent d = (Ok (), d\<lparr>files := fs,
      curFile := Some (filename (curTerm d) (curCollection d), True)\<rparr>)"
    by (simp add: openCurrent_def run_simps)
  then show ?thesis by blast
qed

lemma guaranteePage_healthy:
  assumes "healthy d"
  shows "\<exists>d' n. guaranteePage 1 d = (Ok (), d') \<and> healthy d' \<and> curFile d' = Some (n, True)
    \<and> maxPageSize d' = maxPageSize d"
proof (cases "curFile d")
  case None
  then show ?thesis
    using assms openCurrent_healthy[of "d\<lparr>curCollection := i64 (curCollection d + 1), curSeq := 0\<rparr>"]
    by (auto simp: guaranteePage_def go_simps healthy_def)
next
  case (Some f)
  obtain n b where f: "f = (n, b)" by fastforce
  then have b: "b" using assms Some by (simp add: healthy_def)
  have "os_Close d = (Ok (), d\<lparr>curFile := Some (n, False)\<rparr>)"
    using assms Some f b
    by (simp add: os_Close_def os_check_def os_call_def healthy_def run_simps)
  then show ?thesis
    using assms Some f b openCurrent_healthy[of "d\<lparr>curFile := Some (n, False),
      curCollection := i64 (curCollection d + 1), curSeq := 0, pageOccupied := 0\<rparr>"]
    by (auto simp: guaranteePage_def go_simps healthy_def returnS_def)
qed

lemma writeDataPage_healthy:
  assumes "healthy d" "curFile d = Some (n, True)"
  shows "\<exists>d'. writeDataPage dat t d = (Ok (), d') \<and> healthy d' \<and> maxPageSize d' = maxPageSize d"
proof -
  have "prepareDataBufByPage (maxPageSize d) dat t = Ok (page_of (maxPageSize d) (dat, t))"
    using prepare_page_of[of "maxPageSize d" "(dat, t)"] assms(1) by (simp add: healthy_def)
  then show ?thesis
    using assms by (simp add: writeDataPage_def os_Write_def os_Append_def os_call_def
        run_simps healthy_def append_file_def)
qed

lemma page_healthy:
  "healthy d \<Longrightarrow> \<exists>d'. bindS (guaranteePage 1) (\<lambda>_. writeDataPage dat t) d = (Ok (), d') \<and> healthy d'
    \<and> maxPageSize d' = maxPageSize d"
  using guaranteePage_healthy[of d] writeDataPage_healthy[of _ _ dat t]
  by (metis (no_types, lifting) bindS_Ok)

lemma writeLoop_healthy:
  "healthy d \<Longrightarrow> 0 < m \<Longrightarrow> \<exists>d'. writeLoop m bs offset d = (Ok (), d') \<and> healthy d'"
proof (induction m bs offset d rule: writeLoop.induct)
  case (1 m bs offset d)
  define t where "t = (if length bs \<le> offset + m then EntryTypeEnd else if offset = 0 then EntryTypeStart else EntryTypeMiddle)"
  define n where "n = (if length bs \<le> offset + m then length bs - offset else m)"
  obtain d1 where d1: "bindS (guaranteePage 1) (\<lambda>_. writeDataPage (take n (drop offset bs)) t) d = (Ok (), d1)"
    "healthy d1" using page_healthy[OF "1.prems"(1)] by blast
  have unf: "writeLoop m bs offset d = (if length bs \<le> offset + n then (Ok (), d1)
      else if n = 0 then (Diverge, d1) else writeLoop m bs (offset + n) d1)"
    using d1(1) unfolding n_def t_def writeLoop.simps[of m bs offset d]
    by (cases "length bs \<le> offset + m"; cases "offset = 0") simp_all
  show ?case
  proof (cases "length bs \<le> offset + m")
    case True
    then show ?thesis using unf d1(2) by (auto simp: n_def)
  next
    case False
    then have "\<exists>d'. writeLoop m bs (offset + n) d1 = (Ok (), d') \<and> healthy d'"
      by (intro "1.IH"[OF refl _ refl _ refl]) (use d1 "1.prems" in \<open>auto simp: n_def t_def\<close>)
    then show ?thesis using unf False "1.prems"(2) d1(2) by (auto simp: n_def)
  qed
qed

lemma WriteEntry_returns:
  assumes "healthy d"
  shows "\<exists>seq d'. WriteEntryWithFullPage bs d = (Ok seq, d') \<and> healthy d'"
proof -
  let ?m = "maxPageSize d - RecordHeaderSize"
  have "\<exists>d'. (if ?m \<ge> length bs then bindS (guaranteePage 1) (\<lambda>_. writeDataPage bs EntryTypeWhole)
      else writeLoop ?m bs 0) d = (Ok (), d') \<and> healthy d'"
    using page_healthy[OF assms, of bs EntryTypeWhole] writeLoop_healthy[OF assms, of ?m bs 0] assms
    unfolding healthy_def RecordHeaderSize_def by fastforce
  then show ?thesis
    by (auto simp: WriteEntryWithFullPage_def Let_def run_simps healthy_def)
qed

end
