(* ===== verification/Disk_Wal_Read.thy ===== *)
theory Disk_Wal_Read
  imports Disk_Wal_Props
begin

text \<open>
  Reading the write-ahead log back: the list of files, the position found at start-up, and what a
  replay delivers. The facts are about a folder that holds a ghost log (\<open>wal_files\<close>).
\<close>

section \<open>The list of files\<close>

lemma walfilename_name: "walfilename n = Ok (n', s) \<Longrightarrow> n' = n"
  by (auto simp: walfilename_def split: if_splits option.splits)

lemma walkStep_mwf: "mwf m \<Longrightarrow> mwf (walkStep m p)"
  by (auto simp: walkStep_def split: res.splits)

lemma mget_walkStep:
  "mget (walkStep m p) n =
     (case walfilename n of Ok (_, s) \<Rightarrow> if n = p then Some s else mget m n | _ \<Rightarrow> mget m n)"
proof (cases "n = p")
  case True
  then show ?thesis by (auto simp: walkStep_def split: res.splits dest: walfilename_name)
next
  case False
  then have "mget (walkStep m p) n = mget m n"
    by (auto simp: walkStep_def split: res.splits dest: walfilename_name)
  then show ?thesis using False by (auto split: res.splits)
qed

lemma foldl_walkStep:
  "mget (foldl walkStep m ns) n =
     (case walfilename n of Ok (_, s) \<Rightarrow> if n \<in> set ns then Some s else mget m n | _ \<Rightarrow> mget m n)"
  by (induction ns arbitrary: m) (auto simp: mget_walkStep split: res.splits)

lemma foldl_walkStep_mwf: "mwf m \<Longrightarrow> mwf (foldl walkStep m ns)"
  by (induction ns arbitrary: m) (auto intro: walkStep_mwf)

lemma mkeys_mget: "set (mkeys m) = {k. mget m k \<noteq> None}"
  by (auto simp: map_of_eq_None_iff)

lemma walFileMap_keys:
  assumes "wal_files ps fs L"
  shows "sort (mkeys (walFileMap fs)) = map (log_name \<circ> fst) L"
proof (rule sorted_distinct_set_unique)
  note d = wal_filesD[OF assms]
  have "sorted_wrt (<) (map (log_name \<circ> fst) L)" by (rule d(2))
  then show "sorted (map (log_name \<circ> fst) L)" "distinct (map (log_name \<circ> fst) L)"
    by (simp_all add: strict_sorted_iff)
  show "distinct (sort (mkeys (walFileMap fs)))"
    using foldl_walkStep_mwf[of "[]" "mkeys fs"] by (simp add: walFileMap_def)
  have "n \<in> set (mkeys (walFileMap fs)) \<longleftrightarrow> n \<in> (log_name \<circ> fst) ` set L" for n
  proof
    assume "n \<in> set (mkeys (walFileMap fs))"
    then obtain x where x: "walfilename n = Ok x" "n \<in> set (mkeys fs)"
      unfolding mkeys_mget walFileMap_def foldl_walkStep
      by (auto split: res.splits if_splits)
    then obtain c where "mget fs n = Some c" unfolding mkeys_mget by auto
    then show "n \<in> (log_name \<circ> fst) ` set L" using d(6) x(1) by blast
  next
    assume "n \<in> (log_name \<circ> fst) ` set L"
    then obtain k rs where k: "(k, rs) \<in> set L" "n = log_name k" by force
    have "n \<in> set (mkeys fs)" using d(4)[OF k(1)] k(2) unfolding mkeys_mget by simp
    then show "n \<in> set (mkeys (walFileMap fs))"
      using log_name_ok[OF d(3)[OF k(1)]] k(2)
      unfolding mkeys_mget walFileMap_def foldl_walkStep by simp
  qed
  then show "set (sort (mkeys (walFileMap fs))) = set (map (log_name \<circ> fst) L)" by auto
qed simp

lemma walFileMap_pos:
  assumes "wal_files ps fs L" "(k, rs) \<in> set L"
  shows "mget (walFileMap fs) (log_name k) = Some (SequenceId (fst k) (snd k) 0)"
proof -
  note d = wal_filesD[OF assms(1)]
  have "log_name k \<in> set (mkeys fs)" using d(4)[OF assms(2)] unfolding mkeys_mget by simp
  then show ?thesis
    unfolding walFileMap_def foldl_walkStep using log_name_ok[OF d(3)[OF assms(2)]] by simp
qed

section \<open>The pages of a file\<close>

lemma length_page_of: "8 < ps \<Longrightarrow> rec_ok ps r \<Longrightarrow> length (page_of ps r) = ps"
  using length_prepare[of ps "fst r" "snd r" "page_of ps r"] prepare_page_of[of ps r]
  by (simp add: rec_ok_def)

lemma page_of_read:
  "8 < ps \<Longrightarrow> ps < 65536 \<Longrightarrow> rec_ok ps r \<Longrightarrow> pageRecordsInfo (page_of ps r) = Ok [r]"
  using page_read_back[of ps "fst r" "snd r" "page_of ps r"] prepare_page_of[of ps r]
  by (simp add: rec_ok_def)

text \<open>Over a well-formed file the page loop is the loop over its records.\<close>

lemma forPages_forEach:
  assumes ps: "8 < ps" and call: "\<And>s. Q s \<Longrightarrow> call s = (Ok NoFault, s)"
    and keep: "\<And>r s. r \<in> set rs \<Longrightarrow> Q s \<Longrightarrow> Q (snd (body (page_of ps r) s))"
    and ok: "\<And>r. r \<in> set rs \<Longrightarrow> rec_ok ps r" and Q: "Q s"
  shows "forPages call ps body (file_of ps rs) s = forEach (\<lambda>r. body (page_of ps r)) rs s"
  using keep ok Q
proof (induction rs arbitrary: s)
  case Nil
  then show ?case
    using ps by (simp add: forPages.simps file_of_def call returnS_def)
next
  case (Cons r rs)
  have len: "length (page_of ps r) = ps" using Cons.prems(2) ps by (simp add: length_page_of)
  have f: "file_of ps (r # rs) = page_of ps r @ file_of ps rs" by (simp add: file_of_def)
  have ne: "file_of ps (r # rs) \<noteq> []" using len ps f by auto
  have tk: "take ps (file_of ps (r # rs)) = page_of ps r" "drop ps (file_of ps (r # rs)) = file_of ps rs"
    "\<not> length (file_of ps (r # rs)) < ps" using len f by simp_all
  have unf: "forPages call ps body (file_of ps (r # rs)) s =
      (case body (page_of ps r) s of (Ok _, s'') \<Rightarrow> forPages call ps body (file_of ps rs) s''
        | (e, s'') \<Rightarrow> (e, s''))"
    using ne len ps Cons.prems(3) unfolding forPages.simps[of call ps body "file_of ps (r # rs)"]
    by (simp add: call tk cong: res.case_cong prod.case_cong)
  obtain x s1 where b: "body (page_of ps r) s = (x, s1)" by fastforce
  then have "Q s1" using Cons.prems(1)[of r s] Cons.prems(3) by simp
  then have "forPages call ps body (file_of ps rs) s1 = forEach (\<lambda>r. body (page_of ps r)) rs s1"
    using Cons.prems(1,2) by (intro Cons.IH) auto
  then show ?case unfolding unf by (cases x) (simp_all add: b bindS_def)
qed

lemma os_call_quiet: "faults d = [] \<Longrightarrow> os_call d = (Ok NoFault, d)"
  by (simp add: os_call_def)

lemma os_OpenFile_quiet:
  "faults d = [] \<Longrightarrow> mget (files d) n = Some c \<Longrightarrow> os_OpenFile n d = (Ok c, d)"
  by (simp add: os_OpenFile_def os_check_def os_call_def run_simps)

section \<open>Replay\<close>

lemma replayFile_records:
  assumes q: "faults d = []" and ps: "8 < maxPageSize d" "maxPageSize d < 65536"
    and f: "mget (files d) n = Some (file_of (maxPageSize d) rs)"
    and ok: "\<And>r. r \<in> set rs \<Longrightarrow> rec_ok (maxPageSize d) r"
  shows "replayFile n fn (d, k) = onSnd (forEach (\<lambda>r. fn (fst r)) rs) (d, k)"
proof -
  let ?ps = "maxPageSize d"
  let ?Q = "\<lambda>(d', k'). d' = d"
  have body: "replayBody fn (page_of ?ps r) = onSnd (fn (fst r))" if "r \<in> set rs" for r
    by (rule ext)
      (use page_of_read[OF ps ok[OF that]] in \<open>auto simp: replayBody_def run_simps split: prod.splits res.splits\<close>)
  have "replayFile n fn (d, k) = forPages (onFst os_call) ?ps (replayBody fn) (file_of ?ps rs) (d, k)"
    using os_OpenFile_quiet[OF q f] by (simp add: replayFile_def run_simps onFst_def)
  also have "\<dots> = forEach (\<lambda>r. replayBody fn (page_of ?ps r)) rs (d, k)"
    by (rule forPages_forEach[where Q = ?Q])
      (use ps ok q in \<open>auto simp: onFst_def os_call_quiet body onSnd_def split: prod.splits\<close>)
  also have "\<dots> = forEach (\<lambda>r. onSnd (fn (fst r))) rs (d, k)"
    using body by (metis (no_types, lifting) forEach_cong)
  finally show ?thesis by (simp add: onSnd_forEach)
qed

text \<open>The files from one position of the list on deliver their records in order.\<close>

lemma replayFiles_records:
  assumes q: "faults d = []" and ps: "8 < maxPageSize d" "maxPageSize d < 65536"
    and w: "wal_files (maxPageSize d) (files d) L" and sub: "set M \<subseteq> set L"
  shows "replayFiles (map (log_name \<circ> fst) M) fn (d, k)
    = onSnd (forEach (\<lambda>r. fn (fst r)) (log_records M)) (d, k)"
  using sub
proof (induction M arbitrary: k)
  case Nil
  then show ?case by (simp add: replayFiles_def log_records_def onSnd_return)
next
  case (Cons x M)
  obtain key rs where x: "x = (key, rs)" by fastforce
  have "replayFile (log_name key) fn (d, k) = onSnd (forEach (\<lambda>r. fn (fst r)) rs) (d, k)" for k
    by (rule replayFile_records[OF q ps]) (use wal_filesD(4,5)[OF w, of key rs] Cons.prems x in auto)
  then show ?case
    using Cons x
    by (auto simp: replayFiles_def log_records_def forEach_append onSnd_bind bindS_def onSnd_def
        split: prod.splits res.splits)
qed

lemma replayIndex_le:
  assumes "sorted_wrt (<) names" "t = names ! i" "i < length names"
  shows "replayIndex t names idx = idx + int i + 1"
  using assms
proof (induction names arbitrary: i idx)
  case (Cons v vs)
  show ?case
  proof (cases i)
    case 0
    then show ?thesis using Cons.prems by (cases vs) auto
  next
    case (Suc j)
    then have "v < t" using Cons.prems by simp
    then have "\<not> t < v" by simp
    then show ?thesis
      using Cons.IH[of j "idx + 1"] Cons.prems Suc by simp
  qed
qed simp

lemma ReplayIncomplete_records:
  fixes k :: 'k
  assumes rep: "wal_rep d (M @ (key, rs) # N)" and q: "faults d = []"
    and pos: "Term from = fst key" "Collection from = snd key"
    and le: "from < curPosition d"
  shows "ReplayIncomplete from f (d, k) =
    bindS (onSnd (forEach (\<lambda>r. f (fst r)) (log_records ((key, rs) # N)))) (\<lambda>_. returnS (curPosition d)) (d, k)"
proof -
  let ?L = "M @ (key, rs) # N"
  note rd = wal_repD[OF rep]
  have ps: "8 < maxPageSize d" "maxPageSize d < 65536" using rd(1) by (auto simp: wal_params_def)
  let ?names = "map (log_name \<circ> fst) ?L"
  obtain n b where cf: "curFile d = Some (n, b)" using rd(6) by (cases "curFile d") auto
  have coll: "curCollection d \<noteq> 0"
  proof -
    have "fst (last ?L) = (curTerm d, curCollection d)" using rd(7)[OF cf] by blast
    moreover have "last ?L \<in> set ?L" by (rule last_in_set) simp
    ultimately have "key_ok (curTerm d, curCollection d)"
      using wal_filesD(3)[OF rd(2)] by (metis prod.collapse)
    then show ?thesis by (simp add: key_ok_def)
  qed
  have neq: "\<not> (curTerm d = Term from \<and> curCollection d = Collection from \<and> curSeq d = Seq from)"
    using le by (cases "from") (auto simp: curPosition_def less_SequenceId_def)
  have cmp: "\<not> Compare from (SequenceId (curTerm d) (curCollection d) (curSeq d)) > 0"
    using le by (simp add: less_SequenceId_def curPosition_def)
  have idx: "replayIndex (filename (Term from) (Collection from)) ?names (- 1) = int (length M)"
    using replayIndex_le[OF wal_filesD(2)[OF rd(2)], of "log_name key" "length M" "- 1"] pos
    by (simp add: log_name_def nth_append)
  have list: "listWalFiles d = (Ok ?names, d)"
    using walFileMap_keys[OF rd(2)] q
    by (simp add: listWalFiles_def os_check_def os_call_def run_simps)
  have sub: "set ((key, rs) # N) \<subseteq> set ?L" by auto
  have "drop (nat (int (length M))) ?names = map (log_name \<circ> fst) ((key, rs) # N)" by simp
  then show ?thesis
    unfolding ReplayIncomplete_def
    using neq coll cmp idx list replayFiles_records[OF q ps rd(2) sub, of f k]
    by (auto simp: go_simps onFst_def bindS_def getS_def returnS_def Let_def onSnd_def
        split: prod.splits res.splits)
qed

section \<open>Start-up\<close>

text \<open>A new process works on the folder that is left: \<open>NewDiskWal\<close> with the same sizes.\<close>

definition restart :: "DiskWal \<Rightarrow> DiskWal" where
  "restart d = d\<lparr>curTerm := 1, curCollection := 0, curSeq := 0, pageOccupied := 0,
     curFile := None, dirty := False, faults := []\<rparr>"

lemma restart_NewDiskWal:
  "maxFileSize d = 1024 * 1024 * 1024 \<Longrightarrow> maxPageSize d = 4 * 1024 \<Longrightarrow>
    restart d = NewDiskWal (files d) []"
  by (simp add: restart_def NewDiskWal_def)

lemma infoBody_records:
  assumes ps: "8 < ps" "ps < 65536" and ok: "\<And>r. r \<in> set rs \<Longrightarrow> rec_ok ps r"
    and small: "totalPages i \<ge> 0" "totalPages i + int (length rs) < 2147483648"
      "totalValidSeq i = totalPages i"
  shows "forEach (\<lambda>r. infoBody (page_of ps r)) rs (d, i) =
    (Ok (), (d, \<lparr>totalPages = totalPages i + int (length rs),
                 totalValidSeq = totalPages i + int (length rs),
                 lastRecords = (if rs = [] then lastRecords i else [last rs])\<rparr>))"
  using ok small
proof (induction rs arbitrary: i)
  case Nil
  then show ?case by (simp add: returnS_def)
next
  case (Cons r rs)
  have "infoBody (page_of ps r) (d, i) = (Ok (), (d, i\<lparr>lastRecords := [r],
      totalPages := totalPages i + 1, totalValidSeq := totalPages i + 1\<rparr>))"
    using Cons.prems page_of_read[OF ps, of r]
    by (simp add: infoBody_def run_simps i32_small i64_small)
  then show ?case
    using Cons.IH[of "i\<lparr>lastRecords := [r], totalPages := totalPages i + 1, totalValidSeq := totalPages i + 1\<rparr>"]
      Cons.prems by (simp add: bindS_def)
qed

lemma seekBody_records:
  assumes "0 \<le> pageOccupied d" "pageOccupied d + int (length rs) < 2147483648"
  shows "forEach (\<lambda>r. seekBody (page_of ps r)) rs d =
    (Ok (), d\<lparr>pageOccupied := pageOccupied d + int (length rs)\<rparr>)"
  using assms
proof (induction rs arbitrary: d)
  case Nil
  then show ?case by (simp add: returnS_def)
next
  case (Cons r rs)
  then show ?case
    using Cons.IH[of "d\<lparr>pageOccupied := pageOccupied d + 1\<rparr>"]
    by (simp add: seekBody_def run_simps i32_small)
qed

lemma readWalFileInfo_pages:
  assumes q: "faults d = []" and ps: "8 < maxPageSize d" "maxPageSize d < 65536"
    and f: "mget (files d) n = Some (file_of (maxPageSize d) rs)"
    and ok: "\<And>r. r \<in> set rs \<Longrightarrow> rec_ok (maxPageSize d) r" and small: "int (length rs) < 2147483648"
  shows "forPages (onFst os_call) (maxPageSize d) infoBody (file_of (maxPageSize d) rs)
      (d, \<lparr>totalPages = 0, totalValidSeq = 0, lastRecords = []\<rparr>)
    = (Ok (), (d, \<lparr>totalPages = int (length rs), totalValidSeq = int (length rs),
        lastRecords = (if rs = [] then [] else [last rs])\<rparr>))"
proof -
  let ?Q = "\<lambda>(d', i). d' = d"
  have "forPages (onFst os_call) (maxPageSize d) infoBody (file_of (maxPageSize d) rs)
      (d, \<lparr>totalPages = 0, totalValidSeq = 0, lastRecords = []\<rparr>)
    = forEach (\<lambda>r. infoBody (page_of (maxPageSize d) r)) rs
        (d, \<lparr>totalPages = 0, totalValidSeq = 0, lastRecords = []\<rparr>)"
    by (rule forPages_forEach[where Q = ?Q])
      (use ps ok q in \<open>auto simp: onFst_def os_call_quiet infoBody_def page_of_read run_simps\<close>)
  also have "\<dots> = (Ok (), (d, \<lparr>totalPages = int (length rs), totalValidSeq = int (length rs),
        lastRecords = (if rs = [] then [] else [last rs])\<rparr>))"
    using infoBody_records[OF ps ok, of rs "\<lparr>totalPages = 0, totalValidSeq = 0, lastRecords = []\<rparr>" d]
      small by simp
  finally show ?thesis .
qed

lemma readWalFileInfo_quiet:
  assumes q: "faults d = []" and ps: "8 < maxPageSize d" "maxPageSize d < 65536"
    and f: "mget (files d) n = Some (file_of (maxPageSize d) rs)"
    and ok: "\<forall>r \<in> set rs. rec_ok (maxPageSize d) r" and small: "int (length rs) < 2147483648"
  shows "rs = [] \<Longrightarrow> readWalFileInfo n d = (Panic ''index out of range'', d)"
    and "rs \<noteq> [] \<Longrightarrow> snd (last rs) \<noteq> EntryTypeMiddle \<Longrightarrow>
      readWalFileInfo n d = (Ok \<lparr>totalPages = int (length rs), totalValidSeq = int (length rs),
        lastRecords = [last rs]\<rparr>, d)"
  using readWalFileInfo_pages[OF q ps f ok[rule_format] small] os_OpenFile_quiet[OF q f]
  by (simp_all add: readWalFileInfo_def run_simps)

lemma seekWalFileWritePoint_quiet:
  assumes q: "faults d = []" and ps: "8 < maxPageSize d" and po: "pageOccupied d = 0"
    and f: "mget (files d) n = Some (file_of (maxPageSize d) rs)"
    and ok: "\<And>r. r \<in> set rs \<Longrightarrow> rec_ok (maxPageSize d) r" and small: "int (length rs) < 2147483648"
  shows "seekWalFileWritePoint n d =
    (Ok (), d\<lparr>pageOccupied := int (length rs), curFile := Some (n, True)\<rparr>)"
proof -
  have "forPages os_call (maxPageSize d) seekBody (file_of (maxPageSize d) rs) d
      = forEach (\<lambda>r. seekBody (page_of (maxPageSize d) r)) rs d"
    by (rule forPages_forEach[where Q = "\<lambda>d. faults d = []"])
      (use ps ok q in \<open>auto simp: os_call_quiet seekBody_def run_simps\<close>)
  also have "\<dots> = (Ok (), d\<lparr>pageOccupied := int (length rs)\<rparr>)"
    using seekBody_records[of d rs "maxPageSize d"] po small by simp
  finally show ?thesis
    using os_OpenFile_quiet[OF q f] by (simp add: seekWalFileWritePoint_def run_simps)
qed

lemma Initialize_nonempty:
  assumes w: "wal_files (maxPageSize d) (files d) L" and q: "faults d = []" and p: "wal_params d"
    and fresh: "pageOccupied d = 0" and L: "L = M @ [(k, rs)]"
    and fits: "int (length rs) * int (maxPageSize d) \<le> maxFileSize d"
  shows "rs = [] \<Longrightarrow> Initialize d = (Panic ''index out of range'', d)"
    and "rs \<noteq> [] \<Longrightarrow> snd (last rs) \<noteq> EntryTypeMiddle \<Longrightarrow>
      Initialize d = (Ok (SequenceId (fst k) (snd k) (int (length rs))),
        d\<lparr>curSeq := int (length rs), curTerm := fst k, curCollection := snd k,
          pageOccupied := int (length rs), curFile := Some (log_name k, True)\<rparr>)"
proof -
  note wd = wal_filesD[OF w]
  have ps: "8 < maxPageSize d" "maxPageSize d < 65536" "maxFileSize d < 2147483648"
    using p by (auto simp: wal_params_def)
  have "int (length rs) * 1 \<le> int (length rs) * int (maxPageSize d)"
    using ps(1) by (intro mult_left_mono) auto
  then have small: "int (length rs) < 2147483648" using fits ps(3) by linarith
  have inL: "(k, rs) \<in> set L" using L by simp
  have f: "mget (files d) (log_name k) = Some (file_of (maxPageSize d) rs)" by (rule wd(4)[OF inL])
  have ok: "\<forall>r \<in> set rs. rec_ok (maxPageSize d) r" using wd(5)[OF inL] by blast
  have names: "sort (mkeys (walFileMap (files d))) = map (log_name \<circ> fst) L" by (rule walFileMap_keys[OF w])
  have pos: "mget (walFileMap (files d)) (log_name k) = Some (SequenceId (fst k) (snd k) 0)"
    by (rule walFileMap_pos[OF w inL])
  note info = readWalFileInfo_quiet[OF q ps(1,2) f ok small]
  let ?d1 = "d\<lparr>curSeq := int (length rs), curTerm := fst k, curCollection := snd k\<rparr>"
  have seek: "seekWalFileWritePoint (log_name k) ?d1 =
      (Ok (), ?d1\<lparr>pageOccupied := int (length rs), curFile := Some (log_name k, True)\<rparr>)"
    by (rule seekWalFileWritePoint_quiet) (use q ps fresh f ok small in auto)
  show "Initialize d = (Panic ''index out of range'', d)" if "rs = []"
    using info(1)[OF that] names q L pos
    by (simp add: Initialize_def os_check_def os_call_def run_simps Let_def)
  show "Initialize d = (Ok (SequenceId (fst k) (snd k) (int (length rs))),
        d\<lparr>curSeq := int (length rs), curTerm := fst k, curCollection := snd k,
          pageOccupied := int (length rs), curFile := Some (log_name k, True)\<rparr>)"
    if "rs \<noteq> []" "snd (last rs) \<noteq> EntryTypeMiddle"
    using info(2)[OF that] names q L pos seek
    by (simp add: Initialize_def os_check_def os_call_def run_simps Let_def curPosition_def)
qed

lemma Initialize_empty:
  assumes w: "wal_files (maxPageSize d) (files d) []" and q: "faults d = []"
  shows "Initialize d = (Ok (SequenceId 1 0 0), d\<lparr>curTerm := 1, curCollection := 0, curSeq := 0\<rparr>)"
proof -
  have "walFileMap (files d) = []"
  proof (rule ccontr)
    assume "walFileMap (files d) \<noteq> []"
    then obtain x where "x \<in> set (mkeys (walFileMap (files d)))" by (cases "walFileMap (files d)") auto
    then show False using walFileMap_keys[OF w] by (metis empty_iff empty_set list.map(1) set_sort)
  qed
  then show ?thesis
    using q by (simp add: Initialize_def os_check_def os_call_def run_simps Let_def curPosition_def)
qed

text \<open>A restart on an intact log comes back to the position the writer was at, and the state
  again represents the same log.\<close>

lemma restart_position:
  assumes rep: "wal_rep d L" and L: "L \<noteq> []" and t: "snd (last (log_records L)) \<noteq> EntryTypeMiddle"
  shows "\<exists>d'. Initialize (restart d) = (Ok (curPosition d), d') \<and> wal_rep d' L \<and> faults d' = []
    \<and> files d' = files d \<and> curPosition d' = curPosition d \<and> curCollection d' = curCollection d
    \<and> maxPageSize d' = maxPageSize d"
proof -
  note rd = wal_repD[OF rep]
  obtain n b where cf: "curFile d = Some (n, b)" using rd(6) L by (cases "curFile d") auto
  note c = rd(7)[OF cf]
  obtain M k rs where Ls: "L = M @ [(k, rs)]" using L by (metis rev_exhaust surj_pair)
  have rs: "rs \<noteq> []" "k = (curTerm d, curCollection d)" "pageOccupied d = int (length rs)"
    "curSeq d = int (length rs)" using c Ls by auto
  have t': "snd (last rs) \<noteq> EntryTypeMiddle" using t rs(1) Ls by (simp add: log_records_def)
  have "Initialize (restart d) = (Ok (SequenceId (fst k) (snd k) (int (length rs))),
      (restart d)\<lparr>curSeq := int (length rs), curTerm := fst k, curCollection := snd k,
          pageOccupied := int (length rs), curFile := Some (log_name k, True)\<rparr>)"
    by (rule Initialize_nonempty(2)[OF _ _ _ _ Ls])
      (use rd(1,2) c rs t' in \<open>auto simp: restart_def wal_params_def\<close>)
  then show ?thesis
    using rd c rs Ls
    by (auto simp: wal_rep_def restart_def wal_params_def curPosition_def)
qed

end
