(* ===== verification/Kv_Backend.thy ===== *)
theory Kv_Backend
  imports Prelude
begin

text \<open>
  The key-value interface (\<open>internal/iface/storage.go\<close>) and its disk implementation
  (\<open>internal/storage\<close>): the key check, \<open>DiskvStorage\<close> over the \<open>diskv\<close> library, and the contract
  the services above rely on, as a locale that \<open>DiskvStorage\<close> satisfies for every \<open>diskv\<close> that
  behaves as documented. The library is a parameter: its calls are the fields of a record.
\<close>

section \<open>Keys\<close>

definition VersionKey :: bytes where
  "VersionKey = map of_char ''____sequence_id____''"

text \<open>
  The check is over the runes of the key; a byte from 128 on belongs to a rune that is not one of
  the accepted characters, so it can be read byte by byte.
\<close>

definition key_char :: "byte \<Rightarrow> bool" where
  "key_char ch \<longleftrightarrow>
     (0x30 \<le> ch \<and> ch \<le> 0x39) \<or> (0x61 \<le> ch \<and> ch \<le> 0x7A) \<or> (0x41 \<le> ch \<and> ch \<le> 0x5A) \<or> ch = 0x5F"

fun validateKeyFormat :: "bytes \<Rightarrow> bool" where
  "validateKeyFormat [] = True"
| "validateKeyFormat (ch # chs) = (if key_char ch then validateKeyFormat chs else False)"

lemma validateKeyFormat_iff: "validateKeyFormat k \<longleftrightarrow> (\<forall>ch \<in> set k. key_char ch)"
  by (induction k) auto

lemma VersionKey_format: "validateKeyFormat VersionKey" "VersionKey \<noteq> []"
  by code_simp+

section \<open>The diskv library and DiskvStorage\<close>

record 'v diskv =
  dv_Write :: "bytes \<Rightarrow> bytes \<Rightarrow> ('v, unit) prog"
  dv_Read :: "bytes \<Rightarrow> ('v, bytes) prog"
  dv_Keys :: "('v, bytes list) prog"

definition ErrNotExist :: error where
  "ErrNotExist = OsError ''file does not exist''"

definition diskv_Put :: "'v diskv \<Rightarrow> bytes \<Rightarrow> bytes \<Rightarrow> ('v, unit) prog" where
  "diskv_Put D k v =
     (if \<not> validateKeyFormat k then failS ErrKeyFormatInvalid else dv_Write D k v)"

definition diskv_Get :: "'v diskv \<Rightarrow> bytes \<Rightarrow> ('v, bytes option) prog" where
  "diskv_Get D k s =
     (if \<not> validateKeyFormat k then (Err ErrKeyFormatInvalid, s)
      else case dv_Read D k s of
        (Ok dat, s') \<Rightarrow> (Ok (Some dat), s')
      | (Err e, s') \<Rightarrow> (if e = ErrNotExist then Ok None else Err e, s')
      | (Panic p, s') \<Rightarrow> (Panic p, s')
      | (Diverge, s') \<Rightarrow> (Diverge, s'))"

text \<open>The loops of \<open>LatestSnapshotData\<close>: the keys up to an empty one, and their values.\<close>

fun snapshotEntries :: "(bytes \<Rightarrow> ('v, bytes option) prog) \<Rightarrow> bytes list \<Rightarrow> ('v, (bytes \<times> bytes) list) prog" where
  "snapshotEntries get [] = returnS []"
| "snapshotEntries get (key # keys) =
     (if key = VersionKey then snapshotEntries get keys
      else bindS (get key) (\<lambda>r.
        case r of
          None \<Rightarrow> snapshotEntries get keys
        | Some v \<Rightarrow> bindS (snapshotEntries get keys) (\<lambda>es. returnS ((key, v) # es))))"

definition diskv_LatestSnapshotData :: "'v diskv \<Rightarrow> int \<Rightarrow> ('v, (bytes \<times> bytes) list) prog" where
  "diskv_LatestSnapshotData D term =
     bindS (dv_Keys D) (\<lambda>keys. snapshotEntries (diskv_Get D) (takeWhile (\<lambda>key. key \<noteq> []) keys))"

section \<open>The contract\<close>

text \<open>
  What the clients of a \<open>KVStorage\<close> rely on, when the storage does not fail: \<open>abs\<close> is its
  contents, a well-formed key is read and written there, a malformed one is refused.
\<close>

definition valid_key :: "bytes \<Rightarrow> bool" where
  "valid_key k \<longleftrightarrow> validateKeyFormat k \<and> k \<noteq> []"

lemma VersionKey_valid: "valid_key VersionKey"
  using VersionKey_format by (simp add: valid_key_def)

locale kv_backend =
  fixes put :: "bytes \<Rightarrow> bytes \<Rightarrow> ('k, unit) prog"
    and get :: "bytes \<Rightarrow> ('k, bytes option) prog"
    and abs :: "'k \<Rightarrow> bytes \<Rightarrow> bytes option"
  assumes get_valid: "valid_key k \<Longrightarrow> get k s = (Ok (abs s k), s)"
    and put_valid: "valid_key k \<Longrightarrow> \<exists>s'. put k v s = (Ok (), s') \<and> abs s' = (abs s)(k \<mapsto> v)"
    and get_invalid: "\<not> validateKeyFormat k \<Longrightarrow> get k s = (Err ErrKeyFormatInvalid, s)"
    and put_invalid: "\<not> validateKeyFormat k \<Longrightarrow> put k v s = (Err ErrKeyFormatInvalid, s)"
begin

lemma put_get:
  assumes "put k v s = (Ok (), s')" "valid_key k"
  shows "get k s' = (Ok (Some v), s') \<and> (\<forall>k'. k' \<noteq> k \<longrightarrow> abs s' k' = abs s k')"
proof -
  obtain s1 where "put k v s = (Ok (), s1)" "abs s1 = (abs s)(k \<mapsto> v)"
    using put_valid[OF assms(2)] by blast
  then show ?thesis using assms(1) get_valid[OF assms(2)] by simp
qed

end

text \<open>
  The documented behaviour of \<open>diskv\<close>: under a key that is not empty, a value written is the one
  read, and reading an absent key gives the error of a file that does not exist.
\<close>

locale diskv_library =
  fixes D :: "'v diskv" and contents :: "'v \<Rightarrow> bytes \<Rightarrow> bytes option"
  assumes Read: "k \<noteq> [] \<Longrightarrow> dv_Read D k s = (case contents s k of Some v \<Rightarrow> Ok v | None \<Rightarrow> Err ErrNotExist, s)"
    and Write: "k \<noteq> [] \<Longrightarrow> \<exists>s'. dv_Write D k v s = (Ok (), s') \<and> contents s' = (contents s)(k \<mapsto> v)"

sublocale diskv_library \<subseteq> kv_backend "diskv_Put D" "diskv_Get D" contents
  by unfold_locales
    (auto simp: diskv_Put_def diskv_Get_def Read Write failS_def valid_key_def split: option.splits)

text \<open>A \<open>diskv\<close> that keeps its files in a map, to run the model on; it refuses the empty key.\<close>

definition map_diskv :: "(bytes, bytes) gomap diskv" where
  "map_diskv = \<lparr>dv_Write = (\<lambda>k v s. if k = [] then (Err (LibError ''empty key''), s) else (Ok (), mput k v s)),
     dv_Read = (\<lambda>k s. if k = [] then (Err (LibError ''empty key''), s) else (case mget s k of Some v \<Rightarrow> Ok v | None \<Rightarrow> Err ErrNotExist, s)),
     dv_Keys = (\<lambda>s. (Ok (mkeys s), s))\<rparr>"

interpretation mapdv: diskv_library map_diskv "\<lambda>s. mget s"
  by unfold_locales (auto simp: map_diskv_def)

end
