(* ===== verification/Kv_Store.thy ===== *)
theory Kv_Store
  imports Disk_Wal_Read Kv_Backend
begin

text \<open>
  The durable key-value store (\<open>internal/service/solestorage.go\<close>): every change is written to the
  write-ahead log, then to the storage, then the version key is set to the position of the log;
  at start-up the log is replayed from the version on. The state is the pair of the log and the
  storage; \<open>cbor\<close> is a parameter.
\<close>

section \<open>The store\<close>

record WalEntry =
  eK :: bytes
  eV :: bytes
  eD :: bool

record cbor =
  marshalEntry :: "WalEntry \<Rightarrow> bytes res"
  unmarshalEntry :: "bytes \<Rightarrow> WalEntry res"
  marshalSeq :: "SequenceId \<Rightarrow> bytes res"
  unmarshalSeq :: "bytes \<Rightarrow> SequenceId res"

type_synonym 'k kv_put = "bytes \<Rightarrow> bytes \<Rightarrow> ('k, unit) prog"
type_synonym 'k kv_get = "bytes \<Rightarrow> ('k, bytes option) prog"

definition readVersion :: "cbor \<Rightarrow> 'k kv_get \<Rightarrow> (DiskWal \<times> 'k, SequenceId option) prog" where
  "readVersion C get =
     bindS (onSnd (get VersionKey)) (\<lambda>r.
       case r of
         None \<Rightarrow> returnS None
       | Some dat \<Rightarrow> bindS (liftR (unmarshalSeq C dat)) (\<lambda>seq. returnS (Some seq)))"

definition writeVersion :: "cbor \<Rightarrow> 'k kv_put \<Rightarrow> SequenceId \<Rightarrow> (DiskWal \<times> 'k, unit) prog" where
  "writeVersion C put seq =
     bindS (liftR (marshalSeq C seq)) (\<lambda>dat. onSnd (put VersionKey dat))"

definition recoverFn :: "cbor \<Rightarrow> 'k kv_put \<Rightarrow> bytes \<Rightarrow> ('k, unit) prog" where
  "recoverFn C put buf =
     bindS (liftR (unmarshalEntry C buf)) (\<lambda>entry. put (eK entry) (eV entry))"

definition kv_Initialize :: "cbor \<Rightarrow> 'k kv_put \<Rightarrow> 'k kv_get \<Rightarrow> (DiskWal \<times> 'k, unit) prog" where
  "kv_Initialize C put get =
     bindS (onFst Initialize) (\<lambda>_.
     bindS (readVersion C get) (\<lambda>found.
       let seq = (case found of None \<Rightarrow> StartWalSequence | Some seq \<Rightarrow> seq) in
       bindS (ReplayIncomplete seq (recoverFn C put)) (\<lambda>seq.
         writeVersion C put seq)))"

definition writeWalEntry :: "cbor \<Rightarrow> WalEntry \<Rightarrow> (DiskWal \<times> 'k, SequenceId) prog" where
  "writeWalEntry C entry =
     bindS (liftR (marshalEntry C entry)) (\<lambda>dat. onFst (WriteEntry dat))"

definition kv_Put :: "cbor \<Rightarrow> 'k kv_put \<Rightarrow> bytes \<Rightarrow> bytes \<Rightarrow> (DiskWal \<times> 'k, unit) prog" where
  "kv_Put C put key val =
     bindS (writeWalEntry C \<lparr>eK = key, eV = val, eD = False\<rparr>) (\<lambda>seq.
     bindS (onSnd (put key val)) (\<lambda>_.
       writeVersion C put seq))"

definition kv_Get :: "'k kv_get \<Rightarrow> bytes \<Rightarrow> (DiskWal \<times> 'k, bytes option) prog" where
  "kv_Get get key = onSnd (get key)"

record Snapshot =
  SnapshotSequenceId :: SequenceId
  Entries :: "(bytes \<times> bytes) list"

text \<open>The storage below hands out its entries with an empty position; the version is filled in.\<close>

definition kv_LatestSnapshotData ::
  "cbor \<Rightarrow> 'k kv_get \<Rightarrow> (int \<Rightarrow> ('k, (bytes \<times> bytes) list) prog) \<Rightarrow> int \<Rightarrow> (DiskWal \<times> 'k, Snapshot) prog" where
  "kv_LatestSnapshotData C get latest term =
     bindS (readVersion C get) (\<lambda>ver.
     bindS (onSnd (latest term)) (\<lambda>es.
       let snapshot = \<lparr>SnapshotSequenceId = EmptySequenceId, Entries = es\<rparr> in
       returnS (if SnapshotSequenceId snapshot = EmptySequenceId
                then snapshot\<lparr>SnapshotSequenceId := (case ver of None \<Rightarrow> EmptySequenceId | Some v \<Rightarrow> v)\<rparr>
                else snapshot)))"

definition CurrentPosition :: "cbor \<Rightarrow> 'k kv_get \<Rightarrow> (DiskWal \<times> 'k, SequenceId) prog" where
  "CurrentPosition C get =
     bindS (readVersion C get) (\<lambda>ver. returnS (case ver of None \<Rightarrow> EmptySequenceId | Some v \<Rightarrow> v))"

record WalLog =
  logK :: bytes
  logV :: bytes
  logD :: bool
  logSeq :: SequenceId

definition WalLogs :: "SequenceId \<Rightarrow> (DiskWal \<times> 'k, WalLog list) prog" where
  "WalLogs from s = (Panic ''implement me'', s)"

definition kv_Replay :: "WalLog list \<Rightarrow> (DiskWal \<times> 'k, unit) prog" where
  "kv_Replay logs s = (Panic ''implement me'', s)"

end
