(* ===== verification/Kv_Recovery.thy ===== *)
theory Kv_Recovery
  imports Kv_Store
begin

text \<open>
  What the durable store promises over any storage that meets the contract \<open>kv_backend\<close>: a
  successful change is readable and moves the version to the position of the log, and a start-up
  after a crash between the steps of a change completes it. The ghost history of a store is the
  list of its changes, each in one page of the log.
\<close>

definition cbor_ok :: "cbor \<Rightarrow> bool" where
  "cbor_ok C \<longleftrightarrow>
     (\<forall>e. \<exists>b. marshalEntry C e = Ok b \<and> unmarshalEntry C b = Ok e)
     \<and> (\<forall>s. \<exists>b. marshalSeq C s = Ok b \<and> unmarshalSeq C b = Ok s)"

definition put_entry :: "bytes \<times> bytes \<Rightarrow> WalEntry" where
  "put_entry e = \<lparr>eK = fst e, eV = snd e, eD = False\<rparr>"

definition logged :: "cbor \<Rightarrow> bytes \<times> bytes \<Rightarrow> wal_record \<Rightarrow> bool" where
  "logged C e r \<longleftrightarrow> marshalEntry C (put_entry e) = Ok (fst r) \<and> snd r = EntryTypeWhole"

definition user_key :: "bytes \<Rightarrow> bool" where
  "user_key k \<longleftrightarrow> valid_key k \<and> k \<noteq> VersionKey"

text \<open>
  The log holds the history, the storage its outcome, the version key the position of the log.
  Before the first change the version may be absent.
\<close>

definition kv_rep ::
  "cbor \<Rightarrow> ('k \<Rightarrow> bytes \<Rightarrow> bytes option) \<Rightarrow> DiskWal \<times> 'k \<Rightarrow> (bytes \<times> bytes) list \<Rightarrow> bool" where
  "kv_rep C cont s es \<longleftrightarrow>
     (\<exists>L. wal_rep (fst s) L \<and> list_all2 (logged C) es (log_records L))
     \<and> faults (fst s) = [] \<and> (\<forall>e \<in> set es. user_key (fst e))
     \<and> (\<forall>k. k \<noteq> VersionKey \<longrightarrow> cont (snd s) k = map_of (rev es) k)
     \<and> (es \<noteq> [] \<longrightarrow> (\<exists>b. marshalSeq C (curPosition (fst s)) = Ok b \<and> cont (snd s) VersionKey = Some b))"

text \<open>The entry of a change takes one page of the log.\<close>

definition fits :: "cbor \<Rightarrow> DiskWal \<Rightarrow> bytes \<times> bytes \<Rightarrow> bool" where
  "fits C d e \<longleftrightarrow>
     (\<exists>b. marshalEntry C (put_entry e) = Ok b \<and> length b \<le> maxPageSize d - 8)"

text \<open>A new process on what the last one left.\<close>

definition startup :: "cbor \<Rightarrow> 'k kv_put \<Rightarrow> 'k kv_get \<Rightarrow> (DiskWal \<times> 'k, unit) prog" where
  "startup C put get s = kv_Initialize C put get (restart (fst s), snd s)"

text \<open>The last page of the log holds an entry, and the version in the storage is before it.\<close>

definition blocked :: "cbor \<Rightarrow> ('k \<Rightarrow> bytes \<Rightarrow> bytes option) \<Rightarrow> bytes \<times> bytes \<Rightarrow> DiskWal \<times> 'k \<Rightarrow> bool" where
  "blocked C cont e s \<longleftrightarrow>
     (\<exists>M fk rs N ts r esS p b. wal_rep (fst s) (M @ (fk, rs) # N) \<and> log_records ((fk, rs) # N) = ts @ [r]
       \<and> list_all2 (logged C) esS ts \<and> logged C e r \<and> (\<forall>x \<in> set esS. user_key (fst x))
       \<and> cont (snd s) VersionKey = Some b \<and> marshalSeq C p = Ok b
       \<and> Term p = fst fk \<and> Collection p = snd fk \<and> p < curPosition (fst s))"

lemma blockedI:
  assumes "wal_rep d (M @ (fk, rs) # N)" "log_records ((fk, rs) # N) = ts @ [r]"
    and "list_all2 (logged C) esS ts" "logged C e r" "\<forall>x \<in> set esS. user_key (fst x)"
    and "cont k VersionKey = Some b" "marshalSeq C p = Ok b" "Term p = fst fk" "Collection p = snd fk" "p < curPosition d"
  shows "blocked C cont e (d, k)"
  unfolding blocked_def fst_conv snd_conv using assms by blast

text \<open>
  Where a start-up from the position before the last page begins: in the file of that position,
  which is still there, with a part of the older changes before it.
\<close>

lemma split_at_position:
  assumes w: "wal_rep d L" and hist: "list_all2 P es (log_records L)" and ne: "es \<noteq> []"
    and r: "P e r" and step: "page_step d L [r] d1 L1"
  obtains M rs N esM esS where "L1 = M @ ((curTerm d, curCollection d), rs) # N"
    and "es = esM @ esS" and "list_all2 P esM (log_records M)"
    and "list_all2 P (esS @ [e]) (log_records (((curTerm d, curCollection d), rs) # N))"
proof -
  note ps = step[unfolded page_step_def]
  have all: "list_all2 P (es @ [e]) (log_records L1)"
    using hist r ps by (auto intro!: list_all2_appendI)
  have "L \<noteq> []" using hist ne by (auto simp: log_records_def)
  then obtain n b where cf: "curFile d = Some (n, b)" using wal_repD(6)[OF w] by (cases "curFile d") auto
  have "(curTerm d, curCollection d) \<in> fst ` set L1"
    using wal_repD(7)[OF w cf] ps by (metis image_eqI last_in_set subsetD)
  then obtain rs where "((curTerm d, curCollection d), rs) \<in> set L1" by auto
  then obtain M N where L1: "L1 = M @ ((curTerm d, curCollection d), rs) # N"
    by (meson split_list)
  obtain n1 b1 where cf1: "curFile d1 = Some (n1, b1)"
    using wal_repD(6)[of d1 L1] ps by (cases "curFile d1") auto
  have tail: "log_records (((curTerm d, curCollection d), rs) # N) \<noteq> []"
    using wal_repD(7)[of d1 L1, OF _ cf1] ps L1 by (auto simp: log_records_def split: if_splits)
  obtain esM esS where es: "es @ [e] = esM @ esS" "list_all2 P esM (log_records M)"
      "list_all2 P esS (log_records (((curTerm d, curCollection d), rs) # N))"
    using all L1 by (auto simp: log_records_def list_all2_append2)
  then have sne: "esS \<noteq> []" using tail by auto
  then obtain esS' where "esS = esS' @ [e]" using es(1) by (metis append_butlast_last_id last_appendR last_snoc)
  then show ?thesis using that[OF L1 _ es(2)] es by auto
qed

locale kv_service = kv_backend put get abs
  for put :: "bytes \<Rightarrow> bytes \<Rightarrow> ('k, unit) prog"
    and get :: "bytes \<Rightarrow> ('k, bytes option) prog"
    and abs :: "'k \<Rightarrow> bytes \<Rightarrow> bytes option" +
  fixes C :: cbor
  assumes codec: "cbor_ok C"
begin

lemma entry_back: "marshalEntry C e = Ok b \<Longrightarrow> unmarshalEntry C b = Ok e"
  using codec by (metis cbor_ok_def res.inject(1))

lemma seq_back: "marshalSeq C s = Ok b \<Longrightarrow> unmarshalSeq C b = Ok s"
  using codec by (metis cbor_ok_def res.inject(1))

lemma seq_encodes: "\<exists>b. marshalSeq C s = Ok b"
  using codec by (auto simp: cbor_ok_def)

lemma readVersion_run:
  "readVersion C get (d, k) =
     (case abs k VersionKey of None \<Rightarrow> (Ok None, (d, k))
      | Some b \<Rightarrow> (case unmarshalSeq C b of Ok s \<Rightarrow> (Ok (Some s), (d, k))
          | Err e \<Rightarrow> (Err e, (d, k)) | Panic p \<Rightarrow> (Panic p, (d, k)) | Diverge \<Rightarrow> (Diverge, (d, k))))"
  using get_valid[OF VersionKey_valid, of k]
  by (auto simp: readVersion_def onSnd_def run_simps split: option.splits res.splits)

lemma writeVersion_run:
  assumes "marshalSeq C seq = Ok b"
  shows "\<exists>k'. writeVersion C put seq (d, k) = (Ok (), (d, k')) \<and> abs k' = (abs k)(VersionKey \<mapsto> b)"
  using put_valid[OF VersionKey_valid, of b k] assms
  by (auto simp: writeVersion_def onSnd_def run_simps)

lemma recover_records:
  assumes "list_all2 (logged C) es rs" "\<forall>e \<in> set es. user_key (fst e)"
  shows "\<exists>k'. forEach (\<lambda>r. recoverFn C put (fst r)) rs k = (Ok (), k')
    \<and> abs k' = abs k ++ map_of (rev es)"
  using assms
proof (induction es rs arbitrary: k rule: list_all2_induct)
  case Nil
  then show ?case by (simp add: returnS_def)
next
  case (Cons e es r rs)
  obtain k1 where k1: "put (fst e) (snd e) k = (Ok (), k1)" "abs k1 = (abs k)(fst e \<mapsto> snd e)"
    using put_valid[of "fst e" "snd e" k] Cons.prems by (auto simp: user_key_def)
  have step: "recoverFn C put (fst r) k = (Ok (), k1)"
    using Cons.hyps(1) k1(1) entry_back[of "put_entry e" "fst r"]
    by (simp add: logged_def recoverFn_def run_simps put_entry_def)
  obtain k2 where "forEach (\<lambda>r. recoverFn C put (fst r)) rs k1 = (Ok (), k2)"
    "abs k2 = abs k1 ++ map_of (rev es)" using Cons.IH Cons.prems by auto
  then show ?case
    using step k1(2) by (auto simp: bindS_def map_add_def fun_eq_iff split: option.splits)
qed

lemma WriteEntry_whole:
  assumes "wal_rep d L" "faults d = []" "length b \<le> maxPageSize d - 8" "curCollection d + 1 < 2 ^ 63"
  shows "\<exists>d1 L1. WriteEntry b d = (Ok (curPosition d1), d1) \<and> faults d1 = []
    \<and> page_step d L [(b, EntryTypeWhole)] d1 L1"
proof -
  have e: "entry_records (maxPageSize d) b = [(b, EntryTypeWhole)]"
    using assms(3) by (simp add: entry_records_def RecordHeaderSize_def)
  have "healthy d"
    using assms(1,2) wal_repD(1)[OF assms(1)] wal_repD(7)[OF assms(1)] by (auto simp: healthy_def wal_params_def)
  then obtain seq d1 where "WriteEntryWithFullPage b d = (Ok seq, d1)" "healthy d1"
    using WriteEntry_returns by blast
  then show ?thesis
    using WriteEntry_step[of b d seq d1 L] assms e by (auto simp: WriteEntry_def healthy_def)
qed

lemma writeWalEntry_step:
  assumes L: "wal_rep d L" "faults d = []" and fits: "fits C d (key, val)" and c: "curCollection d + 1 < 2 ^ 63"
  shows "\<exists>d1 L1 r. writeWalEntry C (put_entry (key, val)) (d, k) = (Ok (curPosition d1), (d1, k))
    \<and> logged C (key, val) r \<and> page_step d L [r] d1 L1 \<and> faults d1 = []"
proof -
  obtain b where b: "marshalEntry C (put_entry (key, val)) = Ok b" "length b \<le> maxPageSize d - 8"
    using fits by (auto simp: fits_def)
  obtain d1 L1 where w: "WriteEntry b d = (Ok (curPosition d1), d1)" "faults d1 = []"
      "page_step d L [(b, EntryTypeWhole)] d1 L1"
    using WriteEntry_whole[OF L b(2) c] by blast
  then have "writeWalEntry C (put_entry (key, val)) (d, k) = (Ok (curPosition d1), (d1, k))"
    using b by (simp add: writeWalEntry_def run_simps onFst_def)
  then show ?thesis using w(2,3) b(1) by (metis fst_conv logged_def snd_conv)
qed

lemma writeWalEntry_run:
  assumes rep: "kv_rep C abs (d, k) es" and fits: "fits C d (key, val)" and c: "curCollection d + 1 < 2 ^ 63"
  shows "\<exists>d1 L L1 r. writeWalEntry C (put_entry (key, val)) (d, k) = (Ok (curPosition d1), (d1, k))
    \<and> wal_rep d L \<and> list_all2 (logged C) es (log_records L) \<and> logged C (key, val) r
    \<and> page_step d L [r] d1 L1 \<and> faults d1 = []"
  using rep writeWalEntry_step[OF _ _ fits c] by (fastforce simp: kv_rep_def)

text \<open>A change runs through: the log grows by one page, then the key and the version are written.\<close>

lemma kv_Put_rep:
  assumes rep: "kv_rep C abs (d, k) es" and key: "user_key key"
    and fits: "fits C d (key, val)" and c: "curCollection d + 1 < 2 ^ 63"
  shows "\<exists>s'. kv_Put C put key val (d, k) = (Ok (), s') \<and> kv_rep C abs s' (es @ [(key, val)])
    \<and> maxPageSize (fst s') = maxPageSize d \<and> curCollection (fst s') \<le> curCollection d + 1"
proof -
  obtain d1 L L1 r where we: "writeWalEntry C (put_entry (key, val)) (d, k) = (Ok (curPosition d1), (d1, k))"
    and L: "list_all2 (logged C) es (log_records L)" "logged C (key, val) r" "page_step d L [r] d1 L1"
    and q: "faults d1 = []"
    using writeWalEntry_run[OF rep fits c] by auto
  obtain k1 where k1: "put key val k = (Ok (), k1)" "abs k1 = (abs k)(key \<mapsto> val)"
    using put_valid[of key val k] key by (auto simp: user_key_def)
  obtain vb where vb: "marshalSeq C (curPosition d1) = Ok vb" using seq_encodes by blast
  obtain k2 where k2: "writeVersion C put (curPosition d1) (d1, k1) = (Ok (), (d1, k2))"
      "abs k2 = (abs k1)(VersionKey \<mapsto> vb)" using writeVersion_run[OF vb] by blast
  have run: "kv_Put C put key val (d, k) = (Ok (), (d1, k2))"
    using we k1(1) k2(1) by (simp add: kv_Put_def put_entry_def run_simps onSnd_def)
  have "list_all2 (logged C) (es @ [(key, val)]) (log_records L1)"
    using L by (auto simp: page_step_def intro!: list_all2_appendI)
  moreover have step: "wal_rep d1 L1" "maxPageSize d1 = maxPageSize d" "curCollection d1 \<le> curCollection d + 1"
    using L(3) by (auto simp: page_step_def)
  moreover have "\<forall>x. x \<noteq> VersionKey \<longrightarrow> abs k x = map_of (rev es) x"
    using rep by (simp add: kv_rep_def)
  ultimately have "kv_rep C abs (d1, k2) (es @ [(key, val)])"
    using q k2(2) k1(2) vb key rep unfolding kv_rep_def by (auto simp: user_key_def)
  then show ?thesis using run step(2,3) by auto
qed

text \<open>
  Start-up, for a storage that holds the outcome of the files before the version's and of some
  of the changes since.
\<close>

lemma logged_types: "list_all2 (logged C) es rs \<Longrightarrow> \<forall>r \<in> set rs. snd r = EntryTypeWhole"
  by (induction rule: list_all2_induct) (auto simp: logged_def)

lemma kv_Initialize_replays:
  assumes rep: "wal_rep d (M @ (fk, rs) # N)"
    and hist: "list_all2 (logged C) esM (log_records M)" "list_all2 (logged C) esS (log_records ((fk, rs) # N))"
    and keys: "\<forall>e \<in> set (esM @ esS). user_key (fst e)"
    and ver: "abs k VersionKey = Some b" "marshalSeq C p = Ok b"
    and pos: "Term p = fst fk" "Collection p = snd fk" "p < curPosition d"
    and enc: "marshalSeq C (curPosition d) = Ok b'"
  shows "\<exists>d' k'. kv_Initialize C put get (restart d, k) = (Ok (), (d', k')) \<and> wal_rep d' (M @ (fk, rs) # N)
    \<and> faults d' = [] \<and> curPosition d' = curPosition d \<and> abs k' = (abs k ++ map_of (rev esS))(VersionKey \<mapsto> b')"
proof -
  let ?L = "M @ (fk, rs) # N"
  have t: "\<forall>r \<in> set (log_records ?L). snd r = EntryTypeWhole"
    using logged_types[OF hist(1)] logged_types[OF hist(2)] by (auto simp: log_records_def)
  have Lne: "log_records ?L \<noteq> []"
  proof -
    obtain n b where cf: "curFile d = Some (n, b)" using wal_repD(6)[OF rep] by (cases "curFile d") auto
    have "snd (last ?L) \<noteq> []" using wal_repD(7)[OF rep cf] by blast
    then show ?thesis by (auto simp: log_records_def split: if_splits)
  qed
  have "last (log_records ?L) \<in> set (log_records ?L)" using Lne by (rule last_in_set)
  then have "snd (last (log_records ?L)) = EntryTypeWhole" using t by blast
  then have notmid: "snd (last (log_records ?L)) \<noteq> EntryTypeMiddle" by (simp add: entry_type_defs)
  obtain d' where d': "Initialize (restart d) = (Ok (curPosition d), d')" "wal_rep d' ?L"
      "faults d' = []" "curPosition d' = curPosition d"
    using restart_position[OF rep _ notmid] by auto
  obtain k1 where k1: "forEach (\<lambda>r. recoverFn C put (fst r)) (log_records ((fk, rs) # N)) k = (Ok (), k1)"
      "abs k1 = abs k ++ map_of (rev esS)"
    using recover_records[OF hist(2)] keys by auto
  have rp: "ReplayIncomplete p (recoverFn C put) (d', k) = (Ok (curPosition d), (d', k1))"
    using ReplayIncomplete_records[OF d'(2,3) pos(1,2), of "recoverFn C put" k] pos(3) d'(4) k1(1)
    by (simp add: bindS_def onSnd_def returnS_def)
  obtain k2 where k2: "writeVersion C put (curPosition d) (d', k1) = (Ok (), (d', k2))"
      "abs k2 = (abs k1)(VersionKey \<mapsto> b')" using writeVersion_run[OF enc] by blast
  have "kv_Initialize C put get (restart d, k) = (Ok (), (d', k2))"
    using d'(1) rp k2(1) seq_back[OF ver(2)] ver(1)
    by (simp add: kv_Initialize_def run_simps onFst_def readVersion_run)
  then show ?thesis using d' k1(2) k2(2) by auto
qed

lemma kv_Initialize_recovers:
  assumes rep: "wal_rep d (M @ (fk, rs) # N)"
    and hist: "list_all2 (logged C) esM (log_records M)" "list_all2 (logged C) esS (log_records ((fk, rs) # N))"
    and keys: "\<forall>e \<in> set (esM @ esS). user_key (fst e)"
    and ver: "abs k VersionKey = Some b" "marshalSeq C p = Ok b"
    and pos: "Term p = fst fk" "Collection p = snd fk" "p < curPosition d"
    and state: "\<forall>x. x \<noteq> VersionKey \<longrightarrow> abs k x = map_of (rev (esM @ esP)) x"
    and prefix: "esS = esP @ esR" and enc: "marshalSeq C (curPosition d) = Ok b'"
  shows "\<exists>s'. kv_Initialize C put get (restart d, k) = (Ok (), s') \<and> kv_rep C abs s' (esM @ esS)
    \<and> curPosition (fst s') = curPosition d"
proof -
  obtain d' k2 where r: "kv_Initialize C put get (restart d, k) = (Ok (), (d', k2))" "wal_rep d' (M @ (fk, rs) # N)"
      "faults d' = []" "curPosition d' = curPosition d" "abs k2 = (abs k ++ map_of (rev esS))(VersionKey \<mapsto> b')"
    using kv_Initialize_replays[OF rep hist keys ver pos enc] by blast
  have "abs k2 x = map_of (rev (esM @ esS)) x" if "x \<noteq> VersionKey" for x
    using that r(5) state prefix by (auto simp: map_add_def split: option.splits)
  then have "kv_rep C abs (d', k2) (esM @ esS)"
    using r hist enc keys unfolding kv_rep_def
    by (auto simp: log_records_def intro!: exI[of _ "M @ (fk, rs) # N"] list_all2_appendI)
  then show ?thesis using r by auto
qed

lemma kv_Initialize_skips:
  assumes rep: "wal_rep d L" and L: "list_all2 (logged C) es (log_records L)" "es \<noteq> []"
    and b: "marshalSeq C (curPosition d) = Ok b" "abs k VersionKey = Some b"
  shows "\<exists>d' k'. kv_Initialize C put get (restart d, k) = (Ok (), (d', k')) \<and> wal_rep d' L
    \<and> faults d' = [] \<and> curPosition d' = curPosition d \<and> abs k' = (abs k)(VersionKey \<mapsto> b)"
proof -
  have rne: "log_records L \<noteq> []" "L \<noteq> []" using L by auto (simp add: log_records_def)
  then have "snd (last (log_records L)) = EntryTypeWhole"
    using logged_types[OF L(1)] by simp
  then obtain d' where d': "Initialize (restart d) = (Ok (curPosition d), d')" "wal_rep d' L"
      "faults d' = []" "curPosition d' = curPosition d"
    using restart_position[OF rep rne(2)] by (auto simp: entry_type_defs)
  obtain k2 where k2: "writeVersion C put (curPosition d) (d', k) = (Ok (), (d', k2))"
      "abs k2 = (abs k)(VersionKey \<mapsto> b)" using writeVersion_run[OF b(1)] by blast
  have rp: "ReplayIncomplete (curPosition d) (recoverFn C put) (d', k) = (Ok (curPosition d), (d', k))"
    using d'(4) by (simp add: ReplayIncomplete_def run_simps curPosition_def)
  have "kv_Initialize C put get (restart d, k) = (Ok (), (d', k2))"
    using d'(1) rp k2(1) seq_back[OF b(1)] b(2)
    by (simp add: kv_Initialize_def run_simps onFst_def readVersion_run)
  then show ?thesis using d' k2(2) by blast
qed

lemma kv_Initialize_current:
  assumes rep: "kv_rep C abs (d, k) es" and ne: "es \<noteq> []"
  shows "\<exists>s'. kv_Initialize C put get (restart d, k) = (Ok (), s') \<and> kv_rep C abs s' es
    \<and> curPosition (fst s') = curPosition d"
proof -
  obtain L where L: "wal_rep d L" "list_all2 (logged C) es (log_records L)"
    using rep by (auto simp: kv_rep_def)
  obtain b where b: "marshalSeq C (curPosition d) = Ok b" "abs k VersionKey = Some b"
    using rep ne by (auto simp: kv_rep_def)
  obtain d' k' where r: "kv_Initialize C put get (restart d, k) = (Ok (), (d', k'))" "wal_rep d' L"
      "faults d' = []" "curPosition d' = curPosition d" "abs k' = (abs k)(VersionKey \<mapsto> b)"
    using kv_Initialize_skips[OF L ne b] by blast
  then have "kv_rep C abs (d', k') es"
    using L b(1) rep unfolding kv_rep_def by auto
  then show ?thesis using r by auto
qed

text \<open>
  A process that dies after the log has taken the change, before or after the storage has: the
  next start-up completes the change.
\<close>

lemma crash_recovers:
  assumes rep: "kv_rep C abs (d, k) es" and ne: "es \<noteq> []" and key: "user_key key"
    and fits: "fits C d (key, val)" and c: "curCollection d + 1 < 2 ^ 63"
    and k': "k' = k \<or> k' = snd (put key val k)"
    and crash: "writeWalEntry C (put_entry (key, val)) (d, k) = (r, (d1, k))"
  shows "\<exists>s'. kv_Initialize C put get (restart d1, k') = (Ok (), s') \<and> kv_rep C abs s' (es @ [(key, val)])"
proof -
  obtain L L1 r where L: "wal_rep d L" "list_all2 (logged C) es (log_records L)"
    "logged C (key, val) r" "page_step d L [r] d1 L1"
    using writeWalEntry_run[OF rep fits c] crash by auto
  obtain M rs N esM esS where L1: "L1 = M @ ((curTerm d, curCollection d), rs) # N" "es = esM @ esS"
    "list_all2 (logged C) esM (log_records M)"
    "list_all2 (logged C) (esS @ [(key, val)]) (log_records (((curTerm d, curCollection d), rs) # N))"
    using split_at_position[OF L(1,2) ne L(3,4)] by metis
  note ps = L(4)[unfolded page_step_def]
  obtain k1 where w: "put key val k = (Ok (), k1)" "abs k1 = (abs k)(key \<mapsto> val)"
    using put_valid[of key val k] key by (auto simp: user_key_def)
  obtain vb where vb: "marshalSeq C (curPosition d) = Ok vb" "abs k VersionKey = Some vb"
    using rep ne by (auto simp: kv_rep_def)
  obtain vb1 where vb1: "marshalSeq C (curPosition d1) = Ok vb1" using seq_encodes by blast
  have old: "\<forall>x. x \<noteq> VersionKey \<longrightarrow> abs k x = map_of (rev es) x" "\<forall>e \<in> set es. user_key (fst e)"
    using rep by (auto simp: kv_rep_def)
  have kV: "abs k' VersionKey = Some vb" using k' w vb(2) key by (auto simp: user_key_def)
  have "\<exists>esP esR. esS @ [(key, val)] = esP @ esR
      \<and> (\<forall>x. x \<noteq> VersionKey \<longrightarrow> abs k' x = map_of (rev (esM @ esP)) x)"
  proof (cases "k' = k")
    case True
    then show ?thesis using old(1) L1(2) by metis
  next
    case False
    then have "\<forall>x. x \<noteq> VersionKey \<longrightarrow> abs k' x = map_of (rev (esM @ esS @ [(key, val)])) x"
      using k' w old(1) L1(2) by auto
    then show ?thesis by (metis append_Nil2)
  qed
  then obtain esP esR where P: "esS @ [(key, val)] = esP @ esR"
    "\<forall>x. x \<noteq> VersionKey \<longrightarrow> abs k' x = map_of (rev (esM @ esP)) x" by blast
  have "\<exists>s'. kv_Initialize C put get (restart d1, k') = (Ok (), s') \<and> kv_rep C abs s' (esM @ esS @ [(key, val)])
    \<and> curPosition (fst s') = curPosition d1"
  proof (rule kv_Initialize_recovers[OF _ L1(3,4) _ kV vb(1) _ _ _ P(2,1) vb1])
    show "wal_rep d1 (M @ ((curTerm d, curCollection d), rs) # N)" using ps L1 by simp
    show "\<forall>e \<in> set (esM @ esS @ [(key, val)]). user_key (fst e)"
      using old(2) key L1(2) by auto
  qed (use ps in \<open>auto simp: curPosition_def\<close>)
  then show ?thesis unfolding L1(2) append_assoc by blast
qed

text \<open>
  A change under a malformed key is refused by the storage after the log has taken it. While the
  version in the storage is before such a page, every start-up fails at it, and leaves the version
  and the log as they were.
\<close>

lemma blocked_startup:
  assumes b: "blocked C abs (key, val) (d, k)" and key: "\<not> validateKeyFormat key"
  shows "\<exists>s'. startup C put get (d, k) = (Err ErrKeyFormatInvalid, s') \<and> blocked C abs (key, val) s'"
proof -
  obtain M fk rs N ts r esS p vb where L: "wal_rep d (M @ (fk, rs) # N)" "log_records ((fk, rs) # N) = ts @ [r]"
    and hist: "list_all2 (logged C) esS ts" "logged C (key, val) r" "\<forall>e \<in> set esS. user_key (fst e)"
    and ver: "abs k VersionKey = Some vb" "marshalSeq C p = Ok vb"
    and pos: "Term p = fst fk" "Collection p = snd fk" "p < curPosition d"
    using b by (auto simp: blocked_def)
  let ?L = "M @ (fk, rs) # N"
  have "log_records ?L = log_records M @ ts @ [r]" using L(2) by (simp add: log_records_def)
  then have "snd (last (log_records ?L)) \<noteq> EntryTypeMiddle" using hist(2) by (simp add: logged_def entry_type_defs)
  then obtain d' where d': "Initialize (restart d) = (Ok (curPosition d), d')" "wal_rep d' ?L" "faults d' = []"
      "curPosition d' = curPosition d" using restart_position[OF L(1)] by auto
  obtain k1 where k1: "forEach (\<lambda>r. recoverFn C put (fst r)) ts k = (Ok (), k1)" "abs k1 = abs k ++ map_of (rev esS)"
    using recover_records[OF hist(1,3), of k] by blast
  then have "forEach (\<lambda>r. recoverFn C put (fst r)) (log_records ((fk, rs) # N)) k = (Err ErrKeyFormatInvalid, k1)"
    using put_invalid[OF key, of val k1] hist(2) entry_back[of "put_entry (key, val)" "fst r"]
    by (simp add: L(2) forEach_append bindS_Ok logged_def recoverFn_def run_simps put_entry_def)
  then have "ReplayIncomplete p (recoverFn C put) (d', k) = (Err ErrKeyFormatInvalid, (d', k1))"
    using ReplayIncomplete_records[OF d'(2,3) pos(1,2), of "recoverFn C put" k] pos(3) d'(4)
    by (simp add: bindS_def onSnd_def)
  then have "startup C put get (d, k) = (Err ErrKeyFormatInvalid, (d', k1))"
    using d'(1) seq_back[OF ver(2)] ver(1) by (simp add: startup_def kv_Initialize_def run_simps onFst_def readVersion_run)
  moreover have "map_of (rev esS) VersionKey = None" using hist(3) by (auto simp: map_of_eq_None_iff user_key_def)
  then have "abs k1 VersionKey = Some vb" using k1(2) ver(1) by (simp add: map_add_def)
  then have "blocked C abs (key, val) (d', k1)"
    by (rule blockedI[where cont = abs, OF d'(2) L(2) hist(1,2,3) _ ver(2) pos(1,2)]) (simp add: d'(4) pos(3))
  ultimately show ?thesis by blast
qed

lemma blocked_startups:
  assumes "blocked C abs (key, val) s" "\<not> validateKeyFormat key"
  shows "fst (startup C put get (((\<lambda>s. snd (startup C put get s)) ^^ n) s)) = Err ErrKeyFormatInvalid"
proof -
  have one: "fst (startup C put get s) = Err ErrKeyFormatInvalid \<and> blocked C abs (key, val) (snd (startup C put get s))"
    if "blocked C abs (key, val) s" for s
    using blocked_startup[of key val "fst s" "snd s", OF _ assms(2)] that by auto
  have "blocked C abs (key, val) (((\<lambda>s. snd (startup C put get s)) ^^ n) s)"
    by (induction n) (simp_all add: assms(1) one)
  then show ?thesis using one by blast
qed

lemma invalid_key_blocks:
  assumes rep: "kv_rep C abs (d, k) es" and ne: "es \<noteq> []" and key: "\<not> validateKeyFormat key"
    and fits: "fits C d (key, val)" and c: "curCollection d + 2 < 2 ^ 63"
  shows "\<exists>d1. kv_Put C put key val (d, k) = (Err ErrKeyFormatInvalid, (d1, k))
    \<and> (\<forall>n. fst (startup C put get (((\<lambda>s. snd (startup C put get s)) ^^ n) (d1, k))) = Err ErrKeyFormatInvalid)
    \<and> (\<forall>key2 val2. user_key key2 \<and> fits C d (key2, val2) \<longrightarrow>
         (\<exists>s2 s3. kv_Put C put key2 val2 (d1, k) = (Ok (), s2) \<and> startup C put get s2 = (Ok (), s3)))"
proof -
  obtain d1 L L1 r where we: "writeWalEntry C (put_entry (key, val)) (d, k) = (Ok (curPosition d1), (d1, k))"
    and L: "wal_rep d L" "list_all2 (logged C) es (log_records L)" "logged C (key, val) r" "page_step d L [r] d1 L1"
    and q: "faults d1 = []"
    using writeWalEntry_run[OF rep fits] c by auto
  note ps = L(4)[unfolded page_step_def]
  have put: "kv_Put C put key val (d, k) = (Err ErrKeyFormatInvalid, (d1, k))"
    using we put_invalid[OF key] by (simp add: kv_Put_def put_entry_def run_simps onSnd_def)
  obtain M rs N esM esS where L1: "L1 = M @ ((curTerm d, curCollection d), rs) # N" "es = esM @ esS"
    "list_all2 (logged C) esM (log_records M)"
    "list_all2 (logged C) (esS @ [(key, val)]) (log_records (((curTerm d, curCollection d), rs) # N))"
    using split_at_position[OF L(1,2) ne L(3,4)] by metis
  obtain ts r1 where t: "log_records (((curTerm d, curCollection d), rs) # N) = ts @ [r1]"
      "list_all2 (logged C) esS ts" "logged C (key, val) r1"
    using L1(4) by (auto simp: list_all2_append1 list_all2_Cons1)
  obtain vb where vb: "marshalSeq C (curPosition d) = Ok vb" "abs k VersionKey = Some vb"
    using rep ne by (auto simp: kv_rep_def)
  have keys: "\<forall>e \<in> set esS. user_key (fst e)" using rep L1(2) by (auto simp: kv_rep_def)
  have w1: "wal_rep d1 (M @ ((curTerm d, curCollection d), rs) # N)" "curPosition d < curPosition d1" using ps L1(1) by auto
  have "blocked C abs (key, val) (d1, k)"
    by (rule blockedI[where cont = abs, OF w1(1) t keys vb(2,1) _ _ w1(2)]) (simp_all add: curPosition_def)
  then have fail: "\<forall>n. fst (startup C put get (((\<lambda>s. snd (startup C put get s)) ^^ n) (d1, k))) = Err ErrKeyFormatInvalid"
    using blocked_startups[OF _ key] by blast
  have heal: "\<exists>s2 s3. kv_Put C put key2 val2 (d1, k) = (Ok (), s2) \<and> startup C put get s2 = (Ok (), s3)"
    if key2: "user_key key2" "fits C d (key2, val2)" for key2 val2
  proof -
    have f2: "fits C d1 (key2, val2)" "curCollection d1 + 1 < 2 ^ 63" using ps key2(2) c by (auto simp: fits_def)
    obtain d2 L2 r2 where w2: "writeWalEntry C (put_entry (key2, val2)) (d1, k) = (Ok (curPosition d2), (d2, k))"
        "logged C (key2, val2) r2" "page_step d1 L1 [r2] d2 L2"
      using writeWalEntry_step[OF _ q f2, of L1 k] ps by auto
    note ps2 = w2(3)[unfolded page_step_def]
    obtain k1 where k1: "put key2 val2 k = (Ok (), k1)" using put_valid[of key2 val2 k] key2(1) by (auto simp: user_key_def)
    obtain b2 where b2: "marshalSeq C (curPosition d2) = Ok b2" using seq_encodes by blast
    obtain k2 where k2: "writeVersion C put (curPosition d2) (d2, k1) = (Ok (), (d2, k2))" "abs k2 VersionKey = Some b2"
      using writeVersion_run[OF b2, of d2 k1] by auto
    have "kv_Put C put key2 val2 (d1, k) = (Ok (), (d2, k2))"
      using w2(1) k1 k2(1) by (simp add: kv_Put_def put_entry_def run_simps onSnd_def)
    moreover have "list_all2 (logged C) ((es @ [(key, val)]) @ [(key2, val2)]) (log_records L2)"
      using L(2,3) w2(2) ps ps2 by (auto intro!: list_all2_appendI)
    then obtain d3 k3 where "startup C put get (d2, k2) = (Ok (), (d3, k3))"
      using kv_Initialize_skips[OF conjunct1[OF ps2] _ _ b2 k2(2)] unfolding startup_def fst_conv snd_conv
      by (metis append_is_Nil_conv not_Cons_self2)
    ultimately show ?thesis by blast
  qed
  then show ?thesis using put fail by blast
qed

text \<open>A store that has never been used: the log is empty, the version is the start of a log.\<close>

lemma kv_Initialize_fresh:
  assumes "\<forall>x. abs k x = None"
  shows "\<exists>d k'. kv_Initialize C put get (NewDiskWal [] [], k) = (Ok (), (d, k')) \<and> kv_rep C abs (d, k') []
    \<and> d = NewDiskWal [] [] \<and> (\<exists>b. marshalSeq C StartWalSequence = Ok b \<and> abs k' VersionKey = Some b)"
proof -
  let ?d = "NewDiskWal [] []"
  obtain b where b: "marshalSeq C StartWalSequence = Ok b" using seq_encodes by blast
  obtain k2 where k2: "writeVersion C put StartWalSequence (?d, k) = (Ok (), (?d, k2))"
      "abs k2 = (abs k)(VersionKey \<mapsto> b)" using writeVersion_run[OF b] by blast
  have wf: "wal_files (maxPageSize ?d) (files ?d) []" by (simp add: wal_files_def NewDiskWal_def)
  have init: "Initialize ?d = (Ok (SequenceId 1 0 0), ?d)"
    using Initialize_empty[OF wf] by (simp add: NewDiskWal_def)
  have rp: "ReplayIncomplete StartWalSequence (recoverFn C put) (?d, k) = (Ok StartWalSequence, (?d, k))"
    by (simp add: ReplayIncomplete_def run_simps StartWalSequence_def NewDiskWal_def)
  have "kv_Initialize C put get (?d, k) = (Ok (), (?d, k2))"
    using init k2(1) assms rp by (simp add: kv_Initialize_def run_simps onFst_def readVersion_run)
  moreover have "wal_rep ?d []"
    using wf by (simp add: wal_rep_def wal_params_def NewDiskWal_def in_i64_def)
  then have "kv_rep C abs (?d, k2) []"
    using assms k2(2) unfolding kv_rep_def by (auto simp: log_records_def NewDiskWal_def intro!: exI[of _ "[]"])
  ultimately show ?thesis using b k2(2) by auto
qed

lemma kv_Puts_rep:
  assumes "kv_rep C abs s es0" "\<forall>e \<in> set es. user_key (fst e) \<and> fits C (fst s) e"
    "curCollection (fst s) + int (length es) < 2 ^ 63"
  shows "\<exists>s'. forEach (\<lambda>e. kv_Put C put (fst e) (snd e)) es s = (Ok (), s') \<and> kv_rep C abs s' (es0 @ es)"
  using assms
proof (induction es arbitrary: s es0)
  case Nil
  then show ?case by (simp add: returnS_def)
next
  case (Cons e es)
  obtain d k where s: "s = (d, k)" by fastforce
  have "\<exists>s'. kv_Put C put (fst e) (snd e) (d, k) = (Ok (), s') \<and> kv_rep C abs s' (es0 @ [(fst e, snd e)])
    \<and> maxPageSize (fst s') = maxPageSize d \<and> curCollection (fst s') \<le> curCollection d + 1"
    by (rule kv_Put_rep) (use Cons.prems s in auto)
  then obtain s1 where s1: "kv_Put C put (fst e) (snd e) s = (Ok (), s1)" "kv_rep C abs s1 (es0 @ [e])"
    "maxPageSize (fst s1) = maxPageSize (fst s)" "curCollection (fst s1) \<le> curCollection (fst s) + 1"
    using s by auto
  have "\<forall>e \<in> set es. user_key (fst e) \<and> fits C (fst s1) e" using Cons.prems(2) s1(3) by (simp add: fits_def)
  moreover have "curCollection (fst s1) + int (length es) < 2 ^ 63" using Cons.prems(3) s1(4) by simp
  ultimately show ?case using Cons.IH[OF s1(2)] s1(1) by (auto simp: bindS_def)
qed

lemma kv_Get_rep:
  assumes "kv_rep C abs s es" "user_key key"
  shows "kv_Get get key s = (Ok (map_of (rev es) key), s)"
  using assms get_valid[of key "snd s"]
  by (cases s) (auto simp: kv_rep_def kv_Get_def onSnd_def user_key_def)

lemma kv_history:
  assumes "\<forall>x. abs k x = None" "\<forall>e \<in> set es. user_key (fst e) \<and> fits C (NewDiskWal [] []) e"
    "int (length es) < 2 ^ 63" "user_key key"
  shows "fst (bindS (kv_Initialize C put get) (\<lambda>_.
      bindS (forEach (\<lambda>e. kv_Put C put (fst e) (snd e)) es) (\<lambda>_. kv_Get get key)) (NewDiskWal [] [], k))
    = Ok (map_of (rev es) key)"
proof -
  obtain k' where i: "kv_Initialize C put get (NewDiskWal [] [], k) = (Ok (), (NewDiskWal [] [], k'))"
      "kv_rep C abs (NewDiskWal [] [], k') []"
    using kv_Initialize_fresh[OF assms(1)] by blast
  have "curCollection (NewDiskWal [] []) = 0" by (simp add: NewDiskWal_def)
  then obtain s where "forEach (\<lambda>e. kv_Put C put (fst e) (snd e)) es (NewDiskWal [] [], k') = (Ok (), s)"
      "kv_rep C abs s es"
    using kv_Puts_rep[OF i(2), of es] assms(2,3) by auto
  then show ?thesis using i(1) kv_Get_rep[OF _ assms(4)] by (simp add: bindS_def)
qed

text \<open>
  The first change of a fresh store ends at \<open>StartWalSequence\<close>, which is also the version written
  at start-up: a crash before the storage has the change loses it.
\<close>

lemma first_change_lost:
  assumes empty: "\<forall>x. abs k x = None" and key: "user_key key" and fits: "fits C (NewDiskWal [] []) (key, val)"
  shows "\<exists>d1 k1 s'. writeWalEntry C (put_entry (key, val)) (snd (kv_Initialize C put get (NewDiskWal [] [], k)))
      = (Ok StartWalSequence, (d1, k1))
    \<and> kv_Initialize C put get (restart d1, k1) = (Ok (), s') \<and> kv_Get get key s' = (Ok None, s')"
proof -
  let ?d = "NewDiskWal [] []"
  obtain k1 b where i: "kv_Initialize C put get (?d, k) = (Ok (), (?d, k1))" "kv_rep C abs (?d, k1) []"
      and b: "marshalSeq C StartWalSequence = Ok b" "abs k1 VersionKey = Some b"
    using kv_Initialize_fresh[OF empty] by blast
  obtain d1 L L1 r where we: "writeWalEntry C (put_entry (key, val)) (?d, k1) = (Ok (curPosition d1), (d1, k1))"
    and L: "wal_rep ?d L" "logged C (key, val) r" "page_step ?d L [r] d1 L1" and lr: "log_records L = []"
    using writeWalEntry_run[OF i(2) fits] by (auto simp: NewDiskWal_def)
  note ps = L(3)[unfolded page_step_def]
  obtain n1 b1 where cf1: "curFile d1 = Some (n1, b1)"
    using wal_repD(6)[of d1 L1] ps by (cases "curFile d1") auto
  note r1 = wal_repD(7)[of d1 L1, OF _ cf1]
  have one: "snd (last L1) = [r]"
  proof -
    obtain M x where M: "L1 = M @ [x]" using ps by (meson rev_exhaust)
    then have "snd x \<noteq> []" using r1 ps by simp
    moreover have "log_records L1 = log_records M @ snd x" by (simp add: M log_records_def)
    moreover have "log_records L1 = [r]" using ps lr by simp
    ultimately show ?thesis by (auto simp: M append_eq_Cons_conv)
  qed
  have key1: "0 < snd (fst (last L1))"
    using wal_filesD(3)[of _ _ L1 "fst (last L1)" "snd (last L1)"] wal_repD(2)[of d1 L1] ps
    by (auto simp: key_ok_def)
  have p: "curPosition d1 = StartWalSequence"
  proof -
    have "curTerm d1 = 1" "curCollection d1 \<le> 1" using ps by (auto simp: NewDiskWal_def)
    moreover have "curSeq d1 = 1" "curCollection d1 = snd (fst (last L1))" using r1 ps one by auto
    ultimately show ?thesis using key1 by (simp add: curPosition_def StartWalSequence_def)
  qed
  have "snd (last (log_records L1)) = EntryTypeWhole" using ps L(2) by (simp add: logged_def)
  then obtain d' where d': "Initialize (restart d1) = (Ok (curPosition d1), d')" "wal_rep d' L1"
      "curPosition d' = curPosition d1"
    using restart_position[of d1 L1] ps by (auto simp: entry_type_defs)
  obtain k2 where k2: "writeVersion C put StartWalSequence (d', k1) = (Ok (), (d', k2))"
      "abs k2 = (abs k1)(VersionKey \<mapsto> b)" using writeVersion_run[OF b(1)] by blast
  have rp: "ReplayIncomplete StartWalSequence (recoverFn C put) (d', k1) = (Ok StartWalSequence, (d', k1))"
    using d'(3) p by (simp add: ReplayIncomplete_def run_simps curPosition_def StartWalSequence_def)
  have "kv_Initialize C put get (restart d1, k1) = (Ok (), (d', k2))"
    using d'(1) p rp k2(1) seq_back[OF b(1)] b(2)
    by (simp add: kv_Initialize_def run_simps onFst_def readVersion_run)
  moreover have "kv_Get get key (d', k2) = (Ok None, (d', k2))"
    using get_valid[of key k2] key k2(2) i(2) by (simp add: kv_Get_def onSnd_def user_key_def kv_rep_def)
  ultimately show ?thesis using we i(1) p by auto
qed

end

end
