(* ===== verification/Kv_Service.thy ===== *)
theory Kv_Service
  imports Kv_Recovery
begin

text \<open>
  The durable store over \<open>DiskvStorage\<close>: the contract of \<open>Kv_Recovery\<close> holds for every \<open>diskv\<close>
  and every \<open>cbor\<close> that behave as documented, and the properties of the store are stated over
  them. The last section has a concrete codec, on which the model runs.
\<close>

section \<open>The store on disk\<close>

locale kv_store = diskv_library D contents
  for D :: "'v diskv" and contents :: "'v \<Rightarrow> bytes \<Rightarrow> bytes option" +
  fixes C :: cbor
  assumes cbor_codec: "cbor_ok C"

sublocale kv_store \<subseteq> kv_service "diskv_Put D" "diskv_Get D" contents C
  by unfold_locales (rule cbor_codec)

context kv_store
begin

lemma service: "kv_service (diskv_Put D) (diskv_Get D) contents C"
  by unfold_locales

end

lemma serviceI:
  "diskv_library D contents \<Longrightarrow> cbor_ok C \<Longrightarrow> kv_service (diskv_Put D) (diskv_Get D) contents C"
  by (intro kv_store.service kv_store.intro kv_store_axioms.intro)

section \<open>A codec\<close>

text \<open>Numbers in unary, ended by a zero byte; byte strings after their length.\<close>

definition enc_nat :: "nat \<Rightarrow> bytes" where
  "enc_nat n = replicate n 1 @ [0]"

definition dec_nat :: "bytes \<Rightarrow> nat \<times> bytes" where
  "dec_nat b = (length (takeWhile (\<lambda>x. x = 1) b), drop 1 (dropWhile (\<lambda>x. x = 1) b))"

definition enc_int :: "int \<Rightarrow> bytes" where
  "enc_int i = (if i < 0 then 1 else 0) # enc_nat (nat \<bar>i\<bar>)"

definition dec_int :: "bytes \<Rightarrow> int \<times> bytes" where
  "dec_int b = (case dec_nat (drop 1 b) of (n, r) \<Rightarrow> ((if take 1 b = [1] then - int n else int n), r))"

lemma dec_enc_nat: "dec_nat (enc_nat n @ r) = (n, r)"
  by (simp add: dec_nat_def enc_nat_def takeWhile_append dropWhile_append)

lemma dec_enc_int: "dec_int (enc_int i @ r) = (i, r)"
  by (auto simp: dec_int_def enc_int_def dec_enc_nat)

definition unary_cbor :: cbor where
  "unary_cbor = \<lparr>
     marshalEntry = (\<lambda>e. Ok ((if eD e then 1 else 0) # enc_nat (length (eK e)) @ eK e @ eV e)),
     unmarshalEntry = (\<lambda>b. if b = [] then Err (LibError ''EOF'')
        else case dec_nat (tl b) of (n, r) \<Rightarrow> Ok \<lparr>eK = take n r, eV = drop n r, eD = (hd b = 1)\<rparr>),
     marshalSeq = (\<lambda>s. Ok (enc_int (Term s) @ enc_int (Collection s) @ enc_int (Seq s))),
     unmarshalSeq = (\<lambda>b. case dec_int b of (t, b1) \<Rightarrow> case dec_int b1 of (c, b2) \<Rightarrow>
        Ok (SequenceId t c (fst (dec_int b2))))\<rparr>"

lemma unary_cbor_ok: "cbor_ok unary_cbor"
proof -
  have "dec_int (enc_int i) = (i, [])" for i using dec_enc_int[of i "[]"] by simp
  then show ?thesis by (simp add: cbor_ok_def unary_cbor_def dec_enc_nat dec_enc_int)
qed

interpretation kvs: kv_store map_diskv "\<lambda>s. mget s" unary_cbor
  by unfold_locales (rule unary_cbor_ok)

section \<open>Properties\<close>

text \<open>
  C2: starting from an empty folder and an empty storage, any sequence of changes to user keys
  that fit in a page each succeeds, and afterwards a read of any user key returns the value of
  the last change to it, or that there is none.
\<close>

theorem store_reads_last_change:
  assumes "diskv_library D contents" "cbor_ok C" "\<forall>x. contents k x = None"
    and "\<forall>e \<in> set es. user_key (fst e) \<and> fits C (NewDiskWal [] []) e"
    and "int (length es) < 2 ^ 63" "user_key key"
  shows "fst (bindS (kv_Initialize C (diskv_Put D) (diskv_Get D)) (\<lambda>_.
      bindS (forEach (\<lambda>e. kv_Put C (diskv_Put D) (fst e) (snd e)) es) (\<lambda>_.
      kv_Get (diskv_Get D) key)) (NewDiskWal [] [], k)) = Ok (map_of (rev es) key)"
  by (rule kv_service.kv_history[OF serviceI[OF assms(1,2)] assms(3-6)])

lemma map_diskv_library: "diskv_library map_diskv (\<lambda>s. mget s)"
  by unfold_locales

lemma witness_fits: "length k + length k + length v < 4000 \<Longrightarrow> fits unary_cbor (NewDiskWal [] []) (k, v)"
  by (simp add: fits_def unary_cbor_def put_entry_def enc_nat_def NewDiskWal_def)

lemma user_key_letter: "user_key [0x61]" "user_key [0x62]"
  by code_simp+

text \<open>A store after one change, to start the crash scenarios from.\<close>

lemma sample_store:
  "\<exists>d k. snd (bindS (kv_Initialize unary_cbor (diskv_Put map_diskv) (diskv_Get map_diskv))
      (\<lambda>_. kv_Put unary_cbor (diskv_Put map_diskv) [0x61] [1]) (NewDiskWal [] [], [])) = (d, k)
    \<and> kv_rep unary_cbor (\<lambda>s. mget s) (d, k) [([0x61], [1])]
    \<and> maxPageSize d = 4096 \<and> curCollection d + 1 < 2 ^ 63 \<and> curCollection d + 2 < 2 ^ 63"
proof -
  obtain k where k: "kv_Initialize unary_cbor (diskv_Put map_diskv) (diskv_Get map_diskv) (NewDiskWal [] [], [])
        = (Ok (), (NewDiskWal [] [], k))"
      "kv_rep unary_cbor (\<lambda>s. mget s) (NewDiskWal [] [], k) []"
    using kvs.kv_Initialize_fresh[of "[]"] by auto
  have p: "maxPageSize (NewDiskWal [] []) = 4096" "curCollection (NewDiskWal [] []) = 0"
    by (simp_all add: NewDiskWal_def)
  show ?thesis
    using kvs.kv_Put_rep[OF k(2) user_key_letter(1) witness_fits[of "[0x61]" "[1]"]] k(1) p
    by (auto simp: bindS_def)
qed

theorem store_reads_last_change_witness:
  "fst (bindS (kv_Initialize unary_cbor (diskv_Put map_diskv) (diskv_Get map_diskv)) (\<lambda>_.
      bindS (forEach (\<lambda>e. kv_Put unary_cbor (diskv_Put map_diskv) (fst e) (snd e))
        [([0x61], [1]), ([0x62], [2]), ([0x61], [3])]) (\<lambda>_.
      kv_Get (diskv_Get map_diskv) [0x61])) (NewDiskWal [] [], [])) = Ok (Some [3])"
  using store_reads_last_change[OF map_diskv_library unary_cbor_ok, of "[]"
      "[([0x61], [1]), ([0x62], [2]), ([0x61], [3])]" "[0x61]"]
  by (simp add: witness_fits user_key_letter)

text \<open>
  C3: in a store with at least one change, a process dies after the log has taken a further change
  of a user key, whose entry fits a page, before or after the storage has it, but before the
  version is written. The next start-up succeeds and the store then holds the earlier changes and
  this one. (The first change of a store is lost by such a crash, and an entry of several pages
  cannot be replayed.)
\<close>

theorem crash_keeps_changes:
  assumes "diskv_library D contents" "cbor_ok C" "kv_rep C contents (d, k) es" "es \<noteq> []"
    and "user_key key" "fits C d (key, val)" "curCollection d + 1 < 2 ^ 63"
    and "k' = k \<or> k' = snd (diskv_Put D key val k)"
    and "writeWalEntry C (put_entry (key, val)) (d, k) = (r, (d1, k))"
  shows "\<exists>s'. kv_Initialize C (diskv_Put D) (diskv_Get D) (restart d1, k') = (Ok (), s')
    \<and> kv_rep C contents s' (es @ [(key, val)])"
  by (rule kv_service.crash_recovers[OF serviceI[OF assms(1,2)] assms(3-9)])

theorem crash_keeps_changes_witness:
  "\<exists>d k r d1 s'. kv_rep unary_cbor (\<lambda>s. mget s) (d, k) [([0x61], [1])]
    \<and> writeWalEntry unary_cbor (put_entry ([0x62], [2])) (d, k) = (r, (d1, k))
    \<and> kv_Initialize unary_cbor (diskv_Put map_diskv) (diskv_Get map_diskv) (restart d1, k) = (Ok (), s')
    \<and> kv_rep unary_cbor (\<lambda>s. mget s) s' [([0x61], [1]), ([0x62], [2])]"
proof -
  obtain d k where s: "kv_rep unary_cbor (\<lambda>s. mget s) (d, k) [([0x61], [1])]"
    "maxPageSize d = 4096" "curCollection d + 1 < 2 ^ 63" using sample_store by blast
  have f: "fits unary_cbor d ([0x62], [2])" using witness_fits[of "[0x62]" "[2]"] s(2)
    by (simp add: fits_def NewDiskWal_def)
  obtain r d1 where w: "writeWalEntry unary_cbor (put_entry ([0x62], [2])) (d, k) = (r, (d1, k))"
    using kvs.writeWalEntry_run[OF s(1) f s(3)] by blast
  have "\<exists>s'. kv_Initialize unary_cbor (diskv_Put map_diskv) (diskv_Get map_diskv) (restart d1, k) = (Ok (), s')
      \<and> kv_rep unary_cbor (\<lambda>s. mget s) s' ([([0x61], [1])] @ [([0x62], [2])])"
    using crash_keeps_changes[OF map_diskv_library unary_cbor_ok s(1) _ user_key_letter(2) f s(3), of k r d1] w
    by simp
  then show ?thesis using s(1) w unfolding append.simps by blast
qed

text \<open>
  A restart with no change under way comes back to the same store and the same position.
\<close>

lemma restart_keeps_store:
  assumes "diskv_library D contents" "cbor_ok C" "kv_rep C contents (d, k) es" "es \<noteq> []"
  shows "\<exists>s'. kv_Initialize C (diskv_Put D) (diskv_Get D) (restart d, k) = (Ok (), s')
    \<and> kv_rep C contents s' es \<and> curPosition (fst s') = curPosition d"
  by (rule kv_service.kv_Initialize_current[OF serviceI[OF assms(1,2)] assms(3,4)])

text \<open>
  C34: the first change of a fresh store is lost by the same crash: the version that start-up
  wrote is the position after that change, so the next start-up replays nothing.
\<close>

theorem first_change_is_lost:
  assumes "diskv_library D contents" "cbor_ok C" "\<forall>x. contents k x = None" "user_key key"
    and "fits C (NewDiskWal [] []) (key, val)"
  shows "\<exists>d1 k1 s'. writeWalEntry C (put_entry (key, val))
        (snd (kv_Initialize C (diskv_Put D) (diskv_Get D) (NewDiskWal [] [], k)))
      = (Ok StartWalSequence, (d1, k1))
    \<and> kv_Initialize C (diskv_Put D) (diskv_Get D) (restart d1, k1) = (Ok (), s')
    \<and> kv_Get (diskv_Get D) key s' = (Ok None, s')"
  by (rule kv_service.first_change_lost[OF serviceI[OF assms(1,2)] assms(3-5)])

theorem first_change_is_lost_witness:
  "\<exists>d1 k1 s'. writeWalEntry unary_cbor (put_entry ([0x61], [7]))
        (snd (kv_Initialize unary_cbor (diskv_Put map_diskv) (diskv_Get map_diskv) (NewDiskWal [] [], [])))
      = (Ok StartWalSequence, (d1, k1))
    \<and> kv_Initialize unary_cbor (diskv_Put map_diskv) (diskv_Get map_diskv) (restart d1, k1) = (Ok (), s')
    \<and> kv_Get (diskv_Get map_diskv) [0x61] s' = (Ok None, s')"
  by (rule first_change_is_lost[OF map_diskv_library unary_cbor_ok])
    (simp_all add: witness_fits user_key_letter)



end
