(* ===== verification/Kv_Frontend.thy ===== *)
theory Kv_Frontend
  imports Http_Lib Kv_Service
begin

text \<open>
  The two front ends of the key-value store: HTTP (\<open>internal/service/httpservice.go\<close>, with its
  client \<open>client/http.go\<close>) and the Redis protocol (\<open>internal/service/respservice.go\<close>,
  \<open>respservice.kv.go\<close>, \<open>internal/iface/resp2.go\<close>). The store behind them is any pair of operations
  \<open>Put\<close> and \<open>Get\<close>.
\<close>

section \<open>Strings\<close>

text \<open>A Go string is its UTF-8 bytes, here as characters.\<close>

definition keyBytes :: "string \<Rightarrow> bytes" where
  "keyBytes s = map of_char s"

definition bytesString :: "bytes \<Rightarrow> string" where
  "bytesString b = map (\<lambda>x. char_of (unat x)) b"

text \<open>The encodings of the characters that \<open>unicode.IsSpace\<close> accepts.\<close>

definition spaces :: "string list" where
  "spaces =
     map (\<lambda>n. [char_of n]) [9, 10, 11, 12, 13, 32 :: nat]
     @ [map char_of [0xC2, 0x85 :: nat], map char_of [0xC2, 0xA0 :: nat], map char_of [0xE1, 0x9A, 0x80 :: nat]]
     @ map (\<lambda>n. map char_of [0xE2, 0x80, n]) ([0x80 ..< 0x8B] @ [0xA8, 0xA9, 0xAF :: nat])
     @ [map char_of [0xE2, 0x81, 0x9F :: nat], map char_of [0xE3, 0x80, 0x80 :: nat]]"

lemma spaces_ne: "p \<in> set spaces \<Longrightarrow> p \<noteq> []"
  by (auto simp: spaces_def)

function trimLeft :: "string \<Rightarrow> string" where
  "trimLeft s = (case find (\<lambda>p. HasPrefix s p) spaces of None \<Rightarrow> s | Some p \<Rightarrow> trimLeft (drop (length p) s))"
  by auto
termination
proof (relation "measure length")
  fix s p assume "find (\<lambda>p. HasPrefix s p) spaces = Some p"
  then have "p \<in> set spaces" "HasPrefix s p" by (auto simp: find_Some_iff)
  then have "p \<noteq> []" "\<exists>t. s = p @ t" using spaces_ne HasPrefix_iff by auto
  then show "(drop (length p) s, s) \<in> measure length" by auto
qed simp

function trimRight :: "string \<Rightarrow> string" where
  "trimRight s = (case find (\<lambda>p. HasSuffix s p) spaces of None \<Rightarrow> s | Some p \<Rightarrow> trimRight (take (length s - length p) s))"
  by auto
termination
proof (relation "measure length")
  fix s p assume "find (\<lambda>p. HasSuffix s p) spaces = Some p"
  then have "p \<in> set spaces" "HasSuffix s p" by (auto simp: find_Some_iff)
  then have "p \<noteq> []" "\<exists>t. s = t @ p" using spaces_ne HasSuffix_iff by auto
  then show "(take (length s - length p) s, s) \<in> measure length" by auto
qed simp

declare trimLeft.simps [simp del] trimRight.simps [simp del]

definition TrimSpace :: "string \<Rightarrow> string" where
  "TrimSpace s = trimRight (trimLeft s)"

section \<open>HTTP\<close>

definition KvPath :: string where
  "KvPath = ''/services/kvstore/:key''"

definition http_kvGet :: "'s kv_get \<Rightarrow> 's httpHandler" where
  "http_kvGet get request params =
     (let key = TrimSpace (params ''key'') in
      if key = [] then returnS (StatusOnlyResult 400)
      else bindS (get (keyBytes key)) (\<lambda>val.
        case val of None \<Rightarrow> returnS (StatusOnlyResult 404) | Some v \<Rightarrow> returnS (RawResult v)))"

definition http_kvPut :: "'s kv_put \<Rightarrow> 's httpHandler" where
  "http_kvPut put request params =
     (let key = TrimSpace (params ''key'') in
      if key = [] then returnS (StatusOnlyResult 400)
      else bindS (liftR (Body request)) (\<lambda>dat.
        tryS (put (keyBytes key) dat)
          (\<lambda>_. returnS (StatusOnlyResult 200))
          (\<lambda>err. returnS (StatusOnlyResult 200))))"

definition SetupKVStorage :: "'s kv_put \<Rightarrow> 's kv_get \<Rightarrow> 's HttpServer \<Rightarrow> 's HttpServer" where
  "SetupKVStorage put get h = Add ''PUT'' KvPath (http_kvPut put) (Add ''GET'' KvPath (http_kvGet get) h)"

section \<open>The client\<close>

text \<open>
  \<open>Do\<close> performs a request: method, URL and body; it gives the status and the body of the
  response, whose reading may fail.
\<close>

type_synonym 's transport = "string \<Rightarrow> string \<Rightarrow> bytes \<Rightarrow> ('s, nat \<times> bytes res) prog"

record HttpServiceClient =
  endpoints :: "string list"

definition NewHttpServiceClient :: "string \<Rightarrow> HttpServiceClient" where
  "NewHttpServiceClient endpoint = \<lparr>endpoints = [endpoint]\<rparr>"

definition pickEndpoint :: "HttpServiceClient \<Rightarrow> string res" where
  "pickEndpoint h = (case endpoints h of [] \<Rightarrow> Panic ''index out of range'' | e # _ \<Rightarrow> Ok e)"

definition KvPut :: "'s transport \<Rightarrow> HttpServiceClient \<Rightarrow> string \<Rightarrow> bytes \<Rightarrow> ('s, unit) prog" where
  "KvPut Do h key val =
     (let key = TrimSpace key in
      if key = [] then failS (ErrorMsg ''key is empty'')
      else bindS (liftR (pickEndpoint h)) (\<lambda>e.
        bindS (Do ''PUT'' (e @ ''/services/kvstore/'' @ key) val) (\<lambda>(status, _).
          if status = 200 then returnS () else failS (ErrorMsg ''put kv failed, status:''))))"

definition KvGet :: "'s transport \<Rightarrow> HttpServiceClient \<Rightarrow> string \<Rightarrow> ('s, bytes option) prog" where
  "KvGet Do h key =
     (let key = TrimSpace key in
      if key = [] then failS (ErrorMsg ''key is empty'')
      else bindS (liftR (pickEndpoint h)) (\<lambda>e.
        bindS (Do ''GET'' (e @ ''/services/kvstore/'' @ key) []) (\<lambda>(status, body).
          if status = 404 then returnS None
          else if status = 200 then bindS (liftR body) (\<lambda>dat. returnS (Some dat))
          else failS (ErrorMsg ''get kv failed, status:''))))"

section \<open>The Redis protocol\<close>

datatype respReply = WriteError string | WriteNull | WriteBulk bytes | WriteString string | WriteInt int

type_synonym RespResult = "(respReply list, unit) prog"
type_synonym 's RespCommandHandler = "bytes list \<Rightarrow> ('s, RespResult) prog"

definition conn :: "respReply \<Rightarrow> RespResult" where
  "conn r = modifyS (\<lambda>out. out @ [r])"

definition RespErrorResult :: "string \<Rightarrow> RespResult" where "RespErrorResult msg = conn (WriteError msg)"
definition RespNilResult :: RespResult where "RespNilResult = conn WriteNull"
definition RespValueResult :: "bytes \<Rightarrow> RespResult" where "RespValueResult val = conn (WriteBulk val)"
definition RespStringResult :: "string \<Rightarrow> RespResult" where "RespStringResult msg = conn (WriteString msg)"
definition RespIntResult :: "int \<Rightarrow> RespResult" where "RespIntResult i = conn (WriteInt i)"

record 's Resp2Service =
  commandMapping :: "(string, 's RespCommandHandler) gomap"
  respAddr :: string

definition AddCommandHandler :: "string \<Rightarrow> 's RespCommandHandler \<Rightarrow> 's Resp2Service \<Rightarrow> 's Resp2Service" where
  "AddCommandHandler command h r = r\<lparr>commandMapping := mput (ToLower command) h (commandMapping r)\<rparr>"

definition NewResp2Service :: "string \<Rightarrow> 's Resp2Service" where
  "NewResp2Service addr =
     AddCommandHandler ''PING'' (\<lambda>args. returnS (RespStringResult ''PONG'')) \<lparr>commandMapping = [], respAddr = addr\<rparr>"

definition processCommand :: "'s Resp2Service \<Rightarrow> bytes list \<Rightarrow> ('s \<times> respReply list, unit) prog" where
  "processCommand r cmdArgs =
     (case cmdArgs of
        [] \<Rightarrow> panicS ''index out of range''
      | name # _ \<Rightarrow>
          let c = ToLower (bytesString name) in
          (case mget (commandMapping r) c of
             None \<Rightarrow> onSnd (conn (WriteError (''Unknown Command:'' @ c)))
           | Some h \<Rightarrow>
               tryS (onFst (h cmdArgs))
                 (\<lambda>result. tryS (onSnd result) returnS (\<lambda>err. returnS ()))
                 (\<lambda>err. onSnd (conn (WriteError ''Failure'')))))"

definition resp_get :: "'s kv_get \<Rightarrow> 's RespCommandHandler" where
  "resp_get get args =
     (if length args < 2 then returnS (RespErrorResult ''lack arguments'')
      else tryS (get (args ! 1))
        (\<lambda>val. case val of None \<Rightarrow> returnS RespNilResult | Some v \<Rightarrow> returnS (RespValueResult v))
        (\<lambda>err. returnS (RespErrorResult ''Get value failed.'')))"

definition resp_put :: "'s kv_put \<Rightarrow> 's RespCommandHandler" where
  "resp_put put args =
     (if length args < 3 then returnS (RespErrorResult ''lack arguments'')
      else tryS (put (args ! 1) (args ! 2))
        (\<lambda>_. returnS (RespStringResult ''OK''))
        (\<lambda>err. returnS (RespErrorResult ''Put value failed'')))"

definition resp_Register :: "'s kv_put \<Rightarrow> 's kv_get \<Rightarrow> 's Resp2Service \<Rightarrow> 's Resp2Service" where
  "resp_Register put get rs = AddCommandHandler ''put'' (resp_put put) (AddCommandHandler ''get'' (resp_get get) rs)"

section \<open>Keys that survive trimming\<close>

lemma spaces_no_key_char:
  "list_all (\<lambda>p. \<not> key_char (of_char (hd p)) \<and> \<not> key_char (of_char (last p))) spaces"
  by code_simp

lemma TrimSpace_key:
  assumes "validateKeyFormat (keyBytes s)"
  shows "TrimSpace s = s"
proof -
  have key: "key_char (of_char c)" if "c \<in> set s" for c
    using assms that by (auto simp: validateKeyFormat_iff keyBytes_def)
  have "\<not> HasPrefix s p \<and> \<not> HasSuffix s p" if p: "p \<in> set spaces" for p
  proof -
    have "hd p \<notin> set s" "last p \<notin> set s" "p \<noteq> []"
      using key spaces_no_key_char spaces_ne[OF p] p by (auto simp: list_all_iff)
    then show ?thesis by (auto simp: HasPrefix_iff HasSuffix_iff)
  qed
  then have "find (HasPrefix s) spaces = None" "find (HasSuffix s) spaces = None"
    by (auto simp: find_None_iff)
  then show ?thesis by (simp add: TrimSpace_def trimLeft.simps trimRight.simps)
qed

section \<open>The front ends agree\<close>

definition kvHandle :: "'s kv_put \<Rightarrow> 's kv_get \<Rightarrow> string \<Rightarrow> 's httpHandle option" where
  "kvHandle put get meth = mget (router (SetupKVStorage put get (NewHttpServer []))) (meth, KvPath)"

lemma kvHandle_get: "kvHandle put get ''GET'' = Some (newHandle (http_kvGet get) False)"
  and kvHandle_put: "kvHandle put get ''PUT'' = Some (newHandle (http_kvPut put) False)"
  by (simp_all add: kvHandle_def SetupKVStorage_def Add_def NewHttpServer_def)

definition kvResp :: "'s kv_put \<Rightarrow> 's kv_get \<Rightarrow> 's Resp2Service" where
  "kvResp put get = resp_Register put get (NewResp2Service ''127.0.0.1:6379'')"

lemma kvResp_commands:
  "mget (commandMapping (kvResp put get)) ''get'' = Some (resp_get get)"
  "mget (commandMapping (kvResp put get)) ''put'' = Some (resp_put put)"
  by (simp_all add: kvResp_def resp_Register_def NewResp2Service_def AddCommandHandler_def ToLower_def to_lower_char_def)

text \<open>What each protocol says about the outcome of a read.\<close>

definition resp_view :: "bytes option res \<Rightarrow> respReply" where
  "resp_view r = (case r of Ok None \<Rightarrow> WriteNull | Ok (Some v) \<Rightarrow> WriteBulk v | _ \<Rightarrow> WriteError ''Get value failed.'')"

definition http_view :: "bytes option res \<Rightarrow> nat \<times> bytes" where
  "http_view r = (case r of Ok None \<Rightarrow> (404, []) | Ok (Some v) \<Rightarrow> (200, v) | _ \<Rightarrow> (500, []))"

definition returns :: "'a res \<Rightarrow> bool" where
  "returns r \<longleftrightarrow> (case r of Ok _ \<Rightarrow> True | Err _ \<Rightarrow> True | _ \<Rightarrow> False)"

lemma resp_get_run:
  assumes "ToLower (bytesString cmd) = ''get''" "get k s = (r, s')" "returns r"
  shows "processCommand (kvResp put get) [cmd, k] (s, out) = (Ok (), (s', out @ [resp_view r]))"
  using assms kvResp_commands(1)[of put get]
  by (cases r) (auto simp: processCommand_def resp_get_def tryS_def onFst_run onSnd_run returnS_def conn_def modifyS_def
      RespErrorResult_def RespNilResult_def RespValueResult_def resp_view_def returns_def split: option.splits)

lemma resp_put_run:
  assumes "ToLower (bytesString cmd) = ''put''" "put k v s = (r, s')" "returns r"
  shows "processCommand (kvResp put get) [cmd, k, v] (s, out) =
    (Ok (), (s', out @ [if r = Ok () then WriteString ''OK'' else WriteError ''Put value failed'']))"
  using assms kvResp_commands(2)[of put get]
  by (cases r) (auto simp: processCommand_def resp_put_def tryS_def onFst_run onSnd_run returnS_def conn_def modifyS_def
      RespErrorResult_def RespStringResult_def returns_def)

lemma http_get_run:
  assumes "TrimSpace (params ''key'') = key" "key \<noteq> []" "get (keyBytes key) s = (r, s')" "returns r"
  shows "\<exists>hs. newHandle (http_kvGet get) False request params (s, newResp) =
    (Ok [], (s', \<lparr>Headers = hs, Status = Some (fst (http_view r)), Written = snd (http_view r), Broken = False\<rparr>))"
  using assms
  by (cases r) (auto simp: newHandle_def http_kvGet_def tryS_def bindS_def onFst_run onSnd_run returnS_def modifyS_def getS_def
      StatusOnlyResult_def RawResult_def setHeader_def writeHeader_def writeBody_def newResp_def http_view_def returns_def
      split: option.splits)

lemma http_put_run:
  assumes "TrimSpace (params ''key'') = key" "key \<noteq> []" "Body request = Ok v" "put (keyBytes key) v s = (r, s')" "returns r"
  shows "newHandle (http_kvPut put) False request params (s, newResp) = (Ok [], (s', newResp\<lparr>Status := Some 200\<rparr>))"
  using assms
  by (cases r) (auto simp: newHandle_def http_kvPut_def tryS_def bindS_def onFst_run onSnd_run returnS_def modifyS_def liftR_def
      StatusOnlyResult_def writeHeader_def newResp_def returns_def)

text \<open>
  C30: the two front ends are the same service. For a key without blanks at its ends, in any
  letter case of the command, a read or write over the Redis protocol and over HTTP leaves the
  same store; a read reports the same value, its absence or the failure; a write over HTTP reports
  success also when the store refused it, where the Redis protocol reports the error.
\<close>

theorem kv_frontends_agree:
  assumes "TrimSpace (params ''key'') = key" "key \<noteq> []" "Body request = Ok v"
    and "ToLower (bytesString cget) = ''get''" "ToLower (bytesString cput) = ''put''"
    and "get (keyBytes key) s = (rg, sg)" "returns rg" "put (keyBytes key) v s = (rp, sp)" "returns rp"
  shows "\<exists>hg hp hs.
      kvHandle put get ''GET'' = Some hg \<and> kvHandle put get ''PUT'' = Some hp
    \<and> processCommand (kvResp put get) [cget, keyBytes key] (s, out) = (Ok (), (sg, out @ [resp_view rg]))
    \<and> hg request params (s, newResp) =
        (Ok [], (sg, \<lparr>Headers = hs, Status = Some (fst (http_view rg)), Written = snd (http_view rg), Broken = False\<rparr>))
    \<and> processCommand (kvResp put get) [cput, keyBytes key, v] (s, out) =
        (Ok (), (sp, out @ [if rp = Ok () then WriteString ''OK'' else WriteError ''Put value failed'']))
    \<and> hp request params (s, newResp) = (Ok [], (sp, newResp\<lparr>Status := Some 200\<rparr>))"
  using http_get_run[where get = get and params = params, OF assms(1,2,6,7)] http_put_run[where put = put and params = params, OF assms(1-3,8,9)]
    resp_get_run[where get = get, OF assms(4,6,7), of put out] resp_put_run[where put = put, OF assms(5,8,9), of get out]
    kvHandle_get[of put get] kvHandle_put[of put get]
  by auto

definition sampleKvReq :: HttpReq where
  "sampleKvReq = \<lparr>Method = ''PUT'', HeaderGet = (\<lambda>_. []), FormValue = (\<lambda>_. []), Body = Ok [2]\<rparr>"

theorem kv_frontends_agree_witness:
  "\<exists>hp. kvHandle (diskv_Put map_diskv) (diskv_Get map_diskv) ''PUT'' = Some hp
    \<and> processCommand (kvResp (diskv_Put map_diskv) (diskv_Get map_diskv)) [keyBytes ''PUT'', keyBytes ''a b'', [2]] ([], [])
        = (Ok (), ([], [WriteError ''Put value failed'']))
    \<and> hp sampleKvReq (\<lambda>_. ''a b'') ([], newResp) = (Ok [], ([], newResp\<lparr>Status := Some 200\<rparr>))"
proof -
  let ?put = "diskv_Put map_diskv" and ?get = "diskv_Get map_diskv"
  have key: "TrimSpace ((\<lambda>_. ''a b'') ''key'') = ''a b''" "''a b'' \<noteq> []" by code_simp+
  have body: "Body sampleKvReq = Ok [2]" by (simp add: sampleKvReq_def)
  have cmd: "ToLower (bytesString (keyBytes ''GET'')) = ''get''" "ToLower (bytesString (keyBytes ''PUT'')) = ''put''" by code_simp+
  have g: "?get (keyBytes ''a b'') [] = (Err ErrKeyFormatInvalid, [])" by code_simp
  have p: "?put (keyBytes ''a b'') [2] [] = (Err ErrKeyFormatInvalid, [])" by code_simp
  have r: "returns (Err ErrKeyFormatInvalid)" by (simp add: returns_def)
  show ?thesis
    using kv_frontends_agree[where get = ?get and put = ?put and params = "\<lambda>_. ''a b''" and out = "[]",
        OF key body cmd g r p r] by auto
qed

section \<open>The client over the server\<close>

text \<open>
  What the client relies on: a request for a key of letters, digits and underscores reaches the
  handle that the router has for the key path, with that key and the body, and the response comes
  back.
\<close>

definition exchanged :: "'s httpHandle \<Rightarrow> string \<Rightarrow> string \<Rightarrow> bytes \<Rightarrow> ('s, nat \<times> bytes res) prog" where
  "exchanged handle meth key body s =
     (case handle \<lparr>Method = meth, HeaderGet = (\<lambda>_. []), FormValue = (\<lambda>_. []), Body = Ok body\<rparr> (\<lambda>_. key) (s, newResp) of
        (Ok _, (s', w)) \<Rightarrow> (Ok (case Status w of None \<Rightarrow> 200 | Some code \<Rightarrow> code, Ok (Written w)), s')
      | (_, (s', w)) \<Rightarrow> (Err (LibError ''EOF''), s'))"

locale kv_transport =
  fixes Do :: "'s transport" and server :: "'s HttpServer" and addr :: string
  assumes delivers: "validateKeyFormat (keyBytes key) \<Longrightarrow> key \<noteq> [] \<Longrightarrow> mget (router server) (meth, KvPath) = Some handle \<Longrightarrow>
    Do meth (addr @ ''/services/kvstore/'' @ key) body s = exchanged handle meth key body s"
begin

lemma KvPut_run:
  assumes "server = SetupKVStorage put get (NewHttpServer [])" "validateKeyFormat (keyBytes key)" "key \<noteq> []"
    and "put (keyBytes key) v s = (r, s')" "returns r"
  shows "KvPut Do (NewHttpServiceClient addr) key v s = (Ok (), s')"
proof -
  have handle: "mget (router server) (''PUT'', KvPath) = Some (newHandle (http_kvPut put) False)"
    using kvHandle_put[of put get] assms(1) by (simp add: kvHandle_def)
  have "exchanged (newHandle (http_kvPut put) False) ''PUT'' key v s = (Ok (200, Ok []), s')"
    using http_put_run[where put = put and params = "\<lambda>_. key", OF TrimSpace_key[OF assms(2)] assms(3) _ assms(4,5),
        where request = "\<lparr>Method = ''PUT'', HeaderGet = (\<lambda>_. []), FormValue = (\<lambda>_. []), Body = Ok v\<rparr>"]
    by (simp add: exchanged_def newResp_def)
  then show ?thesis
    using delivers[OF assms(2,3) handle, of v s] assms(3)
    by (simp add: KvPut_def NewHttpServiceClient_def pickEndpoint_def TrimSpace_key[OF assms(2)] go_simps returnS_def)
qed

lemma KvGet_run:
  assumes "server = SetupKVStorage put get (NewHttpServer [])" "validateKeyFormat (keyBytes key)" "key \<noteq> []"
    and "get (keyBytes key) s = (Ok val, s')"
  shows "KvGet Do (NewHttpServiceClient addr) key s = (Ok val, s')"
proof -
  have handle: "mget (router server) (''GET'', KvPath) = Some (newHandle (http_kvGet get) False)"
    using kvHandle_get[of put get] assms(1) by (simp add: kvHandle_def)
  have r: "returns (Ok val)" by (simp add: returns_def)
  have "exchanged (newHandle (http_kvGet get) False) ''GET'' key [] s =
      (Ok (fst (http_view (Ok val)), Ok (snd (http_view (Ok val)))), s')"
    using http_get_run[where get = get and params = "\<lambda>_. key", OF TrimSpace_key[OF assms(2)] assms(3,4) r,
        where request = "\<lparr>Method = ''GET'', HeaderGet = (\<lambda>_. []), FormValue = (\<lambda>_. []), Body = Ok []\<rparr>"]
    by (auto simp: exchanged_def)
  then show ?thesis
    using delivers[OF assms(2,3) handle, of "[]" s] assms(3)
    by (simp add: KvGet_def NewHttpServiceClient_def pickEndpoint_def TrimSpace_key[OF assms(2)] go_simps returnS_def http_view_def
        split: option.splits)
qed

end

text \<open>A transport that hands the request to the server, as the network and the router do.\<close>

definition direct :: "'s HttpServer \<Rightarrow> string \<Rightarrow> 's transport" where
  "direct server addr meth url body =
     (let base = addr @ ''/services/kvstore/'' in
      if HasPrefix url base then
        (case mget (router server) (meth, KvPath) of
           None \<Rightarrow> returnS (405, Ok [])
         | Some handle \<Rightarrow> exchanged handle meth (drop (length base) url) body)
      else returnS (404, Ok []))"

interpretation direct: kv_transport "direct server addr" server addr for server addr
  by unfold_locales (auto simp: direct_def HasPrefix_iff Let_def)

end
