(* ===== verification/Replication.thy ===== *)
theory Replication
  imports Kv_Frontend
begin

text \<open>
  Primary-standby replication: the replicator (\<open>internal/replication/simpleps.go\<close>), its commands
  and its client over the Redis protocol (\<open>communication.go\<close>), and the replicated key-value store
  (\<open>internal/service/spskv.go\<close>). The Redis client library is a parameter: a call gives a value of
  one of the dynamic types the code asks for. A Go map that was never made is \<open>None\<close>: reading it
  finds nothing and assigning to it panics.
\<close>

section \<open>The client of a peer\<close>

datatype ReplicatorRole = RolePrimary | RoleStandby

datatype redisVal = VInt int | VInt64 int | VString string | VBytes bytes | VNil

record 'w redislib =
  RDo :: "string \<Rightarrow> string \<Rightarrow> bytes list \<Rightarrow> ('w, redisVal) prog"

definition CommandRole :: string where "CommandRole = ''REPLICATOR.ROLE''"
definition CommandSyncAndReg :: string where "CommandSyncAndReg = ''REPLICATOR.SYNC_REG''"
definition CommandWalShip :: string where "CommandWalShip = ''REPLICATOR.SHIP''"
definition CommandPromote :: string where "CommandPromote = ''REPLICATOR.PROMOTE''"

record Resp2Client =
  clientAddr :: string
  clientOpen :: bool

definition NewResp2Client :: "string \<Rightarrow> Resp2Client" where
  "NewResp2Client addr = \<lparr>clientAddr = addr, clientOpen = False\<rparr>"

definition client_role :: "'w redislib \<Rightarrow> Resp2Client \<Rightarrow> ('w, ReplicatorRole) prog" where
  "client_role R c =
     bindS (RDo R (clientAddr c) CommandRole []) (\<lambda>v.
       case v of
         VInt r \<Rightarrow> if r = 1 then returnS RolePrimary else if r = 2 then returnS RoleStandby else failS (ErrorMsg ''unknown role'')
       | _ \<Rightarrow> panicS ''interface conversion'')"

text \<open>The client is replaced by a new one when its connection is broken; the state is the client with the network.\<close>

definition doConnect :: "'w redislib \<Rightarrow> (Resp2Client \<times> 'w, ReplicatorRole) prog" where
  "doConnect R =
     bindS getS (\<lambda>(c, w).
       let fresh = bindS (onFst (modifyS (\<lambda>c. c\<lparr>clientOpen := True\<rparr>))) (\<lambda>_. onSnd (client_role R c)) in
       if clientOpen c
       then tryS (onSnd (client_role R c)) returnS (\<lambda>err. bindS (onFst (modifyS (\<lambda>c. c\<lparr>clientOpen := False\<rparr>))) (\<lambda>_. fresh))
       else fresh)"

definition syncAndRegister :: "'w redislib \<Rightarrow> cbor \<Rightarrow> Resp2Client \<Rightarrow> SequenceId \<Rightarrow> string \<Rightarrow> ('w, bytes) prog" where
  "syncAndRegister R C c seq node =
     bindS (liftR (marshalSeq C seq)) (\<lambda>dat.
     bindS (RDo R (clientAddr c) CommandSyncAndReg [keyBytes node, dat]) (\<lambda>v.
       case v of VBytes b \<Rightarrow> returnS b | _ \<Rightarrow> panicS ''interface conversion''))"

fun shipTries :: "'w redislib \<Rightarrow> Resp2Client \<Rightarrow> bytes \<Rightarrow> nat \<Rightarrow> error option \<Rightarrow> ('w, unit) prog" where
  "shipTries R c dat 0 rerr = (case rerr of None \<Rightarrow> returnS () | Some e \<Rightarrow> failS e)"
| "shipTries R c dat (Suc n) rerr =
     tryS (RDo R (clientAddr c) CommandWalShip [dat])
       (\<lambda>v. case v of
          VString s \<Rightarrow> if s \<noteq> ''OK'' then failS (ErrorMsg ''wal ship got not OK:'') else returnS ()
        | _ \<Rightarrow> panicS ''interface conversion'')
       (\<lambda>err. shipTries R c dat n (Some err))"

definition walShip :: "'w redislib \<Rightarrow> Resp2Client \<Rightarrow> bytes \<Rightarrow> ('w, unit) prog" where
  "walShip R c dat =
     (if clientOpen c then shipTries R c dat 3 None else panicS ''nil pointer dereference'')"

section \<open>The replicator\<close>

record SimplePrimaryStandby =
  psRole :: ReplicatorRole
  clusterPeers :: "(string, Resp2Client) gomap option"
  clusterSize :: int
  readyNodeCount :: int
  standbyPeers :: "(string, Resp2Client) gomap option"
  NodeName :: string
  ClusterNodeMap :: "(string, string) gomap"
  workers :: "string list"

definition NewSimplePrimaryStandby :: "string \<Rightarrow> (string, string) gomap \<Rightarrow> SimplePrimaryStandby" where
  "NewSimplePrimaryStandby nodeName clusterNodeMap =
     \<lparr>psRole = RoleStandby, clusterPeers = None, clusterSize = 0, readyNodeCount = 0, standbyPeers = None,
      NodeName = nodeName, ClusterNodeMap = clusterNodeMap, workers = []\<rparr>"

definition Writable :: "SimplePrimaryStandby \<Rightarrow> bool" where
  "Writable s \<longleftrightarrow> psRole s = RolePrimary \<and> readyNodeCount s = clusterSize s"

text \<open>Assignment to a map that may be nil.\<close>

definition assign :: "'k \<Rightarrow> 'v \<Rightarrow> ('k, 'v) gomap option \<Rightarrow> ('k, 'v) gomap option res" where
  "assign k v m = (case m of None \<Rightarrow> Panic ''assignment to entry in nil map'' | Some m \<Rightarrow> Ok (Some (mput k v m)))"

definition addPeer :: "string \<times> string \<Rightarrow> (SimplePrimaryStandby, unit) prog" where
  "addPeer kv =
     bindS getS (\<lambda>s.
       if fst kv = NodeName s then returnS ()
       else
         bindS (modifyS (\<lambda>s. s\<lparr>clusterSize := clusterSize s + 1\<rparr>)) (\<lambda>_.
         bindS (liftR (assign (fst kv) (NewResp2Client (snd kv)) (clusterPeers s))) (\<lambda>m.
           modifyS (\<lambda>s. s\<lparr>clusterPeers := m, workers := workers s @ [fst kv]\<rparr>))))"

definition ps_Initialize :: "(SimplePrimaryStandby, unit) prog" where
  "ps_Initialize = bindS getS (\<lambda>s. forEach addPeer (ClusterNodeMap s))"

definition Promote :: "(SimplePrimaryStandby, unit) prog" where
  "Promote = modifyS (\<lambda>s. s\<lparr>psRole := RolePrimary\<rparr>)"

definition readyNode :: "string \<Rightarrow> (SimplePrimaryStandby, unit) prog" where
  "readyNode node =
     bindS getS (\<lambda>s.
       case Option.bind (standbyPeers s) (\<lambda>m. mget m node) of
         Some _ \<Rightarrow> returnS ()
       | None \<Rightarrow>
           (case mget (ClusterNodeMap s) node of
              None \<Rightarrow> failS (ErrorMsg ''no node found:'')
            | Some n \<Rightarrow>
                bindS (liftR (assign node (NewResp2Client n) (standbyPeers s))) (\<lambda>m.
                  modifyS (\<lambda>s. s\<lparr>standbyPeers := m, readyNodeCount := readyNodeCount s + 1\<rparr>))))"

text \<open>The loop of \<open>Ship\<close>: the first node that fails is dropped and ends it.\<close>

fun shipTo :: "'w redislib \<Rightarrow> bytes \<Rightarrow> (string \<times> Resp2Client) list \<Rightarrow> (SimplePrimaryStandby \<times> 'w, unit) prog" where
  "shipTo R dat [] = returnS ()"
| "shipTo R dat ((node, v) # peers) =
     tryS (onSnd (walShip R v dat))
       (\<lambda>_. shipTo R dat peers)
       (\<lambda>err. bindS (onFst (modifyS (\<lambda>s. s\<lparr>readyNodeCount := readyNodeCount s - 1,
                              standbyPeers := map_option (mdel node) (standbyPeers s)\<rparr>))) (\<lambda>_. failS err))"

definition Ship :: "'w redislib \<Rightarrow> bytes \<Rightarrow> (SimplePrimaryStandby \<times> 'w, unit) prog" where
  "Ship R dat =
     bindS getS (\<lambda>(s, w). shipTo R dat (case standbyPeers s of None \<Rightarrow> [] | Some m \<Rightarrow> m))"

definition peerAlive :: "'w redislib \<Rightarrow> string \<Rightarrow> (SimplePrimaryStandby \<times> 'w, bool \<times> bool) prog" where
  "peerAlive R node =
     bindS getS (\<lambda>(s, w).
       case Option.bind (clusterPeers s) (\<lambda>m. mget m node) of
         None \<Rightarrow> panicS ''nil pointer dereference''
       | Some c \<Rightarrow>
           (\<lambda>_. case doConnect R (c, w) of (out, (c', w')) \<Rightarrow>
              (case out of Ok r \<Rightarrow> Ok (True, r = RolePrimary) | Err e \<Rightarrow> Ok (False, False) | Panic p \<Rightarrow> Panic p | Diverge \<Rightarrow> Diverge,
               (s\<lparr>clusterPeers := map_option (mput node c') (clusterPeers s)\<rparr>, w'))))"

section \<open>The replicated store\<close>

text \<open>The state: the log with the storage, and the replicator with the network.\<close>

type_synonym ('k, 'w) sps = "(DiskWal \<times> 'k) \<times> (SimplePrimaryStandby \<times> 'w)"

record SpskvSnapshotEntry =
  snapS :: Snapshot
  snapL :: "WalLog list"

record spscbor =
  marshalSnapshot :: "SpskvSnapshotEntry \<Rightarrow> bytes res"
  unmarshalSnapshot :: "bytes \<Rightarrow> SpskvSnapshotEntry res"
  marshalLog :: "WalLog \<Rightarrow> bytes res"
  unmarshalLog :: "bytes \<Rightarrow> WalLog res"

definition sequenceIdSupplier :: "cbor \<Rightarrow> 'k kv_get \<Rightarrow> (DiskWal \<times> 'k, SequenceId) prog" where
  "sequenceIdSupplier C get = CurrentPosition C get"

definition snapshotSupplier ::
  "cbor \<Rightarrow> spscbor \<Rightarrow> 'k kv_get \<Rightarrow> (int \<Rightarrow> ('k, (bytes \<times> bytes) list) prog) \<Rightarrow> SequenceId \<Rightarrow> (DiskWal \<times> 'k, bytes) prog" where
  "snapshotSupplier C P get latest seq =
     bindS (kv_LatestSnapshotData C get latest (Term seq)) (\<lambda>snapshot.
     bindS (WalLogs (SnapshotSequenceId snapshot)) (\<lambda>logs.
       liftR (marshalSnapshot P \<lparr>snapS = snapshot, snapL = logs\<rparr>)))"

definition applySnapshotAndIncrementalFn :: "spscbor \<Rightarrow> 'k kv_put \<Rightarrow> bytes \<Rightarrow> (DiskWal \<times> 'k, unit) prog" where
  "applySnapshotAndIncrementalFn P put dat =
     bindS (liftR (unmarshalSnapshot P dat)) (\<lambda>v.
     bindS (forEach (\<lambda>e. onSnd (put (fst e) (snd e))) (Entries (snapS v))) (\<lambda>_.
       kv_Replay (snapL v)))"

definition applyWalLog :: "spscbor \<Rightarrow> bytes \<Rightarrow> (DiskWal \<times> 'k, unit) prog" where
  "applyWalLog P dat = bindS (liftR (unmarshalLog P dat)) (\<lambda>walLog. kv_Replay [walLog])"

definition sps_Put :: "'w redislib \<Rightarrow> cbor \<Rightarrow> spscbor \<Rightarrow> 'k kv_put \<Rightarrow> bytes \<Rightarrow> bytes \<Rightarrow> (('k, 'w) sps, unit) prog" where
  "sps_Put R C P put k v =
     bindS (onFst (kv_Put C put k v)) (\<lambda>_.
     bindS getS (\<lambda>s.
     bindS (liftR (marshalLog P \<lparr>logK = k, logV = v, logD = False, logSeq = CurrentSequence (fst (fst s))\<rparr>)) (\<lambda>dat.
       onSnd (Ship R dat))))"

definition sps_Get :: "'k kv_get \<Rightarrow> bytes \<Rightarrow> (('k, 'w) sps, bytes option) prog" where
  "sps_Get get k = onFst (kv_Get get k)"

definition sps_Initialize :: "cbor \<Rightarrow> 'k kv_put \<Rightarrow> 'k kv_get \<Rightarrow> (('k, 'w) sps, unit) prog" where
  "sps_Initialize C put get =
     bindS (onFst (kv_Initialize C put get)) (\<lambda>_. onSnd (onFst ps_Initialize))"

text \<open>The standby side: one tick of the worker that follows a peer, with its flag \<open>ready\<close>.\<close>

definition doSyncAndRegister ::
  "'w redislib \<Rightarrow> cbor \<Rightarrow> spscbor \<Rightarrow> 'k kv_put \<Rightarrow> 'k kv_get \<Rightarrow> string \<Rightarrow> (('k, 'w) sps, unit) prog" where
  "doSyncAndRegister R C P put get node =
     bindS getS (\<lambda>s.
     bindS (onFst (sequenceIdSupplier C get)) (\<lambda>curId.
       case Option.bind (clusterPeers (fst (snd s))) (\<lambda>m. mget m node) of
         None \<Rightarrow> panicS ''nil pointer dereference''
       | Some c \<Rightarrow>
           bindS (onSnd (onSnd (syncAndRegister R C c curId (NodeName (fst (snd s)))))) (\<lambda>dat.
             onFst (applySnapshotAndIncrementalFn P put dat))))"

definition workerTick ::
  "'w redislib \<Rightarrow> cbor \<Rightarrow> spscbor \<Rightarrow> 'k kv_put \<Rightarrow> 'k kv_get \<Rightarrow> string \<Rightarrow> bool \<Rightarrow> (('k, 'w) sps, bool) prog" where
  "workerTick R C P put get node ready =
     bindS (onSnd (peerAlive R node)) (\<lambda>(connected, connPrimary).
       if connected then
         (if \<not> connPrimary then returnS ready
          else if \<not> ready then
            tryS (doSyncAndRegister R C P put get node) (\<lambda>_. returnS True) (\<lambda>err. returnS ready)
          else returnS ready)
       else returnS False)"

section \<open>The commands of the replicator\<close>

definition cmd_walship :: "spscbor \<Rightarrow> ('k, 'w) sps RespCommandHandler" where
  "cmd_walship P args =
     (if length args < 2 then panicS ''index out of range''
      else tryS (onFst (applyWalLog P (args ! 1)))
        (\<lambda>_. returnS (RespStringResult ''OK''))
        (\<lambda>err. returnS (RespErrorResult ''wal ship failed'')))"

definition cmd_role :: "('k, 'w) sps RespCommandHandler" where
  "cmd_role args =
     bindS getS (\<lambda>s.
       case psRole (fst (snd s)) of
         RolePrimary \<Rightarrow> returnS (RespIntResult 1)
       | RoleStandby \<Rightarrow> returnS (RespIntResult 2))"

definition cmd_syncAndReg ::
  "cbor \<Rightarrow> spscbor \<Rightarrow> 'k kv_get \<Rightarrow> (int \<Rightarrow> ('k, (bytes \<times> bytes) list) prog) \<Rightarrow> ('k, 'w) sps RespCommandHandler" where
  "cmd_syncAndReg C P get latest args =
     (if length args < 3 then panicS ''index out of range''
      else tryS (liftR (unmarshalSeq C (args ! 2)))
        (\<lambda>seq. tryS (onFst (snapshotSupplier C P get latest seq))
          (\<lambda>dat. tryS (onSnd (onFst (readyNode (bytesString (args ! 1)))))
            (\<lambda>_. returnS (RespValueResult dat))
            (\<lambda>err. returnS (RespErrorResult ''node could not be ready'')))
          (\<lambda>err. returnS (RespErrorResult ''snapshot failed'')))
        (\<lambda>err. returnS (RespErrorResult ''sequence id invalid'')))"

definition cmd_promote :: "('k, 'w) sps RespCommandHandler" where
  "cmd_promote args =
     tryS (onSnd (onFst Promote)) (\<lambda>_. returnS (RespStringResult ''OK'')) (\<lambda>err. returnS (RespErrorResult ''promote failed''))"

definition rep_Register ::
  "cbor \<Rightarrow> spscbor \<Rightarrow> 'k kv_get \<Rightarrow> (int \<Rightarrow> ('k, (bytes \<times> bytes) list) prog) \<Rightarrow> ('k, 'w) sps Resp2Service \<Rightarrow> ('k, 'w) sps Resp2Service" where
  "rep_Register C P get latest reg =
     AddCommandHandler CommandPromote cmd_promote
    (AddCommandHandler CommandWalShip (cmd_walship P)
    (AddCommandHandler CommandSyncAndReg (cmd_syncAndReg C P get latest)
    (AddCommandHandler CommandRole cmd_role reg)))"

text \<open>
  The service of a node: the key-value commands work on its own store; \<open>Initialize\<close> of the
  replicator adds its commands to them.
\<close>

definition NewSimplePrimaryStandbyKVStore :: "cbor \<Rightarrow> 'k kv_put \<Rightarrow> 'k kv_get \<Rightarrow> ('k, 'w) sps Resp2Service" where
  "NewSimplePrimaryStandbyKVStore C put get =
     resp_Register (\<lambda>k v. onFst (kv_Put C put k v)) (\<lambda>k. onFst (kv_Get get k)) (NewResp2Service ''127.0.0.1:6379'')"

definition servedCommands ::
  "cbor \<Rightarrow> spscbor \<Rightarrow> 'k kv_put \<Rightarrow> 'k kv_get \<Rightarrow> (int \<Rightarrow> ('k, (bytes \<times> bytes) list) prog) \<Rightarrow> ('k, 'w) sps Resp2Service" where
  "servedCommands C P put get latest = rep_Register C P get latest (NewSimplePrimaryStandbyKVStore C put get)"

section \<open>What is never replicated\<close>

text \<open>The steps of a node, whatever the network and the other nodes do.\<close>

inductive sps_step ::
  "'w redislib \<Rightarrow> cbor \<Rightarrow> spscbor \<Rightarrow> 'k kv_put \<Rightarrow> 'k kv_get \<Rightarrow> (int \<Rightarrow> ('k, (bytes \<times> bytes) list) prog)
     \<Rightarrow> ('k, 'w) sps \<Rightarrow> ('k, 'w) sps \<Rightarrow> bool"
  for R C P put get latest where
  initialize: "s' = snd (sps_Initialize C put get s) \<Longrightarrow> sps_step R C P put get latest s s'"
| command: "s' = fst (snd (processCommand (servedCommands C P put get latest) args (s, out)))
    \<Longrightarrow> sps_step R C P put get latest s s'"
| api_put: "s' = snd (sps_Put R C P put k v s) \<Longrightarrow> sps_step R C P put get latest s s'"
| worker: "s' = snd (workerTick R C P put get node ready s) \<Longrightarrow> sps_step R C P put get latest s s'"
| network: "s' = (fst s, (fst (snd s), w)) \<Longrightarrow> sps_step R C P put get latest s s'"

definition no_peers :: "SimplePrimaryStandby \<Rightarrow> bool" where
  "no_peers s \<longleftrightarrow> clusterPeers s = None \<and> standbyPeers s = None"

lemma keeps_no_peers_addPeer: "keepsS no_peers (addPeer kv)"
  unfolding keepsS_def
  by (auto simp: addPeer_def bindS_def getS_def modifyS_def liftR_def assign_def returnS_def no_peers_def)

lemma keeps_no_peers_readyNode: "keepsS no_peers (readyNode node)"
  unfolding keepsS_def
  by (auto simp: readyNode_def bindS_def getS_def modifyS_def liftR_def assign_def returnS_def failS_def no_peers_def
      split: option.splits)

lemma keeps_no_peers_Promote: "keepsS no_peers Promote"
  unfolding Promote_def by (rule keepsS_modify) (simp add: no_peers_def)

lemma keeps_no_peers_ps_Initialize: "keepsS no_peers ps_Initialize"
  unfolding ps_Initialize_def by (intro keeps keeps_no_peers_addPeer)

lemma keeps_no_peers_Ship: "keepsS (\<lambda>p. no_peers (fst p)) (Ship R dat)"
  unfolding keepsS_def by (auto simp: Ship_def bindS_def getS_def returnS_def no_peers_def)

lemma keeps_no_peers_peerAlive: "keepsS (\<lambda>p. no_peers (fst p)) (peerAlive R node)"
  unfolding keepsS_def by (auto simp: peerAlive_def bindS_def getS_def panicS_def no_peers_def)

lemmas keeps_no_peers = keeps_no_peers_readyNode keeps_no_peers_Promote keeps_no_peers_ps_Initialize
  keeps_no_peers_Ship keeps_no_peers_peerAlive

text \<open>The commands of a node.\<close>

lemma node_commands:
  assumes "mget (commandMapping (servedCommands C P put get latest)) c = Some h"
  shows "h = cmd_promote \<or> h = cmd_walship P \<or> h = cmd_syncAndReg C P get latest \<or> h = cmd_role
    \<or> h = resp_put (\<lambda>k v. onFst (kv_Put C put k v)) \<or> h = resp_get (\<lambda>k. onFst (kv_Get get k))
    \<or> h = (\<lambda>args. returnS (RespStringResult ''PONG''))"
  using assms
  by (auto simp: servedCommands_def NewSimplePrimaryStandbyKVStore_def rep_Register_def resp_Register_def NewResp2Service_def AddCommandHandler_def
      split: if_splits)

lemma keeps_commands:
  assumes "mget (commandMapping (servedCommands C P put get latest)) c = Some h"
    and promote: "keepsS K (onFst Promote)" and ready: "\<And>node. keepsS K (onFst (readyNode node))"
  shows "keepsS (\<lambda>s. K (snd s)) (h args)"
proof -
  have "keepsS (\<lambda>s. K (snd s)) (cmd_promote args)"
    unfolding cmd_promote_def by (intro keeps promote)
  moreover have "keepsS (\<lambda>s. K (snd s)) (cmd_walship P args)"
    unfolding cmd_walship_def by (intro keeps)
  moreover have "keepsS (\<lambda>s. K (snd s)) (cmd_syncAndReg C P get latest args)"
    unfolding cmd_syncAndReg_def by (intro keeps ready)
  moreover have "keepsS (\<lambda>s. K (snd s)) (cmd_role args)"
    unfolding cmd_role_def by (auto intro!: keeps split: ReplicatorRole.split)
  moreover have "keepsS (\<lambda>s. K (snd s)) (resp_put (\<lambda>k v. onFst (kv_Put C put k v)) args)"
    unfolding resp_put_def by (intro keeps)
  moreover have "keepsS (\<lambda>s. K (snd s)) (resp_get (\<lambda>k. onFst (kv_Get get k)) args)"
    unfolding resp_get_def by (intro keeps)
  moreover have "keepsS (\<lambda>s. K (snd s)) (returnS (RespStringResult ''PONG''))"
    by (intro keeps)
  ultimately show ?thesis using node_commands[OF assms(1)] by auto
qed

lemma keeps_processCommand:
  assumes "keepsS K (onFst Promote)" "\<And>node. keepsS K (onFst (readyNode node))" "K (snd s)"
  shows "K (snd (fst (snd (processCommand (servedCommands C P put get latest) args (s, out)))))"
proof -
  have "keepsS (\<lambda>x. K (snd (fst x))) (processCommand (servedCommands C P put get latest) args)"
  proof (cases args)
    case (Cons name rest)
    have "keepsS (\<lambda>x. K (snd (fst x))) (onFst (h args) :: (_ \<times> respReply list, RespResult) prog)"
      if "mget (commandMapping (servedCommands C P put get latest)) c = Some h" for c h
      by (rule keepsS_onFst(1)[where I = "\<lambda>s. K (snd s)", OF keeps_commands[OF that assms(1,2)]])
    moreover have "keepsS (\<lambda>x. K (snd (fst x))) (onSnd r)" for r :: "(respReply list, unit) prog"
      by (rule keepsS_onSnd(2)[where I = "\<lambda>s. K (snd s)"])
    ultimately show ?thesis
      using Cons by (auto simp: processCommand_def Let_def intro!: keepsS_try keepsS_pure split: option.splits)
  qed (simp add: processCommand_def keepsS_pure)
  from keepsSD[OF this, of "(s, out)"] assms(3) show ?thesis by simp
qed

text \<open>Both maps of peers stay nil in every reachable state.\<close>

lemma sps_step_no_peers:
  assumes "sps_step R C P put get latest s s'" "no_peers (fst (snd s))"
  shows "no_peers (fst (snd s'))"
proof -
  have K: "keepsS (\<lambda>p. no_peers (fst p)) (onFst Promote)" "keepsS (\<lambda>p. no_peers (fst p)) (onFst (readyNode node))" for node
    by (intro keepsS_onFst(1) keeps_no_peers)+
  have sync: "keepsS (\<lambda>s. no_peers (fst (snd s))) (doSyncAndRegister R C P put get node)" for node
    unfolding keepsS_def
    by (auto simp: doSyncAndRegister_def bindS_def getS_def onFst_run no_peers_def panicS_def split: res.splits prod.splits)
  have tick: "keepsS (\<lambda>s. no_peers (fst (snd s))) (workerTick R C P put get node ready)" for node ready
    unfolding workerTick_def
    by (auto intro!: keepsS_bind keepsS_try keepsS_pure sync keepsS_onSnd(1)[where J = "\<lambda>p. no_peers (fst p)"] keeps_no_peers
        split: prod.splits)
  from assms(1) show ?thesis
  proof cases
    case initialize
    have "keepsS (\<lambda>s. no_peers (fst (snd s))) (sps_Initialize C put get)"
      unfolding sps_Initialize_def
      by (intro keepsS_bind keepsS_onFst(2)[where J = "\<lambda>p. no_peers (fst p)"] keepsS_onSnd(1)[where J = "\<lambda>p. no_peers (fst p)"]
          keepsS_onFst(1) keeps_no_peers)
    from keepsSD[OF this, of s] show ?thesis using assms(2) initialize by simp
  next
    case (command args out)
    then show ?thesis using keeps_processCommand[OF K, of s] assms(2) by simp
  next
    case (api_put k v)
    have "keepsS (\<lambda>s. no_peers (fst (snd s))) (sps_Put R C P put k v)"
      unfolding sps_Put_def
      by (intro keepsS_bind keepsS_pure keepsS_onFst(2)[where J = "\<lambda>p. no_peers (fst p)"]
          keepsS_onSnd(1)[where J = "\<lambda>p. no_peers (fst p)"] keeps_no_peers)
    from keepsSD[OF this, of s] show ?thesis using assms(2) api_put by simp
  next
    case (worker node ready)
    from keepsSD[OF tick, of s] show ?thesis using assms(2) worker by simp
  next
    case (network w)
    then show ?thesis using assms(2) by simp
  qed
qed

lemma sps_reachable_no_peers:
  assumes "(sps_step R C P put get latest)\<^sup>*\<^sup>* (store, (NewSimplePrimaryStandby node cluster, world)) s"
  shows "no_peers (fst (snd s))"
  using assms by (induction rule: rtranclp_induct)
    (simp add: no_peers_def NewSimplePrimaryStandby_def, rule sps_step_no_peers)

lemma ps_Initialize_panics:
  assumes "no_peers s" "list_ex (\<lambda>kv. fst kv \<noteq> NodeName s) (ClusterNodeMap s)"
  shows "fst (ps_Initialize s) = Panic ''assignment to entry in nil map''"
proof -
  have "fst (forEach addPeer kvs s) = Panic ''assignment to entry in nil map''"
    if "list_ex (\<lambda>kv. fst kv \<noteq> NodeName s) kvs" for kvs
    using that assms(1)
    by (induction kvs) (auto simp: addPeer_def bindS_def getS_def returnS_def liftR_def modifyS_def assign_def no_peers_def)
  then show ?thesis using assms(2) by (simp add: ps_Initialize_def bindS_def getS_def)
qed

lemma command_leaves_network:
  "snd (snd (fst (snd (processCommand (servedCommands C P put get latest) args (s, out))))) = snd (snd s)"
  by (rule keeps_processCommand[where K = "\<lambda>p. snd p = snd (snd s)"])
    (auto intro: keepsS_onFst(2)[where J = "\<lambda>w. w = snd (snd s)"])

section \<open>Properties\<close>

text \<open>
  C32: no write ever reaches a standby. Whatever a node goes through, a write through the
  replicated store is acknowledged as soon as the local store has it, in any role and without a
  message to another node; no command of a client makes the node send one; a standby of the
  cluster cannot be registered; and start-up of a node with a peer panics. Both maps of peers are
  never made.
\<close>

theorem writes_never_replicated:
  assumes "(sps_step R C P put get latest)\<^sup>*\<^sup>* (store, (NewSimplePrimaryStandby node cluster, world)) s"
  shows "(\<forall>k v kv' dat. kv_Put C put k v (fst s) = (Ok (), kv')
        \<and> marshalLog P \<lparr>logK = k, logV = v, logD = False, logSeq = CurrentSequence (fst kv')\<rparr> = Ok dat
       \<longrightarrow> sps_Put R C P put k v s = (Ok (), (kv', snd s)))
    \<and> (\<forall>args out. snd (snd (fst (snd (processCommand (servedCommands C P put get latest) args (s, out))))) = snd (snd s))
    \<and> (\<forall>peer a. mget (ClusterNodeMap (fst (snd s))) peer = Some a \<longrightarrow>
         fst (readyNode peer (fst (snd s))) = Panic ''assignment to entry in nil map'')
    \<and> (list_ex (\<lambda>kv. fst kv \<noteq> NodeName (fst (snd s))) (ClusterNodeMap (fst (snd s))) \<longrightarrow>
         fst (ps_Initialize (fst (snd s))) = Panic ''assignment to entry in nil map'')"
proof -
  have n: "no_peers (fst (snd s))" by (rule sps_reachable_no_peers[OF assms])
  have "sps_Put R C P put k v s = (Ok (), (kv', snd s))"
    if "kv_Put C put k v (fst s) = (Ok (), kv')"
      "marshalLog P \<lparr>logK = k, logV = v, logD = False, logSeq = CurrentSequence (fst kv')\<rparr> = Ok dat" for k v kv' dat
    using that n by (cases s) (auto simp: sps_Put_def bindS_def onFst_run onSnd_run getS_def liftR_def Ship_def returnS_def no_peers_def)
  moreover have "fst (readyNode peer (fst (snd s))) = Panic ''assignment to entry in nil map''"
    if "mget (ClusterNodeMap (fst (snd s))) peer = Some a" for peer a
    using that n by (simp add: readyNode_def bindS_def getS_def liftR_def assign_def no_peers_def)
  ultimately show ?thesis using command_leaves_network ps_Initialize_panics[OF n] by blast
qed

definition sampleCluster :: "(string, string) gomap" where
  "sampleCluster = [(''node1'', ''10.0.0.1:6379''), (''node2'', ''10.0.0.2:6379'')]"

definition plain_spscbor :: spscbor where
  "plain_spscbor = \<lparr>marshalSnapshot = (\<lambda>_. Ok []), unmarshalSnapshot = (\<lambda>_. Err (LibError ''EOF'')),
     marshalLog = (\<lambda>l. Ok (logK l @ logV l)), unmarshalLog = (\<lambda>_. Err (LibError ''EOF''))\<rparr>"

theorem writes_never_replicated_witness:
  "\<exists>d k s'. kv_rep unary_cbor (\<lambda>s. mget s) (d, k) [([0x61], [1])]
    \<and> sps_Put \<lparr>RDo = (\<lambda>addr c args w. (Ok (VString ''OK''), Suc w))\<rparr> unary_cbor plain_spscbor (diskv_Put map_diskv) [0x62] [2]
        ((d, k), (NewSimplePrimaryStandby ''node1'' sampleCluster, 0))
      = (Ok (), (s', (NewSimplePrimaryStandby ''node1'' sampleCluster, 0)))"
proof -
  let ?R = "\<lparr>RDo = (\<lambda>addr c args w. (Ok (VString ''OK''), Suc w))\<rparr>"
  let ?ps = "NewSimplePrimaryStandby ''node1'' sampleCluster"
  obtain d k where dk: "kv_rep unary_cbor (\<lambda>s. mget s) (d, k) [([0x61], [1])]" "maxPageSize d = 4096" "curCollection d + 1 < 2 ^ 63"
    using sample_store by blast
  have "fits unary_cbor d ([0x62], [2])" using witness_fits[of "[0x62]" "[2]"] dk(2) by (simp add: fits_def NewDiskWal_def)
  then obtain s' where s': "kv_Put unary_cbor (diskv_Put map_diskv) [0x62] [2] (d, k) = (Ok (), s')"
    using kvs.kv_Put_rep[OF dk(1) user_key_letter(2) _ dk(3)] by blast
  have "sps_Put ?R unary_cbor plain_spscbor (diskv_Put map_diskv) [0x62] [2] ((d, k), (?ps, 0)) = (Ok (), (s', (?ps, 0)))"
    using writes_never_replicated[where P = plain_spscbor and put = "diskv_Put map_diskv" and C = unary_cbor and R = ?R
        and s = "((d, k), (?ps, 0))" and world = 0 and node = "''node1''" and cluster = sampleCluster and get = "diskv_Get map_diskv"
        and latest = "\<lambda>_. returnS []", OF rtranclp.rtrancl_refl, THEN conjunct1] s'
    by (cases s') (simp add: plain_spscbor_def)
  then show ?thesis using dk(1) by blast
qed

end
