(* ===== verification/Wal_Properties.thy ===== *)
theory Wal_Properties
  imports Disk_Wal_Read
begin

text \<open>The properties of the write-ahead log, from the byte layout of a page to restart and replay.\<close>

section \<open>Pages and names\<close>

text \<open>
  A page is read back as the one record that was written to it, data and type, for every
  page size up to 65535 and any data that fits.
\<close>

lemma page_roundtrip:
  assumes "8 \<le> ps" "ps < 65536" "length dat \<le> ps - 8" "t AND 15 = t"
  shows "\<exists>page. prepareDataBufByPage ps dat t = Ok page \<and> length page = ps \<and> pageRecordsInfo page = Ok [(dat, t)]"
proof -
  obtain page where page: "prepareDataBufByPage ps dat t = Ok page" using prepare_Ok[OF assms(1)] by blast
  then show ?thesis using page_read_back[OF assms page] length_prepare[of ps dat t page] assms by auto
qed

text \<open>
  C21: damage to any single byte of a readable page, its checksum included, is detected.
\<close>

theorem damaged_byte_detected:
  assumes "pageRecordsInfo page = Ok r" "i < length page" "page ! i \<noteq> b"
  shows "pageRecordsInfo (page[i := b]) = Err PageCrcMismatch"
  by (rule one_byte_damage[OF assms])

theorem damaged_byte_detected_witness:
  "\<exists>page b. pageRecordsInfo page = Ok [([1, 2, 3], EntryTypeWhole)]
    \<and> pageRecordsInfo (page[9 := b]) = Err PageCrcMismatch"
proof -
  obtain page where page: "prepareDataBufByPage 16 [1, 2, 3] EntryTypeWhole = Ok page"
    using prepare_Ok[of 16 "[1, 2, 3]" EntryTypeWhole] by auto
  have ok: "pageRecordsInfo page = Ok [([1, 2, 3], EntryTypeWhole)]"
    by (rule page_read_back[OF _ _ _ _ page]) (simp_all add: EntryTypeWhole_def)
  have "length page = 16" using length_prepare[of 16 "[1, 2, 3]" EntryTypeWhole page] page by simp
  then have "pageRecordsInfo (page[9 := page ! 9 + 1]) = Err PageCrcMismatch"
    by (intro damaged_byte_detected[OF ok]) simp_all
  then show ?thesis using ok by blast
qed

text \<open>
  A page with a correct checksum and a length field of at least 65528 passes the length
  check, whose sum wraps around in 16 bits, and makes the reader panic instead of returning the
  error meant for it.
\<close>

lemma huge_length_panics:
  assumes "7 \<le> length page"
    and "crc32_Checksum (copy_at 3 [0, 0, 0, 0] page) = Uint32 (take 4 (drop 3 page))"
    and "65528 \<le> unat (Uint16 (drop 1 (copy_at 3 [0, 0, 0, 0] page)))"
  shows "pageRecordsInfo page = Panic ''slice bounds out of range''"
  by (rule page_length_wraps[OF assms])

lemma huge_length_panics_witness:
  "\<exists>page. length page = 8 \<and> pageRecordsInfo page = Panic ''slice bounds out of range''"
proof -
  define p0 :: bytes where "p0 = [0, 0xFF, 0xFF, 0, 0, 0, 0, 0]"
  define page where "page = [0, 0xFF, 0xFF] @ PutUint32 (crc32_Checksum p0) @ [0]"
  have len: "length page = 8" by (simp add: page_def)
  have clear: "copy_at 3 [0, 0, 0, 0] page = p0" by (simp add: copy_at_def page_def p0_def)
  have "Uint32 (take 4 (drop 3 page)) = crc32_Checksum p0"
    using Uint32_Put[of "crc32_Checksum p0" "[]"] by (simp add: page_def)
  moreover have "Uint16 (drop 1 p0) = 65535" using Uint16_Put[of 65535 "[0, 0, 0, 0, 0]"] by (simp add: p0_def PutUint16_def)
  then have "65528 \<le> unat (Uint16 (drop 1 p0))" by simp
  ultimately have "pageRecordsInfo page = Panic ''slice bounds out of range''"
    using huge_length_panics[of page] unfolding clear len by simp
  then show ?thesis using len by blast
qed

text \<open>
  C26: the name of a log file determines its term and collection, and the order of the names as
  strings, by which the log is replayed, is the order of the positions.
\<close>

theorem names_order_positions:
  assumes "0 < t" "in_i64 t" "0 < c" "in_i64 c" "0 < t'" "in_i64 t'" "0 < c'" "in_i64 c'"
  shows "walfilename (filename t c) = Ok (filename t c, SequenceId t c 0)
    \<and> (filename t c < filename t' c' \<longleftrightarrow> Compare (SequenceId t c 0) (SequenceId t' c' 0) < 0)"
  using assms walfilename_filename[of t c] filename_less[of t c t' c'] by (auto simp: Compare_lex)

theorem names_order_positions_witness:
  "walfilename (filename 1 15) = Ok (filename 1 15, SequenceId 1 15 0)
    \<and> (filename 1 15 < filename 1 16 \<longleftrightarrow> Compare (SequenceId 1 15 0) (SequenceId 1 16 0) < 0)"
  by (rule names_order_positions) (simp_all add: in_i64_def)

section \<open>Writing, restart and replay\<close>

text \<open>
  C20: a write to a working log returns, whatever the length of the entry: the loop over its
  pages ends without an error or a panic, and the log goes on working.
\<close>

theorem write_returns:
  "healthy d \<Longrightarrow> \<exists>seq d'. WriteEntry bs d = (Ok seq, d') \<and> healthy d'"
  unfolding WriteEntry_def by (rule WriteEntry_returns)

lemma healthy_new: "healthy (NewDiskWal [] [])"
  by (simp add: healthy_def NewDiskWal_def)

lemma rep_new: "wal_rep (NewDiskWal [] []) []"
  by (simp add: wal_rep_def wal_files_def wal_params_def NewDiskWal_def in_i64_def)

theorem write_returns_witness:
  "\<exists>seq d'. WriteEntry (replicate 100000 7) (NewDiskWal [] []) = (Ok seq, d') \<and> healthy d'"
  by (rule write_returns[OF healthy_new])

text \<open>
  C11: an entry that was written survives a restart. When a write succeeds, under any schedule of
  faults before it, start-up on the folder comes back to the position the write returned, which
  is past the old one, and the log then holds the older records followed by those of the entry,
  whose data put together is the entry.
\<close>

theorem entry_survives_restart:
  assumes "wal_rep d L" "WriteEntry bs d = (Ok seq, d')"
    and "curCollection d + int (length (entry_records (maxPageSize d) bs)) < 2 ^ 63"
  shows "\<exists>d'' L'. Initialize (restart d') = (Ok seq, d'') \<and> wal_rep d'' L' \<and> curPosition d < seq
    \<and> log_records L' = log_records L @ entry_records (maxPageSize d) bs
    \<and> concat (map fst (entry_records (maxPageSize d) bs)) = bs"
proof -
  let ?rs = "entry_records (maxPageSize d) bs"
  obtain L' where s: "page_step d L ?rs d' L'" "seq = curPosition d'"
    using WriteEntry_step[OF assms(2)[unfolded WriteEntry_def] assms(1,3)] by blast
  note ps = s(1)[unfolded page_step_def]
  have "8 < maxPageSize d" using wal_repD(1)[OF assms(1)] by (simp add: wal_params_def)
  note ty = entry_records_types[OF this, of bs]
  have ne: "?rs \<noteq> []" using ty by auto
  have "snd (last ?rs) = last (map snd ?rs)" using ne by (simp add: last_map)
  moreover have "last (map snd ?rs) \<in> {EntryTypeWhole, EntryTypeEnd}" using ty by auto
  ultimately have "snd (last (log_records L')) \<noteq> EntryTypeMiddle"
    using ps ne by (auto simp: entry_type_defs)
  then show ?thesis
    using restart_position[of d' L'] ps s(2) entry_records_concat by auto
qed

lemma sample_write:
  "\<exists>seq d. WriteEntry [1, 2, 3] (NewDiskWal [] []) = (Ok seq, d)"
  using WriteEntry_returns[OF healthy_new, of "[1, 2, 3]"] by (auto simp: WriteEntry_def)

lemma sample_records: "entry_records (maxPageSize (NewDiskWal [] [])) [1, 2, 3] = [([1, 2, 3], EntryTypeWhole)]"
  by (simp add: entry_records_def RecordHeaderSize_def NewDiskWal_def)

theorem entry_survives_restart_witness:
  "\<exists>seq d d'' L'. WriteEntry [1, 2, 3] (NewDiskWal [] []) = (Ok seq, d) \<and> Initialize (restart d) = (Ok seq, d'')
    \<and> wal_rep d'' L' \<and> log_records L' = [([1, 2, 3], EntryTypeWhole)]"
proof -
  obtain seq d where w: "WriteEntry [1, 2, 3] (NewDiskWal [] []) = (Ok seq, d)" using sample_write by blast
  have "curCollection (NewDiskWal [] []) + int (length (entry_records (maxPageSize (NewDiskWal [] [])) [1, 2, 3])) < 2 ^ 63"
    unfolding sample_records by (simp add: NewDiskWal_def)
  from entry_survives_restart[OF rep_new w this] show ?thesis
    using w unfolding sample_records by (auto simp: log_records_def)
qed

text \<open>
  C18: replay from a position gives the callback the data of every record of that position's file
  and of all later files, in order, each once, stops at its first error, and otherwise ends at the
  current position. (A record is a page: an entry of several pages is given in pieces.)
\<close>

theorem replay_delivers_records:
  assumes "wal_rep d (M @ (key, rs) # N)" "faults d = []"
    and "Term from = fst key" "Collection from = snd key" "from < curPosition d"
  shows "ReplayIncomplete from f (d, k) =
    bindS (onSnd (forEach (\<lambda>r. f (fst r)) (log_records ((key, rs) # N)))) (\<lambda>_. returnS (curPosition d)) (d, k)"
  by (rule ReplayIncomplete_records[OF assms])

theorem replay_delivers_records_witness:
  "\<exists>seq d. WriteEntry [1, 2, 3] (NewDiskWal [] []) = (Ok seq, d)
    \<and> ReplayIncomplete (SequenceId 1 1 0) (\<lambda>b s. (Ok (), s @ [b])) (d, []) = (Ok (curPosition d), (d, [[1, 2, 3]]))"
proof -
  obtain seq d where w: "WriteEntry [1, 2, 3] (NewDiskWal [] []) = (Ok seq, d)" "faults d = []"
    using WriteEntry_returns[OF healthy_new, of "[1, 2, 3]"] by (auto simp: WriteEntry_def healthy_def)
  obtain L where s: "page_step (NewDiskWal [] []) [] [([1, 2, 3], EntryTypeWhole)] d L"
    using WriteEntry_step[OF w(1)[unfolded WriteEntry_def] rep_new] unfolding sample_records
    by (auto simp: NewDiskWal_def)
  note ps = s[unfolded page_step_def]
  obtain M key rs where L: "L = M @ [(key, rs)]" using ps by (metis rev_exhaust surj_pair)
  obtain n b where cf: "curFile d = Some (n, b)" using wal_repD(6)[of d L] ps by (cases "curFile d") auto
  note c = wal_repD(7)[of d L, OF _ cf]
  have rs: "rs = [([1, 2, 3], EntryTypeWhole)]" "log_records M = []"
    using ps c L by (auto simp: log_records_def append_eq_Cons_conv)
  have key: "key = (1, 1)"
  proof -
    have "0 < snd key" using wal_filesD(3)[of _ _ L key rs] wal_repD(2)[of d L] ps L by (auto simp: key_ok_def)
    then show ?thesis using ps c L by (auto simp: NewDiskWal_def)
  qed
  have "ReplayIncomplete (SequenceId 1 1 0) (\<lambda>b s. (Ok (), s @ [b])) (d, [])
      = bindS (onSnd (forEach (\<lambda>r s. (Ok (), s @ [fst r])) (log_records ((key, rs) # []))))
          (\<lambda>_. returnS (curPosition d)) (d, [])"
    by (rule replay_delivers_records[of d M key rs "[]"])
      (use ps L w(2) key c rs in \<open>auto simp: curPosition_def less_SequenceId_def NewDiskWal_def\<close>)
  then show ?thesis
    using w(1) rs by (auto simp: log_records_def bindS_def onSnd_def returnS_def)
qed

text \<open>
  C39: start-up panics on a folder whose last file is empty, which is what a crash between the
  creation of a file and the first write to it leaves.
\<close>

theorem empty_last_file_panics:
  assumes "wal_files (maxPageSize d) (files d) (M @ [(k, [])])" "faults d = []" "wal_params d" "pageOccupied d = 0"
  shows "Initialize d = (Panic ''index out of range'', d)"
  by (rule Initialize_nonempty(1)[OF assms refl]) (use assms(3) in \<open>auto simp: wal_params_def\<close>)

theorem empty_last_file_panics_witness:
  "fst (Initialize (NewDiskWal [(log_name (1, 1), [])] [])) = Panic ''index out of range''"
proof -
  let ?d = "NewDiskWal [(log_name (1, 1), [])] []"
  have k: "key_ok (1, 1)" by (simp add: key_ok_def in_i64_def)
  have "wal_files (maxPageSize ?d) (files ?d) ([] @ [((1, 1), [])])"
    using k by (auto simp: wal_files_def NewDiskWal_def file_of_def split: if_splits)
  moreover have "faults ?d = []" "wal_params ?d" "pageOccupied ?d = 0" by (simp_all add: NewDiskWal_def wal_params_def)
  ultimately have "Initialize ?d = (Panic ''index out of range'', ?d)" by (rule empty_last_file_panics)
  then show ?thesis by simp
qed

end
