(* ===== verification/Wal_Sync.thy ===== *)
theory Wal_Sync
  imports Wal_Properties
begin

text \<open>
  The background synchronisation of the log (\<open>Initialize\<close> of \<open>internal/wal/wal.go\<close>): a goroutine
  that every 200 ms looks at the dirty flag, resets it and syncs the current file. It takes no
  lock, so its two parts fall anywhere between the pages of an entry. The second part of the
  state is what the disk holds for certain, file by file; a loss of power may leave no more.
\<close>

section \<open>The worker\<close>

type_synonym disk = "(string, bytes) gomap"

definition os_Sync :: "(DiskWal \<times> disk, unit) prog" where
  "os_Sync =
     bindS getS (\<lambda>(d, _).
       case curFile d of
         None \<Rightarrow> failS (OsError ''invalid argument'')
       | Some (name, is_open) \<Rightarrow>
           if is_open then
             bindS (onFst (os_check ''sync'')) (\<lambda>_.
               modifyS (\<lambda>(d, disk). (d, case mget (files d) name of None \<Rightarrow> disk | Some c \<Rightarrow> mput name c disk)))
           else failS (OsError ''file already closed''))"

definition syncClaim :: "(DiskWal, bool) prog" where
  "syncClaim =
     bindS getS (\<lambda>d.
       if dirty d then bindS (modifyS (\<lambda>d. d\<lparr>dirty := False\<rparr>)) (\<lambda>_. returnS True) else returnS False)"

text \<open>One round of the goroutine. A closed channel only makes the round do nothing.\<close>

definition backgroundSync :: "bool \<Rightarrow> (DiskWal \<times> disk, unit) prog" where
  "backgroundSync closed =
     (if closed then returnS ()
      else bindS (onFst syncClaim) (\<lambda>claimed.
        if claimed then tryS os_Sync returnS (\<lambda>err. returnS ()) else returnS ()))"

text \<open>
  The steps of a writer and the worker: the pages of an entry, each of which may open a file, and
  the flag at its end; the reset of the flag and the sync. Between the steps, the writer is
  idle or has written a page of some type, and the worker is idle or has reset the flag.
\<close>

type_synonym sync_state = "(DiskWal \<times> disk) \<times> EntryType option \<times> bool"

inductive sync_step :: "sync_state \<Rightarrow> sync_state \<Rightarrow> bool" where
  page: "bindS (guaranteePage 1) (\<lambda>_. writeDataPage dat t) d = (Ok (), d') \<Longrightarrow>
    rec_ok (maxPageSize d) (dat, t) \<Longrightarrow> curCollection d + 1 < 2 ^ 63 \<Longrightarrow>
    sync_step ((d, disk), w, c) ((d', disk), Some t, c)"
| finish: "t \<noteq> EntryTypeMiddle \<Longrightarrow> sync_step ((d, disk), Some t, c) ((d\<lparr>dirty := True\<rparr>, disk), None, c)"
| claim: "syncClaim d = (Ok True, d') \<Longrightarrow> sync_step ((d, disk), w, False) ((d', disk), w, True)"
| sync: "os_Sync (d, disk) = (Ok (), (d', disk')) \<Longrightarrow> sync_step ((d, disk), w, True) ((d', disk'), w, False)"

lemma syncClaim_run: "syncClaim d = (Ok (dirty d), d\<lparr>dirty := False\<rparr>)"
  by (cases d) (auto simp: syncClaim_def run_simps)

lemma os_Sync_run:
  assumes "wal_rep d L" "L \<noteq> []" "faults d = []"
  shows "os_Sync (d, disk) = (Ok (), (d, case mget (files d) (log_name (curTerm d, curCollection d)) of
    None \<Rightarrow> disk | Some c \<Rightarrow> mput (log_name (curTerm d, curCollection d)) c disk))"
proof -
  obtain n b where "curFile d = Some (n, b)" using wal_repD(6)[OF assms(1)] assms(2) by (cases "curFile d") auto
  moreover from wal_repD(7)[OF assms(1) this] have "b" "n = log_name (curTerm d, curCollection d)" by auto
  ultimately show ?thesis
    using assms(3) by (simp add: os_Sync_def run_simps onFst_def os_check_def os_call_def)
qed

text \<open>A round of the worker that finds the flag is the two steps.\<close>

lemma backgroundSync_steps:
  assumes "backgroundSync False (d, disk) = (Ok (), s')" "dirty d" "wal_rep d L" "L \<noteq> []" "faults d = []"
  shows "sync_step\<^sup>*\<^sup>* ((d, disk), w, False) (s', w, False)"
proof -
  let ?d = "d\<lparr>dirty := False\<rparr>"
  obtain disk' where s: "os_Sync (?d, disk) = (Ok (), (?d, disk'))"
    using os_Sync_run[of ?d L disk] assms(3-5) by (simp add: wal_rep_dirty)
  have "s' = (?d, disk')"
    using assms(1,2) s by (simp add: backgroundSync_def bindS_def onFst_def syncClaim_run tryS_def returnS_def)
  moreover have "sync_step ((d, disk), w, False) ((?d, disk), w, True)"
    by (rule sync_step.claim) (simp add: syncClaim_run assms(2))
  ultimately show ?thesis
    using sync_step.sync[OF s, of w] by (meson r_into_rtranclp rtranclp.rtrancl_into_rtrancl)
qed

text \<open>An entry is written in such steps.\<close>

definition writePage :: "wal_record \<Rightarrow> (DiskWal, unit) prog" where
  "writePage r = bindS (guaranteePage 1) (\<lambda>_. writeDataPage (fst r) (snd r))"

lemma writeLoop_pages:
  "0 < m \<Longrightarrow> offset < length bs \<Longrightarrow> writeLoop m bs offset d = (Ok u, d') \<Longrightarrow>
    forEach writePage (chunks m (offset = 0) (drop offset bs)) d = (Ok (), d')"
proof (induction m bs offset d rule: writeLoop.induct)
  case (1 m bs offset d)
  let ?final = "length bs \<le> offset + m"
  define t where "t = (if ?final then EntryTypeEnd else if offset = 0 then EntryTypeStart else EntryTypeMiddle)"
  define n where "n = (if ?final then length bs - offset else m)"
  let ?dat = "take n (drop offset bs)"
  have cs: "chunks m (offset = 0) (drop offset bs) = (?dat, t) # (if ?final then [] else chunks m False (drop (offset + n) bs))"
    using "1.prems"(1) by (simp add: chunks.simps[of m "offset = 0"] n_def t_def le_diff_conv add.commute)
  have run: "(case bindS (guaranteePage 1) (\<lambda>_. writeDataPage ?dat t) d of
           (Ok _, s') \<Rightarrow> if offset + n \<ge> length bs then (Ok (), s') else if n = 0 then (Diverge, s')
             else writeLoop m bs (offset + n) s'
         | (r, s') \<Rightarrow> (r, s')) = (Ok u, d')"
    using "1.prems"(3) unfolding writeLoop.simps[of m bs offset d] n_def t_def
    by (cases ?final; cases "offset = 0") (simp_all add: Let_def cong: res.case_cong prod.case_cong)
  then obtain d1 where step: "bindS (guaranteePage 1) (\<lambda>_. writeDataPage ?dat t) d = (Ok (), d1)"
    and rest: "(if length bs \<le> offset + n then (Ok (), d1) else if n = 0 then (Diverge, d1)
       else writeLoop m bs (offset + n) d1) = (Ok u, d')"
    by (auto split: prod.splits res.splits)
  have first: "bindS (writePage (?dat, t)) f d = f () d1" for f :: "unit \<Rightarrow> (DiskWal, unit) prog"
    using step by (simp add: writePage_def bindS_Ok)
  show ?case
  proof (cases ?final)
    case True
    then show ?thesis using rest "1.prems"(2) cs first[of returnS] by (simp add: n_def returnS_def)
  next
    case False
    then have n: "n = m" "\<not> length bs \<le> offset + n" by (simp_all add: n_def)
    have rest': "writeLoop m bs (offset + n) d1 = (Ok u, d')" using rest n "1.prems"(1) by simp
    have "forEach writePage (chunks m (offset + n = 0) (drop (offset + n) bs)) d1 = (Ok (), d')"
      by (rule "1.IH"[OF refl _ refl _ refl]) (use False n step rest' "1.prems"(1) t_def in auto)
    then show ?thesis using cs False n "1.prems"(1) first[of "\<lambda>_. forEach writePage (chunks m False (drop (offset + n) bs))"] by simp
  qed
qed

lemma pages_steps:
  assumes "forEach writePage rs d = (Ok (), d')" "wal_rep d L" "\<forall>r \<in> set rs. rec_ok (maxPageSize d) r" "rs \<noteq> []"
    and "curCollection d + int (length rs) < 2 ^ 63"
  shows "sync_step\<^sup>*\<^sup>* ((d, disk), w, c) ((d', disk), Some (snd (last rs)), c)"
  using assms
proof (induction rs arbitrary: d L w)
  case (Cons r rs)
  obtain d1 where d1: "writePage r d = (Ok (), d1)" "forEach writePage rs d1 = (Ok (), d')"
    using Cons.prems(1) by (auto simp: bindS_eq_Ok)
  obtain dat t where r: "r = (dat, t)" by fastforce
  have "sync_step ((d, disk), w, c) ((d1, disk), Some t, c)"
    using d1(1) Cons.prems(3,5) r by (intro sync_step.page) (auto simp: writePage_def)
  moreover obtain L1 where "page_step d L [r] d1 L1"
    using guaranteed_page_step[OF Cons.prems(2), of dat t "()" d1] d1(1) Cons.prems(3,5) r by (auto simp: writePage_def)
  then have L1: "wal_rep d1 L1" "maxPageSize d1 = maxPageSize d" "curCollection d1 \<le> curCollection d + 1"
    by (auto simp: page_step_def)
  moreover have "sync_step\<^sup>*\<^sup>* ((d1, disk), Some t, c) ((d', disk), Some (snd (last rs)), c)" if "rs \<noteq> []"
    using Cons.IH[OF d1(2) L1(1)] L1(2,3) Cons.prems(3,5) that by auto
  ultimately show ?case
    using d1(2) r by (cases "rs = []") (auto simp: returnS_def intro: converse_rtranclp_into_rtranclp)
qed simp

lemma WriteEntry_steps:
  assumes run: "WriteEntry bs d = (Ok seq, d')" and rep: "wal_rep d L"
    and c: "curCollection d + int (length (entry_records (maxPageSize d) bs)) < 2 ^ 63"
  shows "sync_step\<^sup>*\<^sup>* ((d, disk), None, b) ((d', disk), None, b)"
proof -
  let ?ps = "maxPageSize d"
  let ?m = "?ps - RecordHeaderSize" and ?rs = "entry_records ?ps bs"
  have ps: "8 < ?ps" using wal_repD(1)[OF rep] by (simp add: wal_params_def)
  obtain d1 where w: "(if ?m \<ge> length bs
              then bindS (guaranteePage 1) (\<lambda>_. writeDataPage bs EntryTypeWhole)
              else writeLoop ?m bs 0) d = (Ok (), d1)"
    and d': "d' = d1\<lparr>dirty := True\<rparr>"
    using run by (auto simp: WriteEntry_def WriteEntryWithFullPage_def Let_def go_simps bindS_eq_Ok getS_def
        modifyS_def returnS_def)
  have t: "?rs \<noteq> [] \<and> snd (last ?rs) \<noteq> EntryTypeMiddle"
  proof -
    have "?rs \<noteq> []" using entry_records_types[OF ps, of bs] by auto
    moreover from this have "snd (last ?rs) = last (map snd ?rs)" by (simp add: last_map)
    moreover have "last (map snd ?rs) \<noteq> EntryTypeMiddle"
      using entry_records_types[OF ps, of bs]
      by (elim disjE exE) (simp_all only: last.simps last_append list.simps append_is_Nil_conv if_True if_False,
        simp_all add: entry_type_defs)
    ultimately show ?thesis by simp
  qed
  have pages: "forEach writePage ?rs d = (Ok (), d1)"
  proof (cases "length bs \<le> ?m")
    case True
    then show ?thesis using w by (simp add: entry_records_def writePage_def bindS_def returnS_def)
  next
    case False
    then have "bs \<noteq> []" by auto
    then show ?thesis
      using writeLoop_pages[of ?m 0 bs d "()" d1] w False ps by (simp add: entry_records_def RecordHeaderSize_def)
  qed
  have "sync_step\<^sup>*\<^sup>* ((d, disk), None, b) ((d1, disk), Some (snd (last ?rs)), b)"
    by (rule pages_steps[OF pages rep _ conjunct1[OF t] c]) (use entry_records_ok[OF _ ps] in blast)
  then show ?thesis
    unfolding d' by (rule rtranclp.rtrancl_into_rtrancl) (rule sync_step.finish[OF conjunct2[OF t]])
qed

section \<open>What the disk holds\<close>

definition curName :: "DiskWal \<Rightarrow> string" where
  "curName d = log_name (curTerm d, curCollection d)"

lemma current_in_log:
  assumes "wal_rep d L" "L \<noteq> []"
  shows "((curTerm d, curCollection d), snd (last L)) \<in> set L"
proof -
  obtain n b where "curFile d = Some (n, b)" using wal_repD(6)[OF assms(1)] assms(2) by (cases "curFile d") auto
  then have "fst (last L) = (curTerm d, curCollection d)" using wal_repD(7)[OF assms(1)] by blast
  then show ?thesis using last_in_set[OF assms(2)] by (metis prod.collapse)
qed

lemma current_key: "wal_rep d L \<Longrightarrow> L \<noteq> [] \<Longrightarrow> key_ok (curTerm d, curCollection d)"
  using current_in_log wal_filesD(3)[OF wal_repD(2)] by blast

lemma current_file: "wal_rep d L \<Longrightarrow> L \<noteq> [] \<Longrightarrow> mget (files d) (curName d) \<noteq> None"
  using wal_filesD(4)[OF wal_repD(2) current_in_log] by (simp add: curName_def)

lemma openCurrent_files:
  assumes "openCurrent d = (Ok u, d')" "x \<noteq> curName d"
  shows "mget (files d') x = mget (files d) x \<and> curTerm d' = curTerm d \<and> curCollection d' = curCollection d"
  using assms unfolding openCurrent_def curName_def log_name_def
  by (auto simp: go_simps modifyS_def bindS_eq_Ok elim!: os_OpenFile_Ok)

lemma guaranteePage_files:
  assumes "guaranteePage 1 d = (Ok u, d')" "x \<noteq> curName d'"
  shows "mget (files d') x = mget (files d) x"
proof -
  have cur: "openCurrent d1 = (Ok u, d') \<Longrightarrow> curName d' = curName d1" for d1
    unfolding openCurrent_def curName_def by (auto simp: go_simps modifyS_def bindS_eq_Ok elim!: os_OpenFile_Ok)
  show ?thesis
    using assms cur openCurrent_files[of _ u d' x]
    by (fastforce simp: guaranteePage_def go_simps getS_def modifyS_def bindS_eq_Ok returnS_def split: if_splits dest: os_Close_Ok)
qed

lemma page_keeps:
  assumes run: "bindS (guaranteePage 1) (\<lambda>_. writeDataPage dat t) d = (Ok (), d')"
    and L: "wal_rep d L" "faults d = []" and r: "rec_ok (maxPageSize d) (dat, t)" and c: "curCollection d + 1 < 2 ^ 63"
  obtains L' where "page_step d L [(dat, t)] d' L'" "faults d' = []" "\<forall>x. x \<noteq> curName d' \<longrightarrow> mget (files d') x = mget (files d) x"
proof -
  obtain L' where L': "page_step d L [(dat, t)] d' L'" using guaranteed_page_step[OF L(1) r c run] by blast
  have h: "healthy d" using L wal_repD(1)[OF L(1)] wal_repD(7)[OF L(1)] by (auto simp: healthy_def wal_params_def)
  then have q: "faults d' = []" using page_healthy[OF h, of dat t] run by (auto simp: healthy_def)
  obtain d1 where d1: "guaranteePage 1 d = (Ok (), d1)" "writeDataPage dat t d1 = (Ok (), d')" using run by (auto simp: bindS_eq_Ok)
  have "8 \<le> maxPageSize d1" using guaranteePage_healthy[OF h] d1(1) h by (auto simp: healthy_def)
  then obtain n fs where w: "curFile d1 = Some (n, True)"
    "d' = (append_file n (page_of (maxPageSize d1) (dat, t)) (d1\<lparr>faults := fs\<rparr>))
      \<lparr>curSeq := i64 (curSeq d1 + 1), pageOccupied := i32 (pageOccupied d1 + 1)\<rparr>"
    using writeDataPage_Ok[OF d1(2)] by blast
  have cur: "curName d' = curName d1" "curFile d' = Some (n, True)" by (simp_all add: w append_file_def curName_def)
  then have "n = curName d'" using wal_repD(7)[of d' L' n True] L' by (auto simp: page_step_def curName_def)
  moreover have "mget (files d') x = mget (files d1) x" if "x \<noteq> n" for x using that by (simp add: w(2) append_file_def)
  ultimately have "x \<noteq> curName d' \<Longrightarrow> mget (files d') x = mget (files d) x" for x
    using guaranteePage_files[OF d1(1), of x] cur(1) by simp
  then show ?thesis using that[OF L' q] by blast
qed

text \<open>
  Kept from a start-up on, whose last file is the one with number \<open>c0\<close>: while that is the current
  file the disk holds all others, and with nothing under way it holds the current one.
\<close>

definition sync_inv :: "int \<Rightarrow> sync_state \<Rightarrow> bool" where
  "sync_inv c0 st \<longleftrightarrow> (case st of ((d, disk), w, c) \<Rightarrow>
     \<exists>L. wal_rep d L \<and> L \<noteq> [] \<and> faults d = [] \<and> mwf disk \<and> c0 \<le> curCollection d
       \<and> (case w of None \<Rightarrow> snd (last (log_records L)) \<noteq> EntryTypeMiddle | Some t \<Rightarrow> snd (last (log_records L)) = t)
       \<and> (curCollection d = c0 \<longrightarrow> (\<forall>x. x \<noteq> curName d \<longrightarrow> mget disk x = mget (files d) x))
       \<and> (\<not> c \<and> \<not> dirty d \<and> w = None \<longrightarrow> mget disk (curName d) = mget (files d) (curName d)))"

lemma sync_step_inv:
  assumes "sync_step st st'" "sync_inv c0 st"
  shows "sync_inv c0 st'"
  using assms(1)
proof cases
  case (page dat t d d' disk w c)
  then obtain L where L: "wal_rep d L" "faults d = []" "mwf disk" "c0 \<le> curCollection d"
      "curCollection d = c0 \<longrightarrow> (\<forall>x. x \<noteq> curName d \<longrightarrow> mget disk x = mget (files d) x)"
    using assms(2) by (auto simp: sync_inv_def)
  obtain L' where L': "page_step d L [(dat, t)] d' L'" "faults d' = []"
      "\<forall>x. x \<noteq> curName d' \<longrightarrow> mget (files d') x = mget (files d) x"
    by (rule page_keeps[OF page(3) L(1,2) page(4,5)])
  note ps = L'(1)[unfolded page_step_def]
  have "curCollection d' = c0 \<longrightarrow> (\<forall>x. x \<noteq> curName d' \<longrightarrow> mget disk x = mget (files d') x)"
    using L(4,5) L'(3) ps by (auto simp: curName_def)
  then show ?thesis using L(3,4) L'(2) ps page(2) unfolding sync_inv_def by (auto intro!: exI[of _ L'])
next
  case (finish t d disk c)
  then show ?thesis using assms(2) by (auto simp: sync_inv_def wal_rep_dirty curName_def)
next
  case (claim d d' disk w)
  then show ?thesis using assms(2) by (auto simp: sync_inv_def wal_rep_dirty curName_def syncClaim_run)
next
  case (sync d disk d' disk' w)
  then obtain L where L: "wal_rep d L" "L \<noteq> []" "faults d = []" using assms(2) by (auto simp: sync_inv_def)
  have "(d', disk') = (d, case mget (files d) (curName d) of None \<Rightarrow> disk | Some c \<Rightarrow> mput (curName d) c disk)"
    using os_Sync_run[OF L, of disk] sync(3) by (simp add: curName_def cong: option.case_cong)
  moreover have "mget (files d) (curName d) \<noteq> None" by (rule current_file[OF L(1,2)])
  ultimately show ?thesis using assms(2) sync(1,2) by (auto simp: sync_inv_def)
qed

lemma sync_steps_inv: "sync_step\<^sup>*\<^sup>* st st' \<Longrightarrow> sync_inv c0 st \<Longrightarrow> sync_inv c0 st'"
  by (induction rule: rtranclp_induct) (auto intro: sync_step_inv)

text \<open>A file that has been left behind is never synced again.\<close>

definition left_behind :: "int \<times> int \<Rightarrow> DiskWal \<Rightarrow> bool" where
  "left_behind k d \<longleftrightarrow> (\<exists>L. wal_rep d L \<and> L \<noteq> []) \<and> faults d = [] \<and> key_ok k \<and> curTerm d = fst k \<and> snd k < curCollection d"

lemma left_behind_name: "left_behind k d \<Longrightarrow> curName d \<noteq> log_name k"
  using log_name_inj[of "(curTerm d, curCollection d)" k] current_key
  by (cases k) (auto simp: left_behind_def curName_def)

lemma left_behind_step:
  assumes "sync_step ((d, disk), w, c) ((d', disk'), w', c')" "left_behind k d"
  shows "left_behind k d' \<and> mget disk' (log_name k) = mget disk (log_name k) \<and> mget (files d') (log_name k) = mget (files d) (log_name k)"
  using assms(1)
proof cases
  case (page dat t)
  obtain L where L: "wal_rep d L" "L \<noteq> []" "faults d = []" using assms(2) by (auto simp: left_behind_def)
  obtain L' where L': "page_step d L [(dat, t)] d' L'" "faults d' = []"
      "\<forall>x. x \<noteq> curName d' \<longrightarrow> mget (files d') x = mget (files d) x"
    by (rule page_keeps[OF page(4) L(1,3) page(5,6)])
  then have "left_behind k d'" using assms(2) by (auto simp: left_behind_def page_step_def)
  then show ?thesis using left_behind_name L'(3) page(1) by metis
next
  case (finish t)
  then show ?thesis using assms(2) by (auto simp: left_behind_def wal_rep_dirty)
next
  case claim
  then show ?thesis using assms(2) by (auto simp: left_behind_def wal_rep_dirty syncClaim_run)
next
  case sync
  then show ?thesis
    using assms(2) os_Sync_run[of d _ disk] left_behind_name[OF assms(2)]
    by (auto simp: left_behind_def curName_def split: option.splits)
qed

lemma left_behind_steps:
  "sync_step\<^sup>*\<^sup>* st st' \<Longrightarrow> left_behind k (fst (fst st)) \<Longrightarrow>
    left_behind k (fst (fst st')) \<and> mget (snd (fst st')) (log_name k) = mget (snd (fst st)) (log_name k)
    \<and> mget (files (fst (fst st'))) (log_name k) = mget (files (fst (fst st))) (log_name k)"
proof (induction rule: rtranclp_induct)
  case (step st1 st2)
  obtain d1 k1 w1 c1 d2 k2 w2 c2 where "st1 = ((d1, k1), w1, c1)" "st2 = ((d2, k2), w2, c2)" by (metis prod.exhaust)
  then show ?case using left_behind_step[of d1 k1 w1 c1 d2 k2 w2 c2 k] step by simp
qed simp

section \<open>Properties\<close>

text \<open>
  C12: an idle log is on the disk. From a start-up on a folder that is on the disk, run writes and
  the worker in any interleaving, in one log file. Whenever no entry is being written, the dirty
  flag is down and the worker is between two rounds, a loss of power loses nothing: a start-up on
  what the disk holds comes back to the position of the log, with the same files.
\<close>

theorem idle_log_survives_power_loss:
  assumes "wal_rep d0 L0" "log_records L0 \<noteq> []" "snd (last (log_records L0)) \<noteq> EntryTypeMiddle" "faults d0 = []"
    and "mwf disk0" "\<forall>x. mget disk0 x = mget (files d0) x"
    and "sync_step\<^sup>*\<^sup>* ((d0, disk0), None, False) ((d, disk), None, False)"
    and "\<not> dirty d" "curCollection d = curCollection d0"
  shows "\<exists>d'. Initialize (restart (d\<lparr>files := disk\<rparr>)) = (Ok (curPosition d), d')
    \<and> (\<forall>x. mget (files d') x = mget (files d) x)"
proof -
  have "L0 \<noteq> []" using assms(2) by (auto simp: log_records_def)
  then have "sync_inv (curCollection d0) ((d0, disk0), None, False)"
    using assms(1,3-6) by (auto simp: sync_inv_def)
  then have "sync_inv (curCollection d0) ((d, disk), None, False)" by (rule sync_steps_inv[OF assms(7)])
  then obtain L where L: "wal_rep d L" "L \<noteq> []" "mwf disk" "snd (last (log_records L)) \<noteq> EntryTypeMiddle"
      "\<forall>x. x \<noteq> curName d \<longrightarrow> mget disk x = mget (files d) x" "mget disk (curName d) = mget (files d) (curName d)"
    using assms(8,9) by (auto simp: sync_inv_def)
  have same: "mget disk x = mget (files d) x" for x using L(5,6) by (cases "x = curName d") auto
  let ?d = "d\<lparr>files := disk\<rparr>"
  have "wal_files (maxPageSize d) disk L"
    using wal_repD(2)[OF L(1)] L(3) same by (simp add: wal_files_def)
  then have "wal_rep ?d L" using L(1) by (cases "curFile d") (auto simp: wal_rep_def wal_params_def)
  from restart_position[OF this L(2,4)] obtain d' where
    "Initialize (restart ?d) = (Ok (curPosition ?d), d')" "files d' = disk" by auto
  then show ?thesis by (intro exI[of _ d']) (simp add: same curPosition_def)
qed

text \<open>A log with one entry, as the writer leaves it.\<close>

lemma sample_log:
  "\<exists>d L. WriteEntry [1, 2, 3] (NewDiskWal [] []) = (Ok (curPosition d), d) \<and> wal_rep d L \<and> faults d = []
    \<and> log_records L = [([1, 2, 3], EntryTypeWhole)] \<and> curCollection d \<le> 1 \<and> dirty d"
proof -
  obtain seq d where w: "WriteEntryWithFullPage [1, 2, 3] (NewDiskWal [] []) = (Ok seq, d)" "faults d = []"
    using WriteEntry_returns[OF healthy_new, of "[1, 2, 3]"] by (auto simp: healthy_def)
  have "curCollection (NewDiskWal [] []) + int (length (entry_records (maxPageSize (NewDiskWal [] [])) [1, 2, 3])) < 2 ^ 63"
    unfolding sample_records by (simp add: NewDiskWal_def)
  then obtain L where "page_step (NewDiskWal [] []) [] [([1, 2, 3], EntryTypeWhole)] d L" "seq = curPosition d"
    using WriteEntry_step[OF w(1) rep_new] unfolding sample_records by blast
  moreover have "dirty d" using w(1) by (auto simp: WriteEntryWithFullPage_def Let_def go_simps bindS_eq_Ok modifyS_def getS_def returnS_def)
  ultimately show ?thesis using w by (auto simp: page_step_def WriteEntry_def log_records_def NewDiskWal_def)
qed

theorem idle_log_survives_power_loss_witness:
  "\<exists>d disk d'. backgroundSync False (d, files d) = (Ok (), (d\<lparr>dirty := False\<rparr>, disk)) \<and> dirty d
    \<and> Initialize (restart (d\<lparr>dirty := False, files := disk\<rparr>)) = (Ok (curPosition d), d')"
proof -
  obtain d L where d: "wal_rep d L" "faults d = []" "log_records L = [([1, 2, 3], EntryTypeWhole)]" "dirty d"
    using sample_log by blast
  have L: "L \<noteq> []" using d(3) by (auto simp: log_records_def)
  let ?d = "d\<lparr>dirty := False\<rparr>"
  obtain disk where b: "backgroundSync False (d, files d) = (Ok (), (?d, disk))"
    using os_Sync_run[of ?d L "files d"] d(1,2,4) L
    by (simp add: backgroundSync_def bindS_def onFst_def syncClaim_run tryS_def returnS_def wal_rep_dirty)
  have "sync_step\<^sup>*\<^sup>* ((d, files d), None, False) ((?d, disk), None, False)"
    by (rule backgroundSync_steps[OF b d(4,1) L d(2)])
  from idle_log_survives_power_loss[OF d(1) _ _ d(2) _ _ this] show ?thesis
    using b d(3,4) wal_filesD(1)[OF wal_repD(2)[OF d(1)]] by (auto simp: entry_type_defs curPosition_def)
qed

lemma full_file_rotates:
  assumes rep: "wal_rep d L" "L \<noteq> []" and full: "maxFileSize d < (pageOccupied d + 1) * int (maxPageSize d)"
    and c: "curCollection d + 1 < 2 ^ 63" and run: "bindS (guaranteePage 1) (\<lambda>_. writeDataPage dat t) d = (Ok (), d1)"
    and p: "8 \<le> maxPageSize d"
  shows "curCollection d1 = curCollection d + 1"
proof -
  note rd = wal_repD[OF rep(1)]
  obtain n b where cf: "curFile d = Some (n, b)" using rd(6) rep(2) by (cases "curFile d") auto
  have "(pageOccupied d + 1) * int (maxPageSize d) = pageOccupied d * int (maxPageSize d) + int (maxPageSize d)"
    by (simp add: algebra_simps)
  moreover have "0 \<le> pageOccupied d * int (maxPageSize d)" using rd(7)[OF cf] by auto
  ultimately have small: "i64 ((pageOccupied d + 1) * int (maxPageSize d)) = (pageOccupied d + 1) * int (maxPageSize d)"
    using rd(1) rd(7)[OF cf] by (intro i64_small) (auto simp: wal_params_def)
  have ci: "i64 (curCollection d + 1) = curCollection d + 1" using rd(5) c by (intro i64_small) auto
  obtain d2 where d2: "guaranteePage 1 d = (Ok (), d2)" "writeDataPage dat t d2 = (Ok (), d1)" using run by (auto simp: bindS_eq_Ok)
  obtain d3 d4 where d3: "os_Close d = (Ok (), d3)" "openCurrent d4 = (Ok (), d2)"
      "d4 = d3\<lparr>curCollection := i64 (curCollection d3 + 1), curSeq := 0, pageOccupied := 0\<rparr>"
    using d2(1) cf small full
    by (auto simp: guaranteePage_def bindS_eq_Ok getS_def modifyS_def)
  have "curCollection d3 = curCollection d" using os_Close_Ok[OF d3(1)] by auto
  moreover have "curCollection d2 = curCollection d4"
    using d3(2) unfolding openCurrent_def by (auto simp: go_simps modifyS_def bindS_eq_Ok elim!: os_OpenFile_Ok)
  moreover have "maxPageSize d3 = maxPageSize d" using os_Close_Ok[OF d3(1)] by auto
  moreover have "maxPageSize d2 = maxPageSize d4"
    using d3(2) unfolding openCurrent_def by (auto simp: go_simps modifyS_def bindS_eq_Ok elim!: os_OpenFile_Ok)
  then have "8 \<le> maxPageSize d2" using \<open>maxPageSize d3 = maxPageSize d\<close> p d3(3) by simp
  then have "curCollection d1 = curCollection d2" using writeDataPage_Ok[OF d2(2)] by (auto simp: append_file_def)
  ultimately show ?thesis using ci d3(3) by simp
qed

text \<open>
  C36: a full file is left behind unsynced. When the page that opens the next log file is written,
  what the disk does not yet hold of the old file it will not get from the program: no later step
  of the writer or the worker changes what the disk holds of it, however long the two run.
\<close>

theorem rotated_file_not_synced:
  assumes "wal_rep d L" "L \<noteq> []" "faults d = []" "maxFileSize d < (pageOccupied d + 1) * int (maxPageSize d)"
    and "rec_ok (maxPageSize d) (dat, t)" "curCollection d + 1 < 2 ^ 63"
    and "bindS (guaranteePage 1) (\<lambda>_. writeDataPage dat t) d = (Ok (), d1)"
    and "sync_step\<^sup>*\<^sup>* ((d1, disk), w, c) ((d2, disk2), w2, c2)"
  shows "mget disk2 (curName d) = mget disk (curName d) \<and> mget (files d2) (curName d) = mget (files d) (curName d)
    \<and> curName d2 \<noteq> curName d"
proof -
  obtain L1 where L1: "page_step d L [(dat, t)] d1 L1" "faults d1 = []"
      "\<forall>x. x \<noteq> curName d1 \<longrightarrow> mget (files d1) x = mget (files d) x"
    by (rule page_keeps[OF assms(7,1,3,5,6)])
  have p: "8 \<le> maxPageSize d" using wal_repD(1)[OF assms(1)] by (simp add: wal_params_def)
  let ?k = "(curTerm d, curCollection d)"
  have lb: "left_behind ?k d1"
    using full_file_rotates[OF assms(1,2,4,6,7) p] current_key[OF assms(1,2)] L1(1,2)
    by (auto simp: left_behind_def page_step_def)
  have "mget (files d1) (curName d) = mget (files d) (curName d)"
    using L1(3) left_behind_name[OF lb] by (auto simp: curName_def)
  then show ?thesis
    using left_behind_steps[OF assms(8), of ?k] lb left_behind_name[of ?k d2] by (auto simp: curName_def)
qed

text \<open>A log whose files hold one page each: the first entry never reaches the disk.\<close>

lemma small_entry:
  assumes "WriteEntry [x] d = (Ok seq, d')" "wal_rep d L"
  obtains d1 where "bindS (guaranteePage 1) (\<lambda>_. writeDataPage [x] EntryTypeWhole) d = (Ok (), d1)" "d' = d1\<lparr>dirty := True\<rparr>"
proof -
  have "Suc 0 \<le> maxPageSize d - RecordHeaderSize"
    using wal_repD(1)[OF assms(2)] unfolding wal_params_def RecordHeaderSize_def by linarith
  then show ?thesis
    using assms(1) that
    by (auto simp: WriteEntry_def WriteEntryWithFullPage_def Let_def go_simps bindS_eq_Ok getS_def modifyS_def returnS_def)
qed

lemma sample_small_log:
  "\<exists>d L. WriteEntry [1] ((NewDiskWal [] [])\<lparr>maxFileSize := 4096\<rparr>) = (Ok (curPosition d), d) \<and> healthy d \<and> wal_rep d L
    \<and> L \<noteq> [] \<and> pageOccupied d = 1 \<and> maxPageSize d = 4096 \<and> maxFileSize d = 4096 \<and> curCollection d \<le> 1"
proof -
  let ?d = "(NewDiskWal [] [])\<lparr>maxFileSize := 4096\<rparr>"
  have rep: "wal_rep ?d []" by (simp add: wal_rep_def wal_files_def wal_params_def NewDiskWal_def in_i64_def)
  have h: "healthy ?d" by (simp add: healthy_def NewDiskWal_def)
  obtain seq d where w: "WriteEntryWithFullPage [1] ?d = (Ok seq, d)" "healthy d"
    using WriteEntry_returns[OF h, of "[1]"] by blast
  have r: "entry_records (maxPageSize ?d) [1] = [([1], EntryTypeWhole)]"
    by (simp add: entry_records_def RecordHeaderSize_def NewDiskWal_def)
  have "curCollection ?d + int (length (entry_records (maxPageSize ?d) [1])) < 2 ^ 63"
    unfolding r by (simp add: NewDiskWal_def)
  then obtain L where L: "page_step ?d [] [([1], EntryTypeWhole)] d L" "seq = curPosition d"
    using WriteEntry_step[OF w(1) rep] unfolding r by blast
  note ps = L(1)[unfolded page_step_def]
  obtain n b where cf: "curFile d = Some (n, b)" using wal_repD(6)[of d L] ps by (cases "curFile d") auto
  have "L \<noteq> [] \<Longrightarrow> length (snd (last L)) \<le> length (log_records L)"
    by (cases L rule: rev_cases) (simp_all add: log_records_def)
  then have "pageOccupied d = 1"
    using ps wal_repD(7)[of d L, OF _ cf] by (cases "snd (last L)") (auto simp: log_records_def)
  then show ?thesis
    using w L(2) ps by (auto simp: WriteEntry_def NewDiskWal_def)
qed

theorem rotated_file_not_synced_witness:
  "\<exists>d d1 d2 disk2. WriteEntry [1] ((NewDiskWal [] [])\<lparr>maxFileSize := 4096\<rparr>) = (Ok (curPosition d), d)
    \<and> WriteEntry [2] d = (Ok (curPosition d1), d1) \<and> backgroundSync False (d1, []) = (Ok (), (d2, disk2))
    \<and> mget (files d2) (curName d) \<noteq> None \<and> mget disk2 (curName d) = None \<and> mget disk2 (curName d1) \<noteq> None"
proof -
  obtain d L where d: "WriteEntry [1] ((NewDiskWal [] [])\<lparr>maxFileSize := 4096\<rparr>) = (Ok (curPosition d), d)" "healthy d"
      "wal_rep d L" "L \<noteq> []" "pageOccupied d = 1" "maxPageSize d = 4096" "maxFileSize d = 4096" "curCollection d \<le> 1"
    using sample_small_log by blast
  obtain seq d1 where w: "WriteEntry [2] d = (Ok seq, d1)" "healthy d1"
    using WriteEntry_returns[OF d(2), of "[2]"] by (auto simp: WriteEntry_def)
  have r: "entry_records (maxPageSize d) [2] = [([2], EntryTypeWhole)]"
    by (simp add: entry_records_def RecordHeaderSize_def d(6))
  have "curCollection d + int (length (entry_records (maxPageSize d) [2])) < 2 ^ 63" unfolding r using d(8) by simp
  then obtain L1 where L1: "page_step d L [([2], EntryTypeWhole)] d1 L1" "seq = curPosition d1"
    using WriteEntry_step[OF w(1)[unfolded WriteEntry_def] d(3)] unfolding r by blast
  note ps = L1(1)[unfolded page_step_def]
  obtain dm where dm: "bindS (guaranteePage 1) (\<lambda>_. writeDataPage [2] EntryTypeWhole) d = (Ok (), dm)" "d1 = dm\<lparr>dirty := True\<rparr>"
    by (rule small_entry[OF w(1) d(3)])
  let ?d = "d1\<lparr>dirty := False\<rparr>"
  have q: "faults d1 = []" "dirty d1" "curName ?d = curName d1" using w(2) dm(2) by (auto simp: healthy_def curName_def)
  obtain disk2 where b: "backgroundSync False (d1, []) = (Ok (), (?d, disk2))" "os_Sync (?d, []) = (Ok (), (?d, disk2))"
    using os_Sync_run[of ?d L1 "[]"] ps q
    by (simp add: backgroundSync_def bindS_def onFst_def syncClaim_run tryS_def returnS_def wal_rep_dirty)
  have synced: "mget disk2 (curName d1) \<noteq> None"
    using b(2) os_Sync_run[of ?d L1 "[]"] ps q current_file[of d1 L1]
    by (auto simp: wal_rep_dirty curName_def cong: option.case_cong)
  have "sync_step ((dm, []), Some EntryTypeWhole, False) ((d1, []), None, False)"
    unfolding dm(2) by (rule sync_step.finish) (simp add: entry_type_defs)
  moreover have "sync_step\<^sup>*\<^sup>* ((d1, []), None, False) ((?d, disk2), None, False)"
    using ps by (intro backgroundSync_steps[OF b(1) q(2) _ _ q(1)]) auto
  ultimately have steps: "sync_step\<^sup>*\<^sup>* ((dm, []), Some EntryTypeWhole, False) ((?d, disk2), None, False)" by simp
  have ok: "rec_ok (maxPageSize d) ([2], EntryTypeWhole)" using entry_records_ok[of "([2], EntryTypeWhole)" "maxPageSize d" "[2]"] r d(6) by simp
  have "mget disk2 (curName d) = mget ([] :: disk) (curName d) \<and> mget (files ?d) (curName d) = mget (files d) (curName d)
      \<and> curName ?d \<noteq> curName d"
    by (rule rotated_file_not_synced[OF d(3,4) _ _ ok _ dm(1) steps]) (use d in \<open>auto simp: healthy_def\<close>)
  then show ?thesis
    using d(1) w(1) L1(2) b(1) synced current_file[OF d(3,4)] by (intro exI[of _ d] exI[of _ d1] exI[of _ ?d] exI[of _ disk2]) simp
qed

end
