(* ===== verification/Kv_Concurrent.thy ===== *)
theory Kv_Concurrent
  imports Kv_Service
begin

text \<open>
  Concurrent changes of the durable store. \<open>Put\<close> of \<open>internal/service/solestorage.go\<close> takes no lock:
  it runs in three parts, the log write, the storage write and the version write, each under a
  lock of its own, and those of several clients interleave in any way. Shown: whatever the
  interleaving, and wherever the process dies, the next start-up succeeds, gives every key the
  value it had or the value of its last change in the log, and completes the changes under way
  past the version; and the two values can differ, also when every change was acknowledged.
\<close>

section \<open>Interleaved changes\<close>

text \<open>
  A change on its way: its key and value, its position in the log, and whether the storage has
  it. The last part of the state is bookkeeping: the changes in the order of the log.
\<close>

type_synonym put_flight = "bytes \<times> bytes \<times> SequenceId \<times> bool"
type_synonym 'k puts = "((DiskWal \<times> 'k) \<times> put_flight list) \<times> (bytes \<times> bytes) list"

inductive put_step :: "cbor \<Rightarrow> 'k kv_put \<Rightarrow> 'k puts \<Rightarrow> 'k puts \<Rightarrow> bool" for C put where
  log: "writeWalEntry C (put_entry (key, val)) s = (Ok seq, s') \<Longrightarrow>
    user_key key \<Longrightarrow> fits C (fst s) (key, val) \<Longrightarrow> curCollection (fst s) + 1 < 2 ^ 63 \<Longrightarrow>
    put_step C put ((s, F), es) ((s', (key, val, seq, False) # F), es @ [(key, val)])"
| store: "onSnd (put key val) s = (Ok (), s') \<Longrightarrow>
    put_step C put ((s, F1 @ (key, val, seq, False) # F2), es) ((s', F1 @ (key, val, seq, True) # F2), es)"
| version: "writeVersion C put seq s = (Ok (), s') \<Longrightarrow>
    put_step C put ((s, F1 @ (key, val, seq, True) # F2), es) ((s', F1 @ F2), es)"

text \<open>The process may die at any point; the next one starts up on what is left.\<close>

inductive store_run :: "cbor \<Rightarrow> 'k kv_put \<Rightarrow> 'k kv_get \<Rightarrow> 'k puts \<Rightarrow> 'k puts \<Rightarrow> bool" for C put get where
  put: "put_step C put st st' \<Longrightarrow> store_run C put get st st'"
| crash: "kv_Initialize C put get (restart d, k) = (r, s') \<Longrightarrow>
    store_run C put get (((d, k), F), es) ((s', []), es)"

text \<open>A change that is not interleaved is the \<open>Put\<close> of the store.\<close>

lemma kv_Put_steps:
  assumes run: "kv_Put C put key val s = (Ok (), s')" and k: "user_key key" "fits C (fst s) (key, val)"
    and c: "curCollection (fst s) + 1 < 2 ^ 63"
  shows "(put_step C put)\<^sup>*\<^sup>* ((s, F), es) ((s', F), es @ [(key, val)])"
proof -
  obtain seq s1 s2 where p: "writeWalEntry C (put_entry (key, val)) s = (Ok seq, s1)"
      "onSnd (put key val) s1 = (Ok (), s2)" "writeVersion C put seq s2 = (Ok (), s')"
    using run by (auto simp: kv_Put_def put_entry_def bindS_eq_Ok)
  have "put_step C put ((s, F), es) ((s1, (key, val, seq, False) # F), es @ [(key, val)])"
    by (rule put_step.log[OF p(1) k c])
  moreover have "put_step C put ((s1, [] @ (key, val, seq, False) # F), es @ [(key, val)])
      ((s2, [] @ (key, val, seq, True) # F), es @ [(key, val)])"
    by (rule put_step.store) (rule p(2))
  moreover have "put_step C put ((s2, [] @ (key, val, seq, True) # F), es @ [(key, val)]) ((s', [] @ F), es @ [(key, val)])"
    by (rule put_step.version) (rule p(3))
  ultimately show ?thesis unfolding append.simps by (meson r_into_rtranclp rtranclp_trans)
qed

section \<open>What every state keeps\<close>

definition at_log :: "wal_log \<Rightarrow> DiskWal \<Rightarrow> SequenceId \<Rightarrow> bool" where
  "at_log L d p \<longleftrightarrow> p \<le> curPosition d \<and> (Term p, Collection p) \<in> fst ` set L"

text \<open>The entry of a change is in the file of its position.\<close>

definition logged_at :: "cbor \<Rightarrow> wal_log \<Rightarrow> bytes \<times> bytes \<Rightarrow> SequenceId \<Rightarrow> bool" where
  "logged_at C L e p \<longleftrightarrow> (\<exists>rs. ((Term p, Collection p), rs) \<in> set L \<and> (\<exists>r \<in> set rs. logged C e r))"

definition puts_inv :: "cbor \<Rightarrow> ('k \<Rightarrow> bytes \<Rightarrow> bytes option) \<Rightarrow> 'k puts \<Rightarrow> bool" where
  "puts_inv C cont st \<longleftrightarrow> (case st of (((d, k), F), es) \<Rightarrow>
     (\<exists>L. wal_rep d L \<and> list_all2 (logged C) es (log_records L) \<and> faults d = [] \<and> es \<noteq> []
       \<and> (\<forall>e \<in> set es. user_key (fst e))
       \<and> (\<exists>b p. cont k VersionKey = Some b \<and> marshalSeq C p = Ok b \<and> at_log L d p)
       \<and> (\<forall>(key, val, p, stored) \<in> set F. user_key key \<and> at_log L d p \<and> logged_at C L (key, val) p)))"

lemma at_log_step: "page_step d L rs d1 L1 \<Longrightarrow> at_log L d p \<Longrightarrow> at_log L1 d1 p"
  by (auto simp: at_log_def page_step_def)

lemma logged_at_step: "page_step d L rs d1 L1 \<Longrightarrow> logged_at C L e p \<Longrightarrow> logged_at C L1 e p"
  unfolding page_step_def log_grows_def logged_at_def by (fastforce simp: split_beta)

lemma logged_at_current:
  assumes "wal_rep d L" "log_records L = rs @ [r]" "logged C e r"
  shows "logged_at C L e (curPosition d)"
proof -
  have L: "L \<noteq> []" using assms(2) by (auto simp: log_records_def)
  obtain n b where "curFile d = Some (n, b)" using wal_repD(6)[OF assms(1)] L by (cases "curFile d") auto
  then have l: "fst (last L) = (curTerm d, curCollection d)" "snd (last L) \<noteq> []" using wal_repD(7)[OF assms(1)] by blast+
  obtain M key xs where M: "L = M @ [(key, xs)]" using L by (metis rev_exhaust surj_pair)
  then have "log_records L = log_records M @ xs" "xs \<noteq> []" using l(2) by (simp_all add: log_records_def)
  then have "r \<in> set xs" using assms(2) by (metis last_appendR last_in_set last_snoc)
  moreover have "key = (curTerm d, curCollection d)" using l(1) M by simp
  ultimately show ?thesis using assms(3) M unfolding logged_at_def curPosition_def by auto
qed

text \<open>The files from a position's on hold every entry of a later position.\<close>

lemma later_file:
  assumes "wal_rep d L" "L = M @ ((Term p, Collection p), rs) # N" "((Term q, Collection q), rs') \<in> set L" "p < q"
  shows "((Term q, Collection q), rs') \<in> set (((Term p, Collection p), rs) # N)"
proof (rule ccontr)
  assume "\<not> ?thesis"
  then have M: "((Term q, Collection q), rs') \<in> set M" using assms(2,3) by auto
  note files = wal_repD(2)[OF assms(1)]
  have "log_name (Term q, Collection q) < log_name (Term p, Collection p)"
    using wal_filesD(2)[OF files] M unfolding assms(2) by (auto simp: sorted_wrt_append)
  moreover have "key_ok (Term q, Collection q)" "key_ok (Term p, Collection p)"
    using wal_filesD(3)[OF files] assms(2,3) by auto
  ultimately show False using assms(4) log_name_less by (auto simp: less_SequenceId_def)
qed

lemma at_log_current:
  assumes "wal_rep d L" "L \<noteq> []"
  shows "at_log L d (curPosition d)"
proof -
  obtain n b where "curFile d = Some (n, b)" using wal_repD(6)[OF assms(1)] assms(2) by (cases "curFile d") auto
  then have "fst (last L) = (curTerm d, curCollection d)" using wal_repD(7)[OF assms(1)] by blast
  then show ?thesis using last_in_set[OF assms(2)] by (force simp: at_log_def curPosition_def)
qed

context kv_service
begin

lemma put_step_inv:
  assumes "put_step C put st st'" "puts_inv C abs st"
  shows "puts_inv C abs st'"
  using assms(1)
proof cases
  case (log key val s seq s' F es)
  obtain d k where s: "s = (d, k)" by fastforce
  obtain L b p where L: "wal_rep d L" "list_all2 (logged C) es (log_records L)" "faults d = []"
      "\<forall>e \<in> set es. user_key (fst e)" "abs k VersionKey = Some b" "marshalSeq C p = Ok b" "at_log L d p"
      "\<forall>(key, val, p, stored) \<in> set F. user_key key \<and> at_log L d p \<and> logged_at C L (key, val) p"
    using assms(2) log(1) s by (auto simp: puts_inv_def)
  obtain d1 L1 r where d1: "s' = (d1, k)" "seq = curPosition d1" "logged C (key, val) r"
      "page_step d L [r] d1 L1" "faults d1 = []"
    using writeWalEntry_step[OF L(1,3), of key val k] log(3,5,6) s by auto
  have "wal_rep d1 L1" "list_all2 (logged C) (es @ [(key, val)]) (log_records L1)" "L1 \<noteq> []"
    using d1(3,4) L(2) by (auto simp: page_step_def intro!: list_all2_appendI)
  moreover have "\<forall>(key, val, p, stored) \<in> set F. user_key key \<and> at_log L1 d1 p \<and> logged_at C L1 (key, val) p"
    using L(8) at_log_step[OF d1(4)] logged_at_step[OF d1(4)] by blast
  moreover have "logged_at C L1 (key, val) (curPosition d1)"
    by (rule logged_at_current[of _ _ "log_records L" r]) (use d1(3,4) in \<open>auto simp: page_step_def\<close>)
  ultimately show ?thesis
    using log(2,4) d1(1,2,5) L(4-6) at_log_step[OF d1(4) L(7)] at_log_current
    unfolding puts_inv_def by (auto intro!: exI[of _ L1])
next
  case (store key val s s' F1 seq F2 es)
  obtain d k where s: "s = (d, k)" by fastforce
  have key: "user_key key" using assms(2) store(1) s by (auto simp: puts_inv_def)
  then obtain k1 where "s' = (d, k1)" "abs k1 = (abs k)(key \<mapsto> val)"
    using put_valid[of key val k] store(3) s by (auto simp: onSnd_def user_key_def)
  then show ?thesis
    using assms(2) store(1,2) s key unfolding puts_inv_def by (auto simp: user_key_def)
next
  case (version seq s s' F1 key val F2 es)
  obtain d k where s: "s = (d, k)" by fastforce
  obtain b where b: "marshalSeq C seq = Ok b" using seq_encodes by blast
  obtain k1 where "s' = (d, k1)" "abs k1 = (abs k)(VersionKey \<mapsto> b)"
    using writeVersion_run[OF b, of d k] version(3) s by auto
  then show ?thesis
    using assms(2) version(1,2) s b unfolding puts_inv_def by auto
qed

text \<open>Start-up on what is left: either nothing is replayed, or the end of the log is.\<close>

lemma startup_after:
  assumes "puts_inv C abs (((d, k), F), es)"
  shows "\<exists>d' k'. kv_Initialize C put get (restart d, k) = (Ok (), (d', k')) \<and> puts_inv C abs (((d', k'), []), es)
    \<and> curPosition d' = curPosition d
    \<and> (\<forall>x. x \<noteq> VersionKey \<longrightarrow> abs k' x \<in> {abs k x, map_of (rev es) x})
    \<and> (marshalSeq C (curPosition d) \<noteq> Ok (the (abs k VersionKey)) \<longrightarrow> abs k' (fst (last es)) = Some (snd (last es)))
    \<and> (\<exists>p. marshalSeq C p = Ok (the (abs k VersionKey)) \<and> (\<forall>(key, val, q, stored) \<in> set F. p < q \<longrightarrow> abs k' key = map_of (rev es) key))"
proof -
  obtain L b p where L: "wal_rep d L" "list_all2 (logged C) es (log_records L)" "faults d = []" "es \<noteq> []"
      "\<forall>e \<in> set es. user_key (fst e)" "abs k VersionKey = Some b" "marshalSeq C p = Ok b" "at_log L d p"
    and F: "\<forall>(key, val, q, stored) \<in> set F. user_key key \<and> at_log L d q \<and> logged_at C L (key, val) q"
    using assms by (auto simp: puts_inv_def)
  have Lne: "L \<noteq> []" using L(2,4) by (auto simp: log_records_def)
  obtain b' where b': "marshalSeq C (curPosition d) = Ok b'" using seq_encodes by blast
  have kept: "puts_inv C abs (((d', k'), []), es)"
    if "wal_rep d' L" "faults d' = []" "curPosition d' = curPosition d" "abs k' VersionKey = Some b'" for d' k'
    using that L(2,4,5) b' at_log_current[OF that(1) Lne] unfolding puts_inv_def by auto
  show ?thesis
  proof (cases "p = curPosition d")
    case True
    then have "b' = b" using L(7) b' by simp
    then obtain d' k' where r: "kv_Initialize C put get (restart d, k) = (Ok (), (d', k'))" "wal_rep d' L"
        "faults d' = []" "curPosition d' = curPosition d" "abs k' = (abs k)(VersionKey \<mapsto> b)"
      using kv_Initialize_skips[OF L(1,2,4) _ L(6)] b' by blast
    have "\<forall>(key, val, q, stored) \<in> set F. p < q \<longrightarrow> abs k' key = map_of (rev es) key"
      using F True by (auto simp: at_log_def)
    moreover have "marshalSeq C p = Ok (the (abs k VersionKey))" using L(6,7) by simp
    ultimately have "\<exists>p. marshalSeq C p = Ok (the (abs k VersionKey))
        \<and> (\<forall>(key, val, q, stored) \<in> set F. p < q \<longrightarrow> abs k' key = map_of (rev es) key)" by blast
    then show ?thesis using r kept[OF r(2-4)] \<open>b' = b\<close> b' L(6)
      by (intro exI[of _ d'] exI[of _ k'] conjI) auto
  next
    case False
    then have p: "p < curPosition d" "(Term p, Collection p) \<in> fst ` set L" using L(8) by (auto simp: at_log_def)
    then obtain rs where "((Term p, Collection p), rs) \<in> set L" by auto
    then obtain M N where split: "L = M @ ((Term p, Collection p), rs) # N" by (meson split_list)
    let ?N = "((Term p, Collection p), rs) # N"
    obtain esM esS where es: "es = esM @ esS" "list_all2 (logged C) esM (log_records M)"
        "list_all2 (logged C) esS (log_records ?N)"
      using L(2) split by (auto simp: log_records_def list_all2_append2)
    obtain n x where "curFile d = Some (n, x)" using wal_repD(6)[OF L(1)] Lne by (cases "curFile d") auto
    then have "snd (last L) \<noteq> []" using wal_repD(7)[OF L(1)] by blast
    then have "log_records ?N \<noteq> []" using split by (auto simp: log_records_def split: if_splits)
    then have sne: "esS \<noteq> []" using es(3) by auto
    have w: "wal_rep d (M @ ?N)" using L(1) split by simp
    have keys: "\<forall>e \<in> set (esM @ esS). user_key (fst e)" using L(5) es(1) by simp
    obtain d' k' where r: "kv_Initialize C put get (restart d, k) = (Ok (), (d', k'))" "wal_rep d' (M @ ?N)"
        "faults d' = []" "curPosition d' = curPosition d" "abs k' = (abs k ++ map_of (rev esS))(VersionKey \<mapsto> b')"
      using kv_Initialize_replays[OF w es(2,3) keys L(6,7) _ _ p(1) b'] by auto
    have tail: "map_of (rev es) x = Some v" if "map_of (rev esS) x = Some v" for x v
      using that es(1) by (simp add: map_of_append)
    have "abs k' (fst (last es)) = Some (snd (last es))"
    proof -
      obtain ys e where "esS = ys @ [e]" using sne by (metis rev_exhaust)
      moreover have "fst (last es) \<noteq> VersionKey" using L(4,5) by (auto simp: user_key_def)
      ultimately show ?thesis using r(5) es(1) by (cases e) auto
    qed
    moreover have "abs k' x \<in> {abs k x, map_of (rev es) x}" if "x \<noteq> VersionKey" for x
      using that r(5) tail[of x] by (cases "map_of (rev esS) x") (auto simp: map_add_def)
    moreover have "abs k' key = map_of (rev es) key"
      if "(key, val, q, stored) \<in> set F" "p < q" for key val q stored
    proof -
      have at: "user_key key" "logged_at C L (key, val) q" using F that(1) by auto
      then obtain rs' r' where r': "((Term q, Collection q), rs') \<in> set L" "r' \<in> set rs'" "logged C (key, val) r'"
        by (auto simp: logged_at_def)
      have "r' \<in> set (log_records ?N)"
        using later_file[OF L(1) split r'(1) that(2)] r'(2) unfolding log_records_def set_concat set_map by force
      then obtain e where e: "e \<in> set esS" "logged C e r'" using es(3) by (metis in_set_conv_nth list_all2_conv_all_nth)
      have "put_entry e = put_entry (key, val)"
        using entry_back[of "put_entry e" "fst r'"] entry_back[of "put_entry (key, val)" "fst r'"] e(2) r'(3) by (simp add: logged_def)
      then have "key \<in> fst ` set esS" using e(1) by (force simp: put_entry_def)
      then obtain v where v: "map_of (rev esS) key = Some v"
        by (metis map_of_eq_None_iff not_None_eq set_rev)
      then show ?thesis using r(5) tail[OF v] at(1) by (simp add: user_key_def)
    qed
    then have "\<exists>p. marshalSeq C p = Ok (the (abs k VersionKey))
        \<and> (\<forall>(key, val, q, stored) \<in> set F. p < q \<longrightarrow> abs k' key = map_of (rev es) key)"
      using L(6,7) by (intro exI[of _ p]) auto
    ultimately show ?thesis using r kept[of d' k'] split by (intro exI[of _ d'] exI[of _ k'] conjI) auto
  qed
qed

lemma store_run_inv: "store_run C put get st st' \<Longrightarrow> puts_inv C abs st \<Longrightarrow> puts_inv C abs st'"
proof (induction rule: store_run.induct)
  case (crash d k r s' F es)
  then show ?case using startup_after[of d k F es] by auto
qed (rule put_step_inv)

lemma store_runs_inv: "(store_run C put get)\<^sup>*\<^sup>* st st' \<Longrightarrow> puts_inv C abs st \<Longrightarrow> puts_inv C abs st'"
  by (induction rule: rtranclp_induct) (auto intro: store_run_inv)

lemma rep_puts_inv:
  assumes "kv_rep C abs (d, k) es" "es \<noteq> []"
  shows "puts_inv C abs (((d, k), []), es)"
proof -
  obtain L where L: "wal_rep d L" "list_all2 (logged C) es (log_records L)" using assms(1) by (auto simp: kv_rep_def)
  then have "L \<noteq> []" using assms(2) by (auto simp: log_records_def)
  then show ?thesis using assms L at_log_current[OF L(1)] unfolding puts_inv_def kv_rep_def by auto
qed

text \<open>Two changes of one key that overtake each other between the log and the storage.\<close>

lemma overtaking:
  assumes rep: "kv_rep C abs (d, k) es" "es \<noteq> []" and key: "user_key key"
    and fits: "fits C d (key, v1)" "fits C d (key, v2)" and c: "curCollection d + 2 < 2 ^ 63"
  shows "\<exists>s s'. (put_step C put)\<^sup>*\<^sup>* (((d, k), []), es) ((s, []), es @ [(key, v1), (key, v2)])
    \<and> kv_Get get key s = (Ok (Some v1), s)
    \<and> kv_Initialize C put get (restart (fst s), snd s) = (Ok (), s') \<and> kv_Get get key s' = (Ok (Some v2), s')"
proof -
  obtain L where L: "wal_rep d L" "faults d = []" using rep(1) by (auto simp: kv_rep_def)
  obtain d1 L1 r1 where w1: "writeWalEntry C (put_entry (key, v1)) (d, k) = (Ok (curPosition d1), (d1, k))"
      "page_step d L [r1] d1 L1" "faults d1 = []"
    using writeWalEntry_step[OF L fits(1), of k] c by auto
  have p1: "wal_rep d1 L1" "curCollection d1 + 1 < 2 ^ 63" "fits C d1 (key, v2)" "fits C d (key, v1)"
    using w1(2) c fits by (auto simp: page_step_def fits_def)
  obtain d2 L2 r2 where w2: "writeWalEntry C (put_entry (key, v2)) (d1, k) = (Ok (curPosition d2), (d2, k))"
      "page_step d1 L1 [r2] d2 L2"
    using writeWalEntry_step[OF p1(1) w1(3) p1(3,2), of k] by auto
  have vk: "valid_key key" "key \<noteq> VersionKey" using key by (auto simp: user_key_def)
  obtain b1 b2 where b: "marshalSeq C (curPosition d1) = Ok b1" "marshalSeq C (curPosition d2) = Ok b2"
    using seq_encodes by blast
  obtain k1 where k1: "put key v2 k = (Ok (), k1)" using put_valid[OF vk(1)] by blast
  obtain k2 where k2: "writeVersion C put (curPosition d2) (d2, k1) = (Ok (), (d2, k2))" using writeVersion_run[OF b(2)] by blast
  obtain k3 where k3: "put key v1 k2 = (Ok (), k3)" "abs k3 = (abs k2)(key \<mapsto> v1)" using put_valid[OF vk(1)] by blast
  obtain k4 where k4: "writeVersion C put (curPosition d1) (d2, k3) = (Ok (), (d2, k4))" "abs k4 = (abs k3)(VersionKey \<mapsto> b1)"
    using writeVersion_run[OF b(1)] by blast
  let ?e1 = "(key, v1)" and ?e2 = "(key, v2)"
  let ?A = "\<lambda>x. (key, v1, curPosition d1, x)" and ?B = "\<lambda>x. (key, v2, curPosition d2, x)"
  have "put_step C put (((d, k), []), es) (((d1, k), [?A False]), es @ [?e1])"
    by (rule put_step.log[OF w1(1) key]) (use fits c in auto)
  moreover have "put_step C put (((d1, k), [?A False]), es @ [?e1]) (((d2, k), [?B False, ?A False]), (es @ [?e1]) @ [?e2])"
    by (rule put_step.log[OF w2(1) key]) (use p1 in auto)
  moreover have "put_step C put (((d2, k), [] @ ?B False # [?A False]), (es @ [?e1]) @ [?e2])
      (((d2, k1), [] @ ?B True # [?A False]), (es @ [?e1]) @ [?e2])"
    by (rule put_step.store) (simp add: onSnd_def k1)
  moreover have "put_step C put (((d2, k1), [] @ ?B True # [?A False]), (es @ [?e1]) @ [?e2])
      (((d2, k2), [] @ [?A False]), (es @ [?e1]) @ [?e2])"
    by (rule put_step.version) (rule k2)
  moreover have "put_step C put (((d2, k2), [] @ ?A False # []), (es @ [?e1]) @ [?e2])
      (((d2, k3), [] @ ?A True # []), (es @ [?e1]) @ [?e2])"
    by (rule put_step.store) (simp add: onSnd_def k3)
  moreover have "put_step C put (((d2, k3), [] @ ?A True # []), (es @ [?e1]) @ [?e2]) (((d2, k4), [] @ []), (es @ [?e1]) @ [?e2])"
    by (rule put_step.version) (rule k4(1))
  ultimately have run: "(put_step C put)\<^sup>*\<^sup>* (((d, k), []), es) (((d2, k4), []), es @ [?e1, ?e2])"
    unfolding append.simps append_assoc by (meson converse_rtranclp_into_rtranclp rtranclp.rtrancl_refl)
  have run2: "(store_run C put get)\<^sup>*\<^sup>* x y" if "(put_step C put)\<^sup>*\<^sup>* x y" for x y
    using that by (induction rule: rtranclp_induct) (auto intro: store_run.put rtranclp.rtrancl_into_rtrancl)
  have inv: "puts_inv C abs (((d2, k4), []), es @ [?e1, ?e2])"
    by (rule store_runs_inv[OF run2[OF run] rep_puts_inv[OF rep]])
  have "curPosition d1 \<noteq> curPosition d2" using w2(2) by (auto simp: page_step_def)
  then have "marshalSeq C (curPosition d2) \<noteq> Ok b1" using seq_back b(1) by (metis res.inject(1))
  then obtain d' k' where i: "kv_Initialize C put get (restart d2, k4) = (Ok (), (d', k'))" "abs k' key = Some v2"
    using startup_after[OF inv] k4(2) by auto
  have "kv_Get get key (d2, k4) = (Ok (Some v1), (d2, k4))" "kv_Get get key (d', k') = (Ok (Some v2), (d', k'))"
    using get_valid[OF vk(1)] k4(2) k3(2) vk(2) i(2) by (simp_all add: kv_Get_def onSnd_def)
  then show ?thesis using run i(1) by (metis fst_conv snd_conv)
qed

lemma startup_reads:
  assumes "kv_rep C abs s0 es0" "es0 \<noteq> []" "(store_run C put get)\<^sup>*\<^sup>* ((s0, []), es0) (((d, k), F), es)"
  shows "\<exists>s' p. kv_Initialize C put get (restart d, k) = (Ok (), s') \<and> curPosition (fst s') = curPosition d
    \<and> readVersion C get (d, k) = (Ok (Some p), (d, k))
    \<and> (\<forall>key. user_key key \<longrightarrow> (\<exists>v \<in> {abs k key, map_of (rev es) key}. kv_Get get key s' = (Ok v, s')))
    \<and> (\<forall>(key, val, q, stored) \<in> set F. p < q \<longrightarrow> kv_Get get key s' = (Ok (map_of (rev es) key), s'))"
proof -
  have inv: "puts_inv C abs (((d, k), F), es)"
    using store_runs_inv[OF assms(3)] rep_puts_inv assms(1,2) by (cases s0) auto
  obtain d' k' p where r: "kv_Initialize C put get (restart d, k) = (Ok (), (d', k'))" "curPosition d' = curPosition d"
      "\<forall>x. x \<noteq> VersionKey \<longrightarrow> abs k' x \<in> {abs k x, map_of (rev es) x}" "marshalSeq C p = Ok (the (abs k VersionKey))"
      "\<forall>(key, val, q, stored) \<in> set F. p < q \<longrightarrow> abs k' key = map_of (rev es) key"
    using startup_after[OF inv] by blast
  have keys: "\<forall>(key, val, q, stored) \<in> set F. user_key key" "abs k VersionKey \<noteq> None"
    using inv by (auto simp: puts_inv_def)
  have get: "kv_Get get key (d', k') = (Ok (abs k' key), (d', k'))" if "user_key key" for key
    using get_valid[of key k'] that by (simp add: kv_Get_def onSnd_def user_key_def)
  have "readVersion C get (d, k) = (Ok (Some p), (d, k))"
    using keys(2) seq_back[OF r(4)] by (auto simp: readVersion_run)
  moreover have "kv_Get get key (d', k') = (Ok (map_of (rev es) key), (d', k'))"
    if "(key, val, q, stored) \<in> set F" "p < q" for key val q stored
    using get[of key] r(5) keys(1) that by fastforce
  then have "\<forall>(key, val, q, stored) \<in> set F. p < q \<longrightarrow> kv_Get get key (d', k') = (Ok (map_of (rev es) key), (d', k'))"
    by blast
  ultimately show ?thesis using r(1-3) get
    by (intro exI[of _ "(d', k')"] exI[of _ p] conjI) (simp_all add: user_key_def)
qed

end

section \<open>Properties\<close>

text \<open>
  C4: from a store with at least one change, run any number of changes of user keys, each in one
  page of the log, interleaved in any way, with any number of crashes at any points. After
  another crash the start-up succeeds at the position of the log, and every user key reads either
  the value the storage had or the value of its last change in the log. It completes what was
  under way: the key of every unfinished change whose position is past the version in the storage
  reads the value of its last change in the log, whether or not the storage had it.
\<close>

theorem crash_keeps_concurrent_changes:
  assumes "diskv_library D contents" "cbor_ok C" "kv_rep C contents s0 es0" "es0 \<noteq> []"
    and "(store_run C (diskv_Put D) (diskv_Get D))\<^sup>*\<^sup>* ((s0, []), es0) (((d, k), F), es)"
  shows "\<exists>s' p. kv_Initialize C (diskv_Put D) (diskv_Get D) (restart d, k) = (Ok (), s')
    \<and> curPosition (fst s') = curPosition d \<and> readVersion C (diskv_Get D) (d, k) = (Ok (Some p), (d, k))
    \<and> (\<forall>key. user_key key \<longrightarrow> (\<exists>v \<in> {contents k key, map_of (rev es) key}. kv_Get (diskv_Get D) key s' = (Ok v, s')))
    \<and> (\<forall>(key, val, q, stored) \<in> set F. p < q \<longrightarrow> kv_Get (diskv_Get D) key s' = (Ok (map_of (rev es) key), s'))"
  by (rule kv_service.startup_reads[OF serviceI[OF assms(1,2)] assms(3-5)])

theorem crash_keeps_concurrent_changes_witness:
  "\<exists>d k r d1 s'. kv_rep unary_cbor (\<lambda>s. mget s) (d, k) [([0x61], [1])]
    \<and> writeWalEntry unary_cbor (put_entry ([0x62], [2])) (d, k) = (r, (d1, k))
    \<and> kv_Initialize unary_cbor (diskv_Put map_diskv) (diskv_Get map_diskv) (restart d1, k) = (Ok (), s')
    \<and> kv_Get (diskv_Get map_diskv) [0x62] s' = (Ok (Some [2]), s')"
proof -
  obtain d k where s: "kv_rep unary_cbor (\<lambda>s. mget s) (d, k) [([0x61], [1])]"
    "maxPageSize d = 4096" "curCollection d + 1 < 2 ^ 63" using sample_store by blast
  have f: "fits unary_cbor d ([0x62], [2])" using witness_fits[of "[0x62]" "[2]"] s(2)
    by (simp add: fits_def NewDiskWal_def)
  obtain d1 L L1 rc where w: "writeWalEntry unary_cbor (put_entry ([0x62], [2])) (d, k) = (Ok (curPosition d1), (d1, k))"
      "page_step d L [rc] d1 L1"
    using kvs.writeWalEntry_run[OF s(1) f s(3)] by blast
  have run: "(store_run unary_cbor (diskv_Put map_diskv) (diskv_Get map_diskv))\<^sup>*\<^sup>* (((d, k), []), [([0x61], [1])])
      (((d1, k), [([0x62], [2], curPosition d1, False)]), [([0x61], [1])] @ [([0x62], [2])])"
    by (intro r_into_rtranclp store_run.put put_step.log[OF w(1) user_key_letter(2)]) (use f s(3) in simp_all)
  obtain b where b: "marshalSeq unary_cbor (curPosition d) = Ok b" "mget k VersionKey = Some b"
    using s(1) by (auto simp: kv_rep_def)
  have "readVersion unary_cbor (diskv_Get map_diskv) (d1, k) = (Ok (Some (curPosition d)), (d1, k))"
    using b kvs.seq_back[OF b(1)] by (simp add: kvs.readVersion_run)
  moreover have "curPosition d < curPosition d1" using w(2) by (simp add: page_step_def)
  ultimately show ?thesis
    using crash_keeps_concurrent_changes[OF map_diskv_library unary_cbor_ok s(1) _ run] s(1) w(1)
    by (fastforce simp: map_of_append)
qed

text \<open>
  C35: the two values can differ with every change acknowledged. From a store with at least one
  change, two changes of one key can overtake each other so that both return, the store reads the
  first one, and after a restart with nothing under way it reads the second.
\<close>

theorem unlocked_puts_diverge:
  assumes "diskv_library D contents" "cbor_ok C" "kv_rep C contents (d, k) es" "es \<noteq> []" "user_key key"
    and "fits C d (key, v1)" "fits C d (key, v2)" "curCollection d + 2 < 2 ^ 63"
  shows "\<exists>s s'. (put_step C (diskv_Put D))\<^sup>*\<^sup>* (((d, k), []), es) ((s, []), es @ [(key, v1), (key, v2)])
    \<and> kv_Get (diskv_Get D) key s = (Ok (Some v1), s)
    \<and> kv_Initialize C (diskv_Put D) (diskv_Get D) (restart (fst s), snd s) = (Ok (), s')
    \<and> kv_Get (diskv_Get D) key s' = (Ok (Some v2), s')"
  by (rule kv_service.overtaking[OF serviceI[OF assms(1,2)] assms(3-8)])

theorem unlocked_puts_diverge_witness:
  "\<exists>d k s s'. (put_step unary_cbor (diskv_Put map_diskv))\<^sup>*\<^sup>* (((d, k), []), [([0x61], [1])])
      ((s, []), [([0x61], [1]), ([0x62], [7]), ([0x62], [8])])
    \<and> kv_Get (diskv_Get map_diskv) [0x62] s = (Ok (Some [7]), s)
    \<and> kv_Initialize unary_cbor (diskv_Put map_diskv) (diskv_Get map_diskv) (restart (fst s), snd s) = (Ok (), s')
    \<and> kv_Get (diskv_Get map_diskv) [0x62] s' = (Ok (Some [8]), s')"
proof -
  obtain d k where s: "kv_rep unary_cbor (\<lambda>s. mget s) (d, k) [([0x61], [1])]"
    "maxPageSize d = 4096" "curCollection d + 2 < 2 ^ 63" using sample_store by blast
  have f: "fits unary_cbor d ([0x62], [x])" for x using witness_fits[of "[0x62]" "[x]"] s(2)
    by (simp add: fits_def NewDiskWal_def)
  show ?thesis
    using unlocked_puts_diverge[OF map_diskv_library unary_cbor_ok s(1) _ user_key_letter(2) f f s(3), of 7 8]
    unfolding append.simps by blast
qed

end
