(* ===== verification/Kv_Snapshot.thy ===== *)
theory Kv_Snapshot
  imports Kv_Service
begin

text \<open>
  Snapshots of the durable store (\<open>LatestSnapshotData\<close> of \<open>internal/service/solestorage.go\<close> and
  \<open>internal/storage/impl.diskv.go\<close>): what they hold, and what a storage holds into which the
  entries of one are put, as \<open>applySnapshotAndIncrementalFn\<close> of \<open>internal/service/spskv.go\<close> does.
\<close>

section \<open>Listing the keys\<close>

text \<open>The documented behaviour of the call that lists a \<open>diskv\<close>: the keys that have a value.\<close>

locale diskv_listing = diskv_library D contents
  for D :: "'v diskv" and contents :: "'v \<Rightarrow> bytes \<Rightarrow> bytes option" +
  assumes Keys: "\<exists>ks. dv_Keys D s = (Ok ks, s) \<and> set ks = {k. contents s k \<noteq> None}"
begin

lemma snapshotEntries_run:
  assumes "\<forall>k \<in> set ks. valid_key k \<and> contents s k \<noteq> None"
  shows "snapshotEntries (diskv_Get D) ks s
    = (Ok (map (\<lambda>k. (k, the (contents s k))) (filter (\<lambda>k. k \<noteq> VersionKey) ks)), s)"
  using assms by (induction ks) (auto simp: returnS_def bindS_def get_valid)

text \<open>Over a storage that holds well-formed keys only, a snapshot is all of it but the version.\<close>

lemma snapshot_run:
  assumes "\<forall>k. contents s k \<noteq> None \<longrightarrow> valid_key k"
  shows "\<exists>us. diskv_LatestSnapshotData D term s = (Ok (map (\<lambda>k. (k, the (contents s k))) us), s)
    \<and> set us = {k. contents s k \<noteq> None \<and> k \<noteq> VersionKey}"
proof -
  obtain ks where ks: "dv_Keys D s = (Ok ks, s)" "set ks = {k. contents s k \<noteq> None}" using Keys by blast
  have ok: "\<forall>k \<in> set ks. valid_key k \<and> contents s k \<noteq> None" using assms ks(2) by auto
  have "takeWhile (\<lambda>key. key \<noteq> []) ks = ks" using ok by (auto simp: takeWhile_eq_all_conv valid_key_def)
  then have "diskv_LatestSnapshotData D term s
      = (Ok (map (\<lambda>k. (k, the (contents s k))) (filter (\<lambda>k. k \<noteq> VersionKey) ks)), s)"
    by (simp add: diskv_LatestSnapshotData_def bindS_def ks(1) snapshotEntries_run[OF ok] del: takeWhile_eq_all_conv)
  then show ?thesis using ks(2) by (intro exI[of _ "filter (\<lambda>k. k \<noteq> VersionKey) ks"]) auto
qed

text \<open>Putting the entries of a snapshot into a storage.\<close>

lemma put_entries:
  "\<forall>e \<in> set es. valid_key (fst e) \<Longrightarrow>
    \<exists>s'. forEach (\<lambda>e. diskv_Put D (fst e) (snd e)) es s = (Ok (), s') \<and> contents s' = contents s ++ map_of (rev es)"
proof (induction es arbitrary: s)
  case (Cons e es)
  obtain s1 where s1: "diskv_Put D (fst e) (snd e) s = (Ok (), s1)" "contents s1 = (contents s)(fst e \<mapsto> snd e)"
    using put_valid Cons.prems by (meson list.set_intros(1))
  obtain s' where "forEach (\<lambda>e. diskv_Put D (fst e) (snd e)) es s1 = (Ok (), s')" "contents s' = contents s1 ++ map_of (rev es)"
    using Cons.IH[of s1] Cons.prems by auto
  then show ?case using s1 by (cases e) (auto simp: bindS_def)
qed (simp add: returnS_def)

end

interpretation mapdl: diskv_listing map_diskv "\<lambda>s. mget s"
proof
  show "\<exists>ks. dv_Keys map_diskv s = (Ok ks, s) \<and> set ks = {k. mget s k \<noteq> None}" for s
    by (auto simp: map_diskv_def map_of_eq_None_iff)
qed

lemma map_diskv_listing: "diskv_listing map_diskv (\<lambda>s. mget s)"
  by (rule mapdl.diskv_listing_axioms)

section \<open>Snapshots of the store\<close>

text \<open>The keys of a store with a history are the version and keys of its clients.\<close>

lemma kv_rep_keys: "kv_rep C cont (d, k) es \<Longrightarrow> cont k key \<noteq> None \<Longrightarrow> valid_key key"
proof (cases "key = VersionKey")
  case False
  assume "kv_rep C cont (d, k) es" "cont k key \<noteq> None"
  with False have "map_of (rev es) key \<noteq> None" "\<forall>e \<in> set es. user_key (fst e)" by (auto simp: kv_rep_def)
  then show ?thesis by (fastforce simp: user_key_def dest!: map_of_SomeD)
qed (simp add: VersionKey_valid)

text \<open>
  C19: a snapshot is the store. Over a storage with any history it succeeds, changes nothing and
  carries the position of the log; a storage without entries, on any node, into which its entries
  are put one by one then answers a read of every user key with the last value of the history.
\<close>

theorem snapshot_copies_store:
  assumes "diskv_listing D contents" "cbor_ok C" "kv_rep C contents (d, k) es" "es \<noteq> []"
    and "\<forall>x. contents k0 x = None"
  shows "\<exists>sn k'. kv_LatestSnapshotData C (diskv_Get D) (diskv_LatestSnapshotData D) term (d, k) = (Ok sn, (d, k))
    \<and> SnapshotSequenceId sn = curPosition d
    \<and> forEach (\<lambda>e. diskv_Put D (fst e) (snd e)) (Entries sn) k0 = (Ok (), k')
    \<and> (\<forall>key. user_key key \<longrightarrow> diskv_Get D key k' = (Ok (map_of (rev es) key), k'))"
proof -
  have lib: "diskv_library D contents" using assms(1) by (rule diskv_listing.axioms(1))
  note svc = serviceI[OF lib assms(2)]
  let ?val = "\<lambda>key. (key, the (contents k key))"
  have keys: "\<forall>key. contents k key \<noteq> None \<longrightarrow> valid_key key" using kv_rep_keys[OF assms(3)] by blast
  obtain us where us: "diskv_LatestSnapshotData D term k = (Ok (map ?val us), k)"
      "set us = {key. contents k key \<noteq> None \<and> key \<noteq> VersionKey}"
    using diskv_listing.snapshot_run[OF assms(1) keys] by blast
  obtain b where "marshalSeq C (curPosition d) = Ok b" "contents k VersionKey = Some b"
    using assms(3,4) by (auto simp: kv_rep_def)
  then have ver: "readVersion C (diskv_Get D) (d, k) = (Ok (Some (curPosition d)), (d, k))"
    using kv_service.readVersion_run[OF svc] kv_service.seq_back[OF svc] by simp
  let ?sn = "\<lparr>SnapshotSequenceId = curPosition d, Entries = map ?val us\<rparr>"
  have "kv_LatestSnapshotData C (diskv_Get D) (diskv_LatestSnapshotData D) term (d, k) = (Ok ?sn, (d, k))"
    by (simp add: kv_LatestSnapshotData_def bindS_def ver onSnd_def us(1) returnS_def Let_def)
  moreover obtain k' where k': "forEach (\<lambda>e. diskv_Put D (fst e) (snd e)) (Entries ?sn) k0 = (Ok (), k')"
      "contents k' = contents k0 ++ map_of (rev (map ?val us))"
    using diskv_listing.put_entries[OF assms(1), of "map ?val us" k0] us(2) keys by auto
  moreover have "diskv_Get D key k' = (Ok (map_of (rev es) key), k')" if "user_key key" for key
  proof -
    have "contents k' key = contents k key"
      using assms(5) us(2) that by (auto simp: k'(2) rev_map map_of_map_restrict restrict_map_def map_add_def user_key_def split: option.splits)
    also have "\<dots> = map_of (rev es) key" using assms(3) that by (auto simp: kv_rep_def user_key_def)
    finally show ?thesis
      using kv_backend.get_valid[OF kv_service.axioms(1)[OF svc]] that by (simp add: user_key_def)
  qed
  ultimately show ?thesis by (intro exI[of _ ?sn] exI[of _ k']) simp
qed

theorem snapshot_copies_store_witness:
  "\<exists>d k sn k'. kv_rep unary_cbor (\<lambda>s. mget s) (d, k) [([0x61], [1])]
    \<and> kv_LatestSnapshotData unary_cbor (diskv_Get map_diskv) (diskv_LatestSnapshotData map_diskv) 1 (d, k) = (Ok sn, (d, k))
    \<and> forEach (\<lambda>e. diskv_Put map_diskv (fst e) (snd e)) (Entries sn) [] = (Ok (), k')
    \<and> diskv_Get map_diskv [0x61] k' = (Ok (Some [1]), k')"
proof -
  obtain d k where s: "kv_rep unary_cbor (\<lambda>s. mget s) (d, k) [([0x61], [1])]" using sample_store by blast
  show ?thesis
    using snapshot_copies_store[OF map_diskv_listing unary_cbor_ok s, of "[]" 1] s user_key_letter(1) by fastforce
qed

end
