(* ===== verification/Kv_Disk.thy ===== *)
theory Kv_Disk
  imports Kv_Store
begin

text \<open>
  How the durable store is opened (\<open>NewDiskvStroage\<close> of \<open>internal/storage/impl.diskv.go\<close>,
  \<open>NewKVStorageAdv\<close> of \<open>internal/service/solestorage.go\<close>), with the function that chooses the
  directory of a key from the standard library's SHA-256: four digits, for every key.
\<close>

unbundle bit_operations_syntax

section \<open>SHA-256\<close>

type_synonym w32 = "32 word"

definition sha_rotr :: "nat \<Rightarrow> w32 \<Rightarrow> w32" where
  "sha_rotr n x = drop_bit n x OR push_bit (32 - n) x"

definition sha_init :: "w32 list" where
  "sha_init =
    [0x6A09E667, 0xBB67AE85, 0x3C6EF372, 0xA54FF53A, 0x510E527F, 0x9B05688C, 0x1F83D9AB, 0x5BE0CD19]"

definition sha_consts :: "w32 list" where
  "sha_consts =
    [0x428A2F98, 0x71374491, 0xB5C0FBCF, 0xE9B5DBA5, 0x3956C25B, 0x59F111F1, 0x923F82A4, 0xAB1C5ED5,
     0xD807AA98, 0x12835B01, 0x243185BE, 0x550C7DC3, 0x72BE5D74, 0x80DEB1FE, 0x9BDC06A7, 0xC19BF174,
     0xE49B69C1, 0xEFBE4786, 0x0FC19DC6, 0x240CA1CC, 0x2DE92C6F, 0x4A7484AA, 0x5CB0A9DC, 0x76F988DA,
     0x983E5152, 0xA831C66D, 0xB00327C8, 0xBF597FC7, 0xC6E00BF3, 0xD5A79147, 0x06CA6351, 0x14292967,
     0x27B70A85, 0x2E1B2138, 0x4D2C6DFC, 0x53380D13, 0x650A7354, 0x766A0ABB, 0x81C2C92E, 0x92722C85,
     0xA2BFE8A1, 0xA81A664B, 0xC24B8B70, 0xC76C51A3, 0xD192E819, 0xD6990624, 0xF40E3585, 0x106AA070,
     0x19A4C116, 0x1E376C08, 0x2748774C, 0x34B0BCB5, 0x391C0CB3, 0x4ED8AA4A, 0x5B9CCA4F, 0x682E6FF3,
     0x748F82EE, 0x78A5636F, 0x84C87814, 0x8CC70208, 0x90BEFFFA, 0xA4506CEB, 0xBEF9A3F7, 0xC67178F2]"

text \<open>The message with a one bit, zeros and its length in bits, in blocks of sixteen big-endian words.\<close>

definition sha_pad :: "bytes \<Rightarrow> bytes" where
  "sha_pad m =
     m @ [0x80] @ replicate ((119 - length m mod 64) mod 64) 0
     @ map (\<lambda>i. ucast (drop_bit i (word_of_nat (8 * length m) :: 64 word))) [56, 48, 40, 32, 24, 16, 8, 0]"

fun sha_words :: "bytes \<Rightarrow> w32 list" where
  "sha_words (a # b # c # d # bs) =
     (push_bit 24 (ucast a) OR push_bit 16 (ucast b) OR push_bit 8 (ucast c) OR ucast d) # sha_words bs"
| "sha_words _ = []"

text \<open>The schedule keeps the last sixteen words, oldest first.\<close>

definition sha_next :: "w32 list \<Rightarrow> w32" where
  "sha_next w =
     (let s0 = sha_rotr 7 (w ! 1) XOR sha_rotr 18 (w ! 1) XOR drop_bit 3 (w ! 1);
          s1 = sha_rotr 17 (w ! 14) XOR sha_rotr 19 (w ! 14) XOR drop_bit 10 (w ! 14)
      in w ! 0 + s0 + w ! 9 + s1)"

definition sha_mix :: "w32 \<Rightarrow> w32 list \<Rightarrow> w32 list" where
  "sha_mix kw s =
     (case s of [a, b, c, d, e, f, g, h] \<Rightarrow>
        let t1 = h + (sha_rotr 6 e XOR sha_rotr 11 e XOR sha_rotr 25 e) + ((e AND f) XOR (NOT e AND g)) + kw;
            t2 = (sha_rotr 2 a XOR sha_rotr 13 a XOR sha_rotr 22 a) + ((a AND b) XOR (a AND c) XOR (b AND c))
        in [t1 + t2, a, b, c, d + t1, e, f, g]
      | _ \<Rightarrow> s)"

fun sha_rounds :: "w32 list \<Rightarrow> w32 list \<Rightarrow> w32 list \<Rightarrow> w32 list" where
  "sha_rounds [] w s = s"
| "sha_rounds (k # ks) w s = sha_rounds ks (tl w @ [sha_next w]) (sha_mix (k + hd w) s)"

fun sha_blocks :: "nat \<Rightarrow> w32 list \<Rightarrow> w32 list \<Rightarrow> w32 list" where
  "sha_blocks 0 ws s = s"
| "sha_blocks (Suc n) ws s = sha_blocks n (drop 16 ws) (map2 (+) s (sha_rounds sha_consts (take 16 ws) s))"

definition sha256_Sum256 :: "bytes \<Rightarrow> bytes" where
  "sha256_Sum256 m =
     (let ws = sha_words (sha_pad m)
      in concat (map (\<lambda>x. map (\<lambda>i. ucast (drop_bit i x)) [24, 16, 8, 0]) (sha_blocks (length ws div 16) ws sha_init)))"

definition hex_EncodeToString :: "bytes \<Rightarrow> string" where
  "hex_EncodeToString bs = concat (map (\<lambda>b. [hex_digit (unat b div 16), hex_digit (unat b mod 16)]) bs)"

section \<open>Opening the store\<close>

definition diskvSha256prefix :: "bytes \<Rightarrow> string" where
  "diskvSha256prefix s = take 4 (hex_EncodeToString (sha256_Sum256 s))"

text \<open>The options of \<open>diskv\<close>, and the call that opens it: library code, like \<open>filepath.Abs\<close>.\<close>

record diskvOptions =
  BasePath :: string
  Transform :: "bytes \<Rightarrow> string list"
  CacheSizeMax :: nat

definition NewDiskvStroage :: "(string \<Rightarrow> string res) \<Rightarrow> (diskvOptions \<Rightarrow> 'v diskv) \<Rightarrow> string \<Rightarrow> 'v diskv res" where
  "NewDiskvStroage Abs New folder =
     bindR (Abs folder) (\<lambda>f.
       Ok (New \<lparr>BasePath = f, Transform = (\<lambda>s. [diskvSha256prefix s]), CacheSizeMax = 1024 * 1024\<rparr>))"

record KVStorageAdvConfig =
  DataFolder :: string
  WalFolder :: string

record 'v KVStorageAdvImpl =
  implWal :: DiskWal
  implKv :: "'v diskv"
  implConfig :: KVStorageAdvConfig

text \<open>The log of a folder starts from what is in it.\<close>

definition NewKVStorageAdv ::
  "(string \<Rightarrow> string res) \<Rightarrow> (diskvOptions \<Rightarrow> 'v diskv) \<Rightarrow> (string \<Rightarrow> (string, bytes) gomap)
    \<Rightarrow> KVStorageAdvConfig \<Rightarrow> 'v KVStorageAdvImpl res" where
  "NewKVStorageAdv Abs New folder cfg =
     bindR (NewDiskvStroage Abs New (DataFolder cfg)) (\<lambda>s.
       Ok \<lparr>implWal = NewDiskWal (folder (WalFolder cfg)) [], implKv = s, implConfig = cfg\<rparr>)"

section \<open>The directory of a key\<close>

lemma sha256_length: "length (sha256_Sum256 m) = 32"
proof -
  have mix: "length s = 8 \<Longrightarrow> length (sha_mix kw s) = 8" for kw s
    by (auto simp: sha_mix_def Let_def numeral_nat length_Suc_conv)
  have "length s = 8 \<Longrightarrow> length (sha_rounds ks w s) = 8" for ks w s
    by (induction ks w s rule: sha_rounds.induct) (simp_all add: mix)
  then have "length s = 8 \<Longrightarrow> length (sha_blocks n ws s) = 8" for n ws s
    by (induction n ws s rule: sha_blocks.induct) simp_all
  moreover have "length sha_init = 8" by (simp add: sha_init_def)
  moreover have "length (concat (map (\<lambda>x. map (\<lambda>i. ucast (drop_bit i x) :: byte) [24, 16, 8, 0]) xs)) = 4 * length xs" for xs :: "w32 list"
    by (induction xs) simp_all
  ultimately show ?thesis by (simp add: sha256_Sum256_def Let_def)
qed

text \<open>The directory of a key is four digits in lower case, so it has no separator and stays in the folder.\<close>

lemma prefix_digits: "length (diskvSha256prefix s) = 4 \<and> set (diskvSha256prefix s) \<subseteq> set ''0123456789abcdef''"
proof -
  have "length (hex_EncodeToString bs) = 2 * length bs" for bs
    by (induction bs) (simp_all add: hex_EncodeToString_def)
  then have len: "length (hex_EncodeToString (sha256_Sum256 s)) = 64" by (simp add: sha256_length)
  have digit: "n < 16 \<Longrightarrow> hex_digit n \<in> set ''0123456789abcdef''" for n
    using nth_mem[of n "''0123456789abcdef''"] by (simp add: hex_digit_def)
  have "set (hex_EncodeToString bs) \<subseteq> set ''0123456789abcdef''" for bs
  proof (induction bs)
    case (Cons b bs)
    have "unat b < 2 ^ LENGTH(8)" by (rule unsigned_less)
    then have b: "unat b div 16 < 16" "unat b mod 16 < 16" by simp_all
    have "hex_EncodeToString (b # bs) = hex_digit (unat b div 16) # hex_digit (unat b mod 16) # hex_EncodeToString bs"
      by (simp add: hex_EncodeToString_def)
    then show ?case using Cons digit[OF b(1)] digit[OF b(2)] by (simp only: list.set insert_subset simp_thms)
  qed (simp add: hex_EncodeToString_def)
  then have "set (diskvSha256prefix s) \<subseteq> set ''0123456789abcdef''"
    unfolding diskvSha256prefix_def by (rule subset_trans[OF set_take_subset])
  then show ?thesis using len by (simp only: diskvSha256prefix_def length_take simp_thms)
qed

end
