(* ===== verification/Ha_Cluster.thy ===== *)
theory Ha_Cluster
  imports Ha_Link
begin

text \<open>
  The following worker (\<open>PeerSyncWorker\<close> of \<open>core.ha.go\<close>) connected to the node it follows: its
  calls reach the routes of that node over a network that may lose a request or an answer. Every
  run of the two is a run of the link of \<open>Ha_Link\<close>, so the worker inherits its properties: a round
  with a full request makes the copy exact, incremental rounds keep it exact, and the worker
  comes back to a full request after a bounded number of rounds, whatever the network does.
\<close>

section \<open>The network\<close>

text \<open>What becomes of a call; with no fate left in the list it is delivered.\<close>

datatype fate = Delivered | LostRequest | LostAnswer

record peer_net =
  netHa :: HaModule
  netStore :: MemStore
  netFates :: "fate list"

definition answer :: "wire HttpResponse \<Rightarrow> net" where
  "answer resp = NetResp (Status resp) (case Body resp of Some w \<Rightarrow> w | None \<Rightarrow> WBad)"

text \<open>The node that listens under \<open>base\<close>. A handler that fails closes the connection.\<close>

definition peerDo :: "wire unrouted \<Rightarrow> string \<Rightarrow> int \<Rightarrow> string \<Rightarrow> string \<Rightarrow> HttpRequest \<Rightarrow> (peer_net, net) prog" where
  "peerDo other base now meth u r n =
     (let n0 = n\<lparr>netFates := tl (netFates n)\<rparr>; fate = (case netFates n of [] \<Rightarrow> Delivered | f # _ \<Rightarrow> f) in
      if fate = LostRequest \<or> \<not> HasPrefix u base then (Ok (NetErr (OsError ''connection refused'')), n0)
      else case ServeHTTP other now meth (drop (length base) u) r (netHa n, netStore n) of
        (out, (ha, m)) \<Rightarrow>
          (Ok (case out of
                 Ok resp \<Rightarrow> if fate = LostAnswer then NetErr (OsError ''timeout'') else answer resp
               | _ \<Rightarrow> NetErr (OsError ''EOF'')),
           n0\<lparr>netHa := ha, netStore := m\<rparr>))"

text \<open>The router itself never answers 200, except to \<open>OPTIONS\<close>.\<close>

definition unrouted_ok :: "wire unrouted \<Rightarrow> bool" where
  "unrouted_ok other \<longleftrightarrow> (\<forall>meth path. meth \<noteq> ''OPTIONS'' \<longrightarrow> Status (other meth path) \<noteq> 200)"

abbreviation peerLib :: "peer_net halib \<Rightarrow> wire unrouted \<Rightarrow> string \<Rightarrow> int \<Rightarrow> peer_net halib" where
  "peerLib H other base now \<equiv> H\<lparr>Do := peerDo other base now\<rparr>"

section \<open>One call\<close>

lemma innerUrlResolve_Do [simp]: "innerUrlResolve (H\<lparr>Do := D\<rparr>) nested m addr = innerUrlResolve H nested m addr"
  by (simp add: innerUrlResolve_def cong: res.case_cong)

lemmas path_defs = HttpAuth_def HttpFull_def HttpIncremental_def

lemma routes_simps [simp]:
  "mget clusterRoutes (''POST'', HttpAuth) = Some httpClusterAuth"
  "mget clusterRoutes (''GET'', HttpFull) = Some httpClusterFull"
  "mget clusterRoutes (''GET'', HttpIncremental) = Some httpClusterIncremental"
  by (simp_all add: clusterRoutes_def path_defs)

lemma routes_path: "mget clusterRoutes (meth, p) = Some h \<Longrightarrow> p \<in> {HttpAuth, HttpFull, HttpIncremental} \<and> meth \<noteq> ''OPTIONS''"
  by (auto simp: clusterRoutes_def split: if_splits)

lemma same_path:
  assumes "u @ p = b @ p'" "p \<in> {HttpAuth, HttpFull, HttpIncremental}" "p' \<in> {HttpAuth, HttpFull, HttpIncremental}"
  shows "p = p' \<and> u = b"
proof -
  have "rev p @ rev u = rev p' @ rev b" using arg_cong[OF assms(1), of rev] by simp
  then have "p = p'" using assms(2,3) by (auto simp: path_defs)
  then show ?thesis using assms(1) by simp
qed

text \<open>The server answers every request.\<close>

lemma httpClusterAuth_run:
  "httpClusterAuth now r (ha, m) =
     (let n = FormValue r ''from''; ha' = ha\<lparr>ClientPeerMapping := mput n now (ClientPeerMapping ha)\<rparr> in
      if n = [] then (Ok (respond 400), (ha, m))
      else (Ok (respond (if clusterMismatch ha r then 401 else 200)), (ha', m)))"
  by (simp add: httpClusterAuth_def Let_def tryS_def onFst_def updateClientTime_run run_simps)

lemma handlers_answer:
  "mget clusterRoutes (meth, p) = Some h \<Longrightarrow> \<exists>resp. fst (h now r (ha, m)) = Ok resp"
  by (auto simp: clusterRoutes_def httpClusterAuth_run httpClusterFull_run httpClusterIncremental_run Let_def
      split: if_splits option.splits)

text \<open>A call reaches the handler of its path or leaves the peer as it was.\<close>

lemma callPeer_served:
  assumes "callPeer (peerLib H other base now) nested ha meth addr path failure (m, n) = (out, (m', n'))"
    and "unrouted_ok other" and h: "mget clusterRoutes (meth, path) = Some h"
  shows "m' = m \<and>
    ((netHa n', netStore n') = (netHa n, netStore n) \<and> (\<forall>w. out \<noteq> Ok w)
     \<or> (\<exists>resp. h now (clusterRequest ha) (netHa n, netStore n) = (Ok resp, (netHa n', netStore n'))
        \<and> (\<forall>w. out = Ok w \<longrightarrow> answer resp = NetResp 200 w)))"
proof (cases "innerUrlResolve H nested m addr")
  case (Ok u)
  let ?r = "clusterRequest ha" and ?p = "drop (length base) (u @ path)"
  have "\<exists>x n1. peerDo other base now meth (u @ path) ?r n = (Ok x, n1)"
    by (simp add: peerDo_def Let_def split: prod.splits)
  then obtain x n1 where d: "peerDo other base now meth (u @ path) ?r n = (Ok x, n1)" by blast
  have out: "m' = m" "n' = n1" "out = (case x of NetErr e \<Rightarrow> Err e | NetResp code body \<Rightarrow> if code \<noteq> 200 then Err (ErrorMsg failure) else Ok body)"
    using assms(1) Ok d by (auto simp: callPeer_def run_simps onSnd_def failS_def split: net.splits if_splits)
  show ?thesis
  proof (cases "HasPrefix (u @ path) base \<and> mget clusterRoutes (meth, ?p) \<noteq> None")
    case True
    then obtain h' where h': "mget clusterRoutes (meth, ?p) = Some h'" by blast
    have "u @ path = base @ ?p" using True by (metis HasPrefix_def append_take_drop_id)
    then have "?p = path" using same_path routes_path[OF h] routes_path[OF h'] by metis
    then have sv: "ServeHTTP other now meth ?p ?r (netHa n, netStore n) = h now ?r (netHa n, netStore n)"
      using h by (simp add: ServeHTTP_def routerServe_def)
    obtain resp sh s where "h now ?r (netHa n, netStore n) = (Ok resp, (sh, s))"
      using handlers_answer[OF h] by (metis prod.collapse)
    then show ?thesis
      using d sv out by (auto simp: peerDo_def Let_def answer_def split: if_splits list.splits net.splits option.splits)
  next
    case False
    then show ?thesis
      using d out assms(2) routes_path[OF h]
      by (auto simp: peerDo_def Let_def answer_def ServeHTTP_def routerServe_def returnS_def unrouted_ok_def
          split: if_splits list.splits net.splits option.splits)
  qed
qed (use assms(1) in \<open>auto simp: callPeer_def run_simps\<close>)

lemma callPeer_delivered:
  assumes "innerUrlResolve H nested m addr = Ok base" "mget clusterRoutes (meth, path) = Some h"
    and "h now (clusterRequest ha) (sh, s) = (Ok \<lparr>Status = 200, Body = b\<rparr>, (sh', s'))"
  shows "callPeer (peerLib H other base now) nested ha meth addr path failure
      (m, \<lparr>netHa = sh, netStore = s, netFates = []\<rparr>)
    = (Ok (case b of Some w \<Rightarrow> w | None \<Rightarrow> WBad), (m, \<lparr>netHa = sh', netStore = s', netFates = []\<rparr>))"
  using assms
  by (simp add: callPeer_def run_simps onSnd_def peerDo_def HasPrefix_def ServeHTTP_def routerServe_def answer_def)

section \<open>The worker and its peer\<close>

text \<open>
  The state: the phase of the worker and the store of its node, and the module and the store of
  the peer. Between the rounds of the worker both stores go on, the peer runs its health check
  and serves requests of other nodes, or requests with wrong credentials.
\<close>

type_synonym cluster = "phase \<times> MemStore \<times> HaModule \<times> MemStore"

inductive cluster_step ::
  "wire unrouted \<Rightarrow> peer_net halib \<Rightarrow> resolver list \<Rightarrow> HaModule \<Rightarrow> string \<Rightarrow> string \<Rightarrow> string \<Rightarrow> cluster \<Rightarrow> cluster \<Rightarrow> bool"
  for other H nested ha addr base node where
  round: "PeerSyncWorker (peerLib H other base now) nested ha addr node rand ph (d, \<lparr>netHa = sh, netStore = s, netFates = fates\<rparr>)
      = (Ok ph', (d', n)) \<Longrightarrow> 0 \<le> rand \<Longrightarrow> rand < 20 \<Longrightarrow>
    cluster_step other H nested ha addr base node (ph, d, sh, s) (ph', d', netHa n, netStore n)"
| source: "store_step (haNodeId ha) s s' \<Longrightarrow>
    cluster_step other H nested ha addr base node (ph, d, sh, s) (ph, d, sh, s')"
| follower: "other_step node d d' \<Longrightarrow>
    cluster_step other H nested ha addr base node (ph, d, sh, s) (ph, d', sh, s)"
| health: "CheckPeerHealth now (sh, s) = (r, (sh', s')) \<Longrightarrow>
    cluster_step other H nested ha addr base node (ph, d, sh, s) (ph, d, sh', s')"
| request: "ServeHTTP other now meth path r (sh, s) = (x, (sh', s')) \<Longrightarrow>
    FormValue r ''from'' \<noteq> haNodeId ha \<or> clusterMismatch sh r \<Longrightarrow>
    cluster_step other H nested ha addr base node (ph, d, sh, s) (ph, d, sh', s')"

definition linked :: "string \<Rightarrow> string \<Rightarrow> HaModule \<Rightarrow> cluster \<Rightarrow> link \<Rightarrow> bool" where
  "linked node peer sh0 c l \<longleftrightarrow> (link_step node peer)\<^sup>*\<^sup>* (newLink sh0) l \<and> flight l = None
     \<and> (dst l, srcHa l, src l) = snd c"

text \<open>Steps of the link that the parts of a round take.\<close>

lemma link_more: "(link_step node peer)\<^sup>*\<^sup>* (newLink sh0) l \<Longrightarrow> link_step node peer l l' \<Longrightarrow> (link_step node peer)\<^sup>*\<^sup>* (newLink sh0) l'"
  by (rule rtranclp.rtrancl_into_rtrancl)

lemma linked_peers:
  assumes "linked node peer sh0 (ph, d, sh, s) l" "sh' = sh \<or> (\<exists>cm. sh' = sh\<lparr>ClientPeerMapping := cm\<rparr>)"
  shows "\<exists>l'. linked node peer sh0 (ph', d, sh', s) l' \<and> (good l \<longrightarrow> good l')"
proof -
  have "link_step node peer l (l\<lparr>srcHa := (srcHa l)\<lparr>ClientPeerMapping := cm\<rparr>\<rparr>)" for cm by (rule link_step.peers)
  then show ?thesis
    using assms link_more[of node peer sh0 l]
    by (auto simp: linked_def intro: exI[of _ l] exI[of _ "l\<lparr>srcHa := (srcHa l)\<lparr>ClientPeerMapping := cm\<rparr>\<rparr>" for cm])
qed

lemma linked_source:
  assumes "linked node peer sh0 (ph, d, sh, s) l" "store_step peer s s'"
  shows "\<exists>l'. linked node peer sh0 (ph', d, sh, s') l' \<and> (good l \<longrightarrow> good l')"
  using assms link_more[of node peer sh0 l "l\<lparr>src := s'\<rparr>"] link_step.source[of peer l s' node]
  by (auto simp: linked_def intro!: exI[of _ "l\<lparr>src := s'\<rparr>"])

lemma linked_unwatch:
  assumes "linked node peer sh0 (ph, d, sh, s) l" "Unwatch n s = (r, s')"
  shows "\<exists>l'. linked node peer sh0 (ph', d, sh, s') l' \<and> (good l \<and> n \<noteq> peer \<longrightarrow> good l')"
proof (cases "n = peer")
  case True
  then have "link_step node peer l (l\<lparr>src := s', good := False, valid := False\<rparr>)"
    using assms by (intro link_step.unwatch[of _ _ r]) (auto simp: linked_def)
  then have "(link_step node peer)\<^sup>*\<^sup>* (newLink sh0) (l\<lparr>src := s', good := False, valid := False\<rparr>)"
    using assms(1) link_more by (auto simp: linked_def)
  then show ?thesis
    using assms(1) True by (intro exI[of _ "l\<lparr>src := s', good := False, valid := False\<rparr>"]) (simp add: linked_def)
next
  case False
  then show ?thesis using linked_source[OF assms(1), of s'] store_step.unwatch[OF assms(2)] by blast
qed

lemma linked_unwatches:
  assumes "linked node peer sh0 (ph, d, sh, s) l"
    and "forEach (\<lambda>n. tryS (onSnd (Unwatch n)) returnS (\<lambda>err. returnS ())) ns (x, s) = (r, (x', s'))"
  shows "x' = x \<and> r = Ok () \<and> (\<exists>l'. linked node peer sh0 (ph, d, sh, s') l' \<and> (good l \<and> peer \<notin> set ns \<longrightarrow> good l'))"
  using assms
proof (induction ns arbitrary: s l)
  case Nil
  then show ?case by (auto simp: returnS_def)
next
  case (Cons n ns)
  obtain s1 where s1: "Unwatch n s = (Ok (), s1)" by (simp add: Unwatch_def modifyS_def)
  have t: "tryS (onSnd (Unwatch n)) returnS (\<lambda>err. returnS ()) (x, s) = (Ok (), (x, s1))"
    by (simp add: tryS_def onSnd_def s1 returnS_def)
  obtain l1 where l1: "linked node peer sh0 (ph, d, sh, s1) l1" "good l \<and> n \<noteq> peer \<longrightarrow> good l1"
    using linked_unwatch[OF Cons.prems(1) s1] by blast
  have "forEach (\<lambda>n. tryS (onSnd (Unwatch n)) returnS (\<lambda>err. returnS ())) ns (x, s1) = (r, (x', s'))"
    using Cons.prems(2) by (simp add: bindS_def t)
  then show ?case using Cons.IH[OF l1(1)] l1(2) by auto
qed

lemma linked_health:
  assumes "linked node peer sh0 (ph, d, sh, s) l" "CheckPeerHealth now (sh, s) = (r, (sh', s'))"
  shows "\<exists>l'. linked node peer sh0 (ph, d, sh', s') l' \<and> (good l \<and> peer \<notin> set (stalePeers now sh) \<longrightarrow> good l')
    \<and> ClientPeerMapping sh' = foldl (\<lambda>cm v. mdel v cm) (ClientPeerMapping sh) (stalePeers now sh)"
proof -
  obtain r1 x1 s1 where f: "forEach (\<lambda>n. tryS (onSnd (Unwatch n)) returnS (\<lambda>err. returnS ())) (stalePeers now sh) (sh, s) = (r1, (x1, s1))"
    by (metis prod.exhaust)
  note u = linked_unwatches[OF assms(1) f]
  have sh': "sh' = sh\<lparr>ClientPeerMapping := foldl (\<lambda>cm v. mdel v cm) (ClientPeerMapping sh) (stalePeers now sh)\<rparr>" "s' = s1"
    using assms(2) f u by (auto simp: CheckPeerHealth_def bindS_def getS_def onFst_def modifyS_def)
  then show ?thesis using u linked_peers[of node peer sh0 ph d sh s1 _ sh' ph] by fastforce
qed

text \<open>A request that is not a granted one of the follower.\<close>

lemma fetch_steps:
  "store_step peer s (snd (FetchFullAndWatch n s))"
  "mget (dataTo s) n = Some c \<Longrightarrow> n \<noteq> peer \<Longrightarrow> store_step peer s (s\<lparr>dataTo := mput n no_changes (dataTo s)\<rparr>)"
  by (rule store_step.fetch_full[OF prod.collapse[symmetric]])
    (rule store_step.fetch_changes[of n s "fst (FetchChangesForPeerNodeRequest n s)"], simp_all add: FetchChanges_run)

lemma linked_request:
  assumes "linked node peer sh0 (ph, d, sh, s) l" "ServeHTTP other now meth path r (sh, s) = (x, (sh', s'))"
    and "FormValue r ''from'' \<noteq> peer \<or> clusterMismatch sh r"
  shows "\<exists>l'. linked node peer sh0 (ph', d, sh', s') l' \<and> (good l \<longrightarrow> good l')"
proof -
  have st: "(sh' = sh \<or> (\<exists>cm. sh' = sh\<lparr>ClientPeerMapping := cm\<rparr>)) \<and> (s' = s \<or> store_step peer s s')"
  proof (cases "mget clusterRoutes (meth, path)")
    case None
    then show ?thesis using assms(2) by (simp add: ServeHTTP_def routerServe_def returnS_def)
  next
    case (Some h)
    then have h: "h now r (sh, s) = (x, (sh', s'))" using assms(2) by (simp add: ServeHTTP_def routerServe_def)
    consider "h = httpClusterAuth" | "h = httpClusterFull" | "h = httpClusterIncremental"
      using Some by (auto simp: clusterRoutes_def split: if_splits)
    then show ?thesis
    proof cases
      case 1
      then show ?thesis using h by (auto simp: httpClusterAuth_run Let_def split: if_splits)
    next
      case 2
      then show ?thesis using h fetch_steps(1) by (auto simp: httpClusterFull_run Let_def split: if_splits)
    next
      case 3
      then show ?thesis
        using h fetch_steps(2)[of s "FormValue r ''from''" _ peer] assms(3)
        by (auto simp: httpClusterIncremental_run Let_def split: if_splits option.splits)
    qed
  qed
  obtain l1 where l1: "linked node peer sh0 (ph', d, sh', s) l1" "good l \<longrightarrow> good l1"
    using linked_peers[OF assms(1) st[THEN conjunct1]] by blast
  from st consider "s' = s" | "store_step peer s s'" by blast
  then show ?thesis
    by cases (use l1 linked_source[OF l1(1), of s' ph'] in blast)+
qed

section \<open>A round as steps of the link\<close>

text \<open>A granted request of the follower is on its way back; it is lost or stored.\<close>

definition in_flight :: "string \<Rightarrow> string \<Rightarrow> HaModule \<Rightarrow> wire \<Rightarrow> MemStore \<times> HaModule \<times> MemStore \<Rightarrow> link \<Rightarrow> bool" where
  "in_flight node peer sh0 w dss l \<longleftrightarrow> (link_step node peer)\<^sup>*\<^sup>* (newLink sh0) l \<and> flight l = Some w \<and> valid l
     \<and> (dst l, srcHa l, src l) = dss"

lemma linked_fetch:
  assumes l: "linked node peer sh0 (ph, d, sh, s) l" and r: "FormValue r ''from'' = peer"
    and h: "h now r (sh, s) = (Ok resp, (sh', s'))" "h = httpClusterFull \<or> h = httpClusterIncremental"
  obtains (refused) l' where "Status resp \<noteq> 200" "linked node peer sh0 (ph', d, sh', s') l'"
  | (granted) w l' where "resp = \<lparr>Status = 200, Body = Some w\<rparr>" "in_flight node peer sh0 w (d, sh', s') l'" "good l' = good l"
proof (cases "Status resp = 200")
  case True
  then obtain w where w: "resp = \<lparr>Status = 200, Body = Some w\<rparr>"
    using h by (auto simp: httpClusterFull_run httpClusterIncremental_run Let_def respond_def split: if_splits option.splits)
  let ?l = "l\<lparr>srcHa := sh', src := s', flight := Some w, valid := True\<rparr>"
  have "link_step node peer l ?l"
    using h l r w link_step.fetch_full[of l r peer now w sh' s' node] link_step.fetch_inc[of l r peer now w sh' s' node]
    by (auto simp: linked_def)
  then have "in_flight node peer sh0 w (d, sh', s') ?l"
    using l link_more by (auto simp: in_flight_def linked_def)
  then show ?thesis using granted[OF w, of ?l] by simp
next
  case False
  then have "s' = s \<and> (sh' = sh \<or> (\<exists>cm. sh' = sh\<lparr>ClientPeerMapping := cm\<rparr>))"
    using h by (auto simp: httpClusterFull_run httpClusterIncremental_run Let_def split: if_splits option.splits)
  then show ?thesis using refused[OF False] linked_peers[OF l, of sh' ph'] by blast
qed

lemma linked_lose:
  assumes "in_flight node peer sh0 w (d, sh, s) l"
  shows "\<exists>l'. linked node peer sh0 (ph, d, sh, s) l'"
  using assms link_more[of node peer sh0 l] link_step.lose[of l w node peer]
  by (intro exI[of _ "l\<lparr>flight := None, good := (good l \<and> is_full w)\<rparr>"]) (auto simp: in_flight_def linked_def)

lemma linked_deliver:
  assumes "in_flight node peer sh0 w (d, sh, s) l" "ProcessSyncWorker (requestOf node w) d = (Ok reply, d')"
  shows "\<exists>l'. linked node peer sh0 (ph, d', sh, s) l' \<and> (is_full w \<or> good l \<longrightarrow> good l')"
  using assms link_more[of node peer sh0 l] link_step.deliver[of l w node reply d' peer]
  by (intro exI[of _ "l\<lparr>dst := d', flight := None, good := (if is_full w then valid l else good l)\<rparr>"])
    (auto simp: in_flight_def linked_def)

lemma linked_abandon:
  assumes "linked node peer sh0 (ph, d, sh, s) l" "Abandon node d = (r, d')"
  shows "\<exists>l'. linked node peer sh0 (ph', d', sh, s) l'"
  using assms link_more[of node peer sh0 l] link_step.abandon[of node l r d' peer]
  by (intro exI[of _ "l\<lparr>dst := d', good := False\<rparr>"]) (auto simp: linked_def)

lemma submit_Ok:
  assumes "submit req next (d, n) = (Ok ph, (d', n'))"
  shows "n' = n \<and> (\<exists>reply. ProcessSyncWorker req d = (Ok reply, d')) \<and> (ph = next \<or> ph = MainLoop)"
  using assms by (auto simp: submit_def bindS_def onFst_def returnS_def split: res.splits prod.splits option.splits)

text \<open>A call of the worker for data, up to what it hands to the storing worker.\<close>

lemma linked_query:
  assumes l: "linked node (haNodeId ha) sh0 (ph, d, sh, s) l" and u: "unrouted_ok other"
    and h: "mget clusterRoutes (meth, path) = Some h" "h = httpClusterFull \<or> h = httpClusterIncremental"
    and c: "callPeer (peerLib H other base now) nested ha meth addr path failure (d, \<lparr>netHa = sh, netStore = s, netFates = fates\<rparr>)
      = (out, (d', n))"
  shows "d' = d \<and> (case out of Ok w \<Rightarrow> (\<exists>l'. in_flight node (haNodeId ha) sh0 w (d, netHa n, netStore n) l' \<and> good l' = good l
        \<and> (h = httpClusterFull \<longrightarrow> is_full w) \<and> (h = httpClusterIncremental \<longrightarrow> (\<exists>a d. w = WInc a d)))
      | _ \<Rightarrow> (\<exists>l'. linked node (haNodeId ha) sh0 (ph', d, netHa n, netStore n) l'))"
proof -
  have r: "FormValue (clusterRequest ha) ''from'' = haNodeId ha" by (simp add: clusterRequest_def)
  have t: "h now r (sh, s) = (Ok \<lparr>Status = 200, Body = Some w\<rparr>, z) \<Longrightarrow>
      (h = httpClusterFull \<longrightarrow> is_full w) \<and> (h = httpClusterIncremental \<longrightarrow> (\<exists>a d. w = WInc a d))" for r w z
    by (auto simp: httpClusterFull_run httpClusterIncremental_run Let_def respond_def split: if_splits option.splits)
  consider (same) "netHa n = sh" "netStore n = s" "\<forall>w. out \<noteq> Ok w"
    | (served) resp where "h now (clusterRequest ha) (sh, s) = (Ok resp, (netHa n, netStore n))"
        "\<forall>w. out = Ok w \<longrightarrow> answer resp = NetResp 200 w"
    using callPeer_served[OF c u h(1)] by auto
  then show ?thesis
  proof cases
    case same
    moreover have "linked node (haNodeId ha) sh0 (ph', d, sh, s) l" using l by (simp add: linked_def)
    ultimately show ?thesis using callPeer_served[OF c u h(1)] by (auto split: res.splits)
  next
    case served
    show ?thesis
    proof (rule linked_fetch[OF l r served(1) h(2), of ph'])
      fix l' assume "Status resp \<noteq> 200" "linked node (haNodeId ha) sh0 (ph', d, netHa n, netStore n) l'"
      then show ?thesis
        using served(2) callPeer_served[OF c u h(1)] by (auto simp: answer_def split: res.splits)
    next
      fix w l' assume w: "resp = \<lparr>Status = 200, Body = Some w\<rparr>"
        and f: "in_flight node (haNodeId ha) sh0 w (d, netHa n, netStore n) l'" "good l' = good l"
      have "out = Ok w' \<Longrightarrow> w' = w" for w' using served(2) w by (simp add: answer_def)
      then show ?thesis
        using f linked_lose[OF f(1), of ph'] t[of "clusterRequest ha" w] served(1) w callPeer_served[OF c u h(1)]
        by (cases out) auto
    qed
  qed
qed

lemma linked_fullRound:
  assumes l: "linked node (haNodeId ha) sh0 (ph, d, sh, s) l" and u: "unrouted_ok other"
    and f: "fullRound (peerLib H other base now) nested ha addr node rc (d, \<lparr>netHa = sh, netStore = s, netFates = fates\<rparr>)
      = (Ok ph', (d', n))"
  shows "\<exists>l'. linked node (haNodeId ha) sh0 (ph', d', netHa n, netStore n) l'"
proof -
  obtain out d1 n1 where c: "callPeer (peerLib H other base now) nested ha ''GET'' addr HttpFull ''cluster full failed''
      (d, \<lparr>netHa = sh, netStore = s, netFates = fates\<rparr>) = (out, (d1, n1))" by (metis prod.exhaust)
  note q = linked_query[OF l u _ _ c, of httpClusterFull ph', simplified]
  show ?thesis
  proof (cases out)
    case (Ok w)
    then obtain l1 where l1: "in_flight node (haNodeId ha) sh0 w (d, netHa n1, netStore n1) l1" "is_full w" "d1 = d"
      using q by auto
    then obtain m where w: "w = WFull m" by (cases w) auto
    have "submit ((newSyncReq node)\<lparr>reqFull := Some m\<rparr>) (NextTrigger 0 rc) (d, n1) = (Ok ph', (d', n))"
      using f c Ok l1(3) w by (simp add: fullRound_def queryFullDataSet_def tryS_def bindS_def liftR_def decodeFull_def)
    then obtain reply where "n = n1" "ProcessSyncWorker (requestOf node w) d = (Ok reply, d')"
      using submit_Ok w by (fastforce simp: requestOf_def)
    then show ?thesis using linked_deliver[OF l1(1)] by blast
  next
    case (Err e)
    then show ?thesis using f c q by (auto simp: fullRound_def queryFullDataSet_def tryS_def bindS_def returnS_def)
  qed (use f c in \<open>simp_all add: fullRound_def queryFullDataSet_def tryS_def bindS_def\<close>)
qed

lemma linked_incRound:
  assumes l: "linked node (haNodeId ha) sh0 (ph, d, sh, s) l" and u: "unrouted_ok other"
    and f: "tryS (queryIncrementalData (peerLib H other base now) nested ha addr)
        (\<lambda>(add, del). submit ((newSyncReq node)\<lparr>reqAdd := add, reqDel := del\<rparr>) nx)
        (\<lambda>err. returnS retry) (d, \<lparr>netHa = sh, netStore = s, netFates = fates\<rparr>) = (Ok ph', (d', n))"
  shows "\<exists>l'. linked node (haNodeId ha) sh0 (ph', d', netHa n, netStore n) l'"
proof -
  obtain out d1 n1 where c: "callPeer (peerLib H other base now) nested ha ''GET'' addr HttpIncremental ''cluster incremental failed''
      (d, \<lparr>netHa = sh, netStore = s, netFates = fates\<rparr>) = (out, (d1, n1))" by (metis prod.exhaust)
  note q = linked_query[OF l u _ _ c, of httpClusterIncremental ph', simplified]
  show ?thesis
  proof (cases out)
    case (Ok w)
    then obtain l1 a b where l1: "in_flight node (haNodeId ha) sh0 w (d, netHa n1, netStore n1) l1" "w = WInc a b" "d1 = d"
      using q by auto
    have "submit ((newSyncReq node)\<lparr>reqAdd := a, reqDel := b\<rparr>) nx (d, n1) = (Ok ph', (d', n))"
      using f c Ok l1(2,3) by (simp add: queryIncrementalData_def tryS_def bindS_def liftR_def decodeInc_def)
    then obtain reply where "n = n1" "ProcessSyncWorker (requestOf node w) d = (Ok reply, d')"
      using submit_Ok l1(2) by (fastforce simp: requestOf_def)
    then show ?thesis using linked_deliver[OF l1(1)] by blast
  next
    case (Err e)
    then show ?thesis using f c q by (auto simp: queryIncrementalData_def tryS_def bindS_def returnS_def)
  qed (use f c in \<open>simp_all add: queryIncrementalData_def tryS_def bindS_def\<close>)
qed

lemma Abandon_Ok: "\<exists>m'. Abandon peer m = (Ok (), m')"
  by (cases "mget (dataFrom m) peer") (simp_all add: Abandon_def run_simps buildMemData_def)

lemma linked_connect:
  assumes l: "linked node peer sh0 (ph, d, sh, s) l" and u: "unrouted_ok other"
    and c: "connectRemote (peerLib H other base now) nested ha addr (d, \<lparr>netHa = sh, netStore = s, netFates = fates\<rparr>)
      = (out, (d', n))"
  shows "d' = d \<and> (\<exists>l'. linked node peer sh0 (ph', d, netHa n, netStore n) l')"
proof -
  obtain out1 d1 n1 where p: "callPeer (peerLib H other base now) nested ha ''POST'' addr HttpAuth ''cluster auth failed''
      (d, \<lparr>netHa = sh, netStore = s, netFates = fates\<rparr>) = (out1, (d1, n1))" by (metis prod.exhaust)
  then have n: "n = n1" "d' = d1" using c by (cases out1; simp add: connectRemote_def bindS_def returnS_def)+
  have "d1 = d \<and> netStore n1 = s \<and> (netHa n1 = sh \<or> (\<exists>cm. netHa n1 = sh\<lparr>ClientPeerMapping := cm\<rparr>))"
    using callPeer_served[OF p u routes_simps(1)]
    by (auto simp: httpClusterAuth_run Let_def split: if_splits) (metis+)
  then show ?thesis using n linked_peers[OF l, of "netHa n1" ph'] by auto
qed

lemma linked_round:
  assumes l: "linked node (haNodeId ha) sh0 (ph, d, sh, s) l" and u: "unrouted_ok other"
    and f: "PeerSyncWorker (peerLib H other base now) nested ha addr node rand ph
      (d, \<lparr>netHa = sh, netStore = s, netFates = fates\<rparr>) = (Ok ph', (d', n))"
  shows "\<exists>l'. linked node (haNodeId ha) sh0 (ph', d', netHa n, netStore n) l'"
proof (cases ph)
  case MainLoop
  obtain d1 where d1: "Abandon node d = (Ok (), d1)" using Abandon_Ok by blast
  obtain l1 where l1: "linked node (haNodeId ha) sh0 (ph, d1, sh, s) l1" using linked_abandon[OF l d1] by blast
  obtain out d2 n2 where c: "connectRemote (peerLib H other base now) nested ha addr (d1, \<lparr>netHa = sh, netStore = s, netFates = fates\<rparr>)
      = (out, (d2, n2))" by (metis prod.exhaust)
  obtain l2 where l2: "d2 = d1" "linked node (haNodeId ha) sh0 (ph', d1, netHa n2, netStore n2) l2"
    using linked_connect[OF l1 u c] by blast
  show ?thesis
  proof (cases out)
    case (Ok x)
    obtain fs where n2: "n2 = \<lparr>netHa = netHa n2, netStore = netStore n2, netFates = fs\<rparr>" by (cases n2) simp
    have "fullRound (peerLib H other base now) nested ha addr node 0 (d1, n2) = (Ok ph', (d', n))"
      using f MainLoop d1 c l2(1) Ok by (simp add: tryS_def onFst_def)
    then show ?thesis by (subst (asm) n2) (rule linked_fullRound[OF l2(2) u])
  next
    case (Err e)
    then show ?thesis using f MainLoop d1 c l2 by (auto simp: tryS_def onFst_def returnS_def)
  qed (use f MainLoop d1 c in \<open>simp_all add: tryS_def onFst_def\<close>)
next
  case (NextTrigger q r)
  show ?thesis
  proof (cases "q < rand + 590")
    case True
    then show ?thesis
      using f NextTrigger linked_incRound[OF l u, where nx = "NextTrigger (q + 1) 0"
          and retry = "if r + 1 > 10 then MainLoop else NextTrigger q (r + 1)"]
      by (simp add: if_distrib[of returnS] cong: if_cong)
  next
    case False
    then show ?thesis using f NextTrigger linked_fullRound[OF l u] by simp
  qed
qed

lemma cluster_linked:
  assumes "(cluster_step other H nested ha addr base node)\<^sup>*\<^sup>* (MainLoop, NewMemStore, sh0, NewMemStore) c" "unrouted_ok other"
  shows "\<exists>l. linked node (haNodeId ha) sh0 c l"
  using assms(1)
proof (induction rule: rtranclp_induct)
  case base
  show ?case by (rule exI[of _ "newLink sh0"]) (simp add: linked_def newLink_def)
next
  case (step c c')
  then obtain l where l: "linked node (haNodeId ha) sh0 c l" by blast
  show ?case
    using step.hyps(2)
  proof cases
    case (round now rand ph d sh s fates ph' d' n)
    then show ?thesis using linked_round[OF _ assms(2)] l by blast
  next
    case (source s s' ph d sh)
    then show ?thesis using linked_source l by blast
  next
    case (follower d d' ph sh s)
    then have "link_step node (haNodeId ha) l (l\<lparr>dst := d'\<rparr>)" using l by (auto simp: linked_def intro: link_step.follower)
    then show ?thesis
      using l follower link_more by (intro exI[of _ "l\<lparr>dst := d'\<rparr>"]) (auto simp: linked_def)
  next
    case (health now sh s r sh' s' ph d)
    then show ?thesis using linked_health l by blast
  next
    case (request now meth path r sh s x sh' s' ph d)
    then show ?thesis using linked_request l by blast
  qed
qed

section \<open>Rounds that succeed\<close>

definition is_member :: "HaModule \<Rightarrow> HaModule \<Rightarrow> bool" where
  "is_member ha sh \<longleftrightarrow> haNodeId ha \<noteq> [] \<and> ClusterName ha = ClusterName sh \<and> ClusterSecret ha = ClusterSecret sh"

lemma member_request:
  "is_member ha sh \<Longrightarrow> FormValue (clusterRequest ha) ''from'' = haNodeId ha \<and> haNodeId ha \<noteq> []
    \<and> \<not> clusterMismatch sh (clusterRequest ha)"
  by (simp add: is_member_def clusterMismatch_def clusterRequest_def)

lemma link_ha: "(link_step node peer)\<^sup>*\<^sup>* (newLink sh0) l \<Longrightarrow> \<exists>cm. srcHa l = sh0\<lparr>ClientPeerMapping := cm\<rparr>"
proof (induction rule: rtranclp_induct)
  case base
  show ?case by (simp add: newLink_def exI[of _ "ClientPeerMapping sh0"])
next
  case (step l l')
  from step.hyps(2) show ?case
    by cases (use step.IH in \<open>auto simp: httpClusterFull_run httpClusterIncremental_run Let_def split: if_splits option.splits\<close>)
qed

lemma linked_member: "linked node peer sh0 (ph, d, sh, s) l \<Longrightarrow> is_member ha sh0 \<Longrightarrow> is_member ha sh"
  using link_ha[of node peer sh0 l] by (auto simp: linked_def is_member_def)

text \<open>After such a round the copy is the registry of the peer, which has not changed.\<close>

definition exact :: "string \<Rightarrow> string \<Rightarrow> HaModule \<Rightarrow> MemStore \<Rightarrow> cluster \<Rightarrow> bool" where
  "exact node peer sh0 s c \<longleftrightarrow> (case c of (ph, d, sh, s') \<Rightarrow>
     currentServices s' = currentServices s \<and> received d node = Some (abs_svc (currentServices s))
     \<and> mget (ClientPeerMapping sh) peer \<noteq> None \<and> (\<exists>l. linked node peer sh0 c l \<and> good l))"

lemma in_flight_exact:
  assumes "in_flight node peer sh0 w (d, sh, s') l" "ProcessSyncWorker (requestOf node w) d = (Ok reply, d')"
    and "is_full w \<or> good l" "received d' node = Some (abs_svc (currentServices s))"
    and "currentServices s' = currentServices s" "mget (ClientPeerMapping sh) peer \<noteq> None"
  shows "exact node peer sh0 s (ph, d', sh, s')"
  using linked_deliver[OF assms(1,2), of ph] assms(3-6) by (auto simp: exact_def)

lemma fullRound_exact:
  assumes l: "linked node (haNodeId ha) sh0 (ph, d, sh, s) l" and m: "is_member ha sh0"
    and u: "innerUrlResolve H nested d addr = Ok base"
  shows "\<exists>d' sh' s'. fullRound (peerLib H other base now) nested ha addr node rc (d, \<lparr>netHa = sh, netStore = s, netFates = []\<rparr>)
      = (Ok (NextTrigger 0 rc), (d', \<lparr>netHa = sh', netStore = s', netFates = []\<rparr>))
    \<and> exact node (haNodeId ha) sh0 s (NextTrigger 0 rc, d', sh', s')"
proof -
  note r = member_request[OF linked_member[OF l m]]
  define w where "w = WFull [(DefaultDataKey, marshalNode (currentServices s))]"
  obtain sh' s' where h: "httpClusterFull now (clusterRequest ha) (sh, s) = (Ok \<lparr>Status = 200, Body = Some w\<rparr>, (sh', s'))"
      "currentServices s' = currentServices s" "mget (ClientPeerMapping sh') (haNodeId ha) \<noteq> None"
    using r by (auto simp: httpClusterFull_run Let_def w_def FetchFullAndWatch_run)
  have inv: "link_inv node (haNodeId ha) l" using l by (auto simp: linked_def intro: reachable_inv)
  then have "mem_wf d" "svc_wf (currentServices s)"
    using l by (auto simp: link_inv_def linked_def mem_inv_def mem_wf_def)
  then obtain d' where d': "FullFrom node [(DefaultDataKey, marshalNode (currentServices s))] d = (Ok (), d')"
      "received d' node = Some (abs_svc (currentServices s))"
    using FullFrom_run unfolding received_step_def by blast
  have p: "ProcessSyncWorker (requestOf node w) d = (Ok (Some None), d')"
    using d'(1) by (simp add: ProcessSyncWorker_def requestOf_def newSyncReq_def tryS_def returnS_def w_def)
  have c: "callPeer (peerLib H other base now) nested ha ''GET'' addr HttpFull ''cluster full failed''
      (d, \<lparr>netHa = sh, netStore = s, netFates = []\<rparr>) = (Ok w, (d, \<lparr>netHa = sh', netStore = s', netFates = []\<rparr>))"
    using callPeer_delivered[OF u routes_simps(2) h(1)] by simp
  have run: "fullRound (peerLib H other base now) nested ha addr node rc (d, \<lparr>netHa = sh, netStore = s, netFates = []\<rparr>)
      = (Ok (NextTrigger 0 rc), (d', \<lparr>netHa = sh', netStore = s', netFates = []\<rparr>))"
    using p by (simp add: fullRound_def queryFullDataSet_def tryS_def bindS_def liftR_def c decodeFull_def w_def
        submit_def onFst_def returnS_def requestOf_def)
  obtain l1 where "in_flight node (haNodeId ha) sh0 w (d, sh', s') l1"
    using linked_fetch[where h = httpClusterFull and ph' = MainLoop, OF l conjunct1[OF r] h(1)] by auto
  then have "exact node (haNodeId ha) sh0 s (NextTrigger 0 rc, d', sh', s')"
    using in_flight_exact[OF _ p _ d'(2) h(2,3)] by (simp add: w_def)
  then show ?thesis using run by blast
qed

lemma incRound_exact:
  assumes l: "linked node (haNodeId ha) sh0 (ph, d, sh, s) l" "good l" and m: "is_member ha sh0"
    and u: "innerUrlResolve H nested d addr = Ok base" and t: "mget (ClientPeerMapping sh) (haNodeId ha) \<noteq> None"
  shows "\<exists>d' sh' s'. tryS (queryIncrementalData (peerLib H other base now) nested ha addr)
        (\<lambda>(add, del). submit ((newSyncReq node)\<lparr>reqAdd := add, reqDel := del\<rparr>) nx)
        (\<lambda>err. rt) (d, \<lparr>netHa = sh, netStore = s, netFates = []\<rparr>)
      = (Ok nx, (d', \<lparr>netHa = sh', netStore = s', netFates = []\<rparr>))
    \<and> exact node (haNodeId ha) sh0 s (nx, d', sh', s')"
proof -
  note r = member_request[OF linked_member[OF l(1) m]]
  have inv: "link_inv node (haNodeId ha) l" using l by (auto simp: linked_def intro: reachable_inv)
  then have wf: "mem_wf d" using l(1) by (auto simp: link_inv_def linked_def)
  have "copy_ok l node (haNodeId ha)" using inv l(2) by (simp add: link_inv_def)
  then obtain c nd where c: "mget (dataTo s) (haNodeId ha) = Some c" "mget (dataFrom d) node = Some nd"
      "recv_ok (ServiceMapping nd)" "delta c (abs_recv (ServiceMapping nd)) = abs_svc (currentServices s)"
    using l(1) by (auto simp: copy_ok_def linked_def upcoming_full)
  define w where "w = WInc (Some [(DefaultDataKey, marshalList (Add c))]) (Some [(DefaultDataKey, marshalList (Del c))])"
  obtain sh' s' where h: "httpClusterIncremental now (clusterRequest ha) (sh, s) = (Ok \<lparr>Status = 200, Body = Some w\<rparr>, (sh', s'))"
      "currentServices s' = currentServices s" "mget (ClientPeerMapping sh') (haNodeId ha) \<noteq> None"
    using r t c(1) by (auto simp: httpClusterIncremental_run Let_def w_def)
  obtain d' where d': "SyncFrom node node [(DefaultDataKey, marshalList (Add c))] [(DefaultDataKey, marshalList (Del c))] d = (Ok (), d')"
      "received d' node = Some (abs_svc (currentServices s))"
    using SyncFrom_run[OF wf c(2,3), of c] c(4) unfolding received_step_def by auto
  have p: "ProcessSyncWorker (requestOf node w) d = (Ok (Some None), d')"
    using d'(1) by (simp add: ProcessSyncWorker_def requestOf_def newSyncReq_def tryS_def returnS_def w_def map_or_empty_def)
  have cl: "callPeer (peerLib H other base now) nested ha ''GET'' addr HttpIncremental ''cluster incremental failed''
      (d, \<lparr>netHa = sh, netStore = s, netFates = []\<rparr>) = (Ok w, (d, \<lparr>netHa = sh', netStore = s', netFates = []\<rparr>))"
    using callPeer_delivered[OF u routes_simps(3) h(1)] by simp
  have run: "tryS (queryIncrementalData (peerLib H other base now) nested ha addr)
        (\<lambda>(add, del). submit ((newSyncReq node)\<lparr>reqAdd := add, reqDel := del\<rparr>) nx)
        (\<lambda>err. rt) (d, \<lparr>netHa = sh, netStore = s, netFates = []\<rparr>)
      = (Ok nx, (d', \<lparr>netHa = sh', netStore = s', netFates = []\<rparr>))"
    using p by (simp add: queryIncrementalData_def tryS_def bindS_def liftR_def cl decodeInc_def w_def
        submit_def onFst_def returnS_def requestOf_def)
  obtain l1 where "in_flight node (haNodeId ha) sh0 w (d, sh', s') l1" "good l1 = good l"
    using linked_fetch[where h = httpClusterIncremental and ph' = MainLoop, OF l(1) conjunct1[OF r] h(1)] by auto
  then have "exact node (haNodeId ha) sh0 s (nx, d', sh', s')"
    using in_flight_exact[OF _ p _ d'(2) h(2,3)] l(2) by auto
  then show ?thesis using run by blast
qed

lemma resolve_Abandon:
  assumes "Abandon node d = (x, d')"
  shows "innerUrlResolve H nested d' addr = innerUrlResolve H nested d addr"
proof -
  have "staticDomainMapping d' = staticDomainMapping d"
    using assms by (auto simp: Abandon_def run_simps buildMemData_def split: if_splits)
  then have "ResolveDomain nested d' = ResolveDomain nested d"
    by (intro ext) (simp add: ResolveDomain_def resolveStatic_def)
  then show ?thesis by (simp add: innerUrlResolve_def)
qed

text \<open>A round in which the worker asks for everything, and the count of retries that it keeps.\<close>

definition full_turn :: "int \<Rightarrow> phase \<Rightarrow> bool" where
  "full_turn rand ph \<longleftrightarrow> (case ph of MainLoop \<Rightarrow> True | NextTrigger q r \<Rightarrow> rand + 590 \<le> q)"

primrec retries :: "phase \<Rightarrow> int" where
  "retries MainLoop = 0"
| "retries (NextTrigger q r) = r"

lemma full_turn_exact:
  assumes l: "linked node (haNodeId ha) sh0 (ph, d, sh, s) l" and m: "is_member ha sh0"
    and u: "innerUrlResolve H nested d addr = Ok base" and f: "full_turn rand ph"
  shows "\<exists>d' sh' s'. PeerSyncWorker (peerLib H other base now) nested ha addr node rand ph
        (d, \<lparr>netHa = sh, netStore = s, netFates = []\<rparr>)
      = (Ok (NextTrigger 0 (retries ph)), (d', \<lparr>netHa = sh', netStore = s', netFates = []\<rparr>))
    \<and> exact node (haNodeId ha) sh0 s (NextTrigger 0 (retries ph), d', sh', s')"
proof (cases ph)
  case MainLoop
  obtain d1 where d1: "Abandon node d = (Ok (), d1)" using Abandon_Ok by blast
  obtain l1 where l1: "linked node (haNodeId ha) sh0 (ph, d1, sh, s) l1" using linked_abandon[OF l d1] by blast
  have u1: "innerUrlResolve H nested d1 addr = Ok base" by (simp add: resolve_Abandon[OF d1] u)
  define sh1 where "sh1 = sh\<lparr>ClientPeerMapping := mput (haNodeId ha) now (ClientPeerMapping sh)\<rparr>"
  obtain l2 where l2: "linked node (haNodeId ha) sh0 (ph, d1, sh1, s) l2"
    using linked_peers[OF l1, of sh1] by (auto simp: sh1_def)
  have "httpClusterAuth now (clusterRequest ha) (sh, s) = (Ok \<lparr>Status = 200, Body = None\<rparr>, (sh1, s))"
    using member_request[OF linked_member[OF l m]] by (simp add: httpClusterAuth_run sh1_def respond_def)
  then have "connectRemote (peerLib H other base now) nested ha addr (d1, \<lparr>netHa = sh, netStore = s, netFates = []\<rparr>)
      = (Ok (), (d1, \<lparr>netHa = sh1, netStore = s, netFates = []\<rparr>))"
    using callPeer_delivered[OF u1 routes_simps(1)] by (simp add: connectRemote_def bindS_def returnS_def)
  then show ?thesis
    using fullRound_exact[OF l2 m u1, of other now] MainLoop d1 by (simp add: tryS_def onFst_def)
next
  case (NextTrigger q r)
  then show ?thesis using fullRound_exact[OF l m u, of other now] f by (simp add: full_turn_def)
qed

section \<open>Undisturbed operation\<close>

text \<open>
  The steps while the network delivers: rounds of the worker, everything the two nodes do by
  themselves, requests of others, and health checks that find the last request of the follower
  no older than the 20 seconds they allow.
\<close>

inductive calm_step ::
  "wire unrouted \<Rightarrow> peer_net halib \<Rightarrow> resolver list \<Rightarrow> HaModule \<Rightarrow> string \<Rightarrow> string \<Rightarrow> string \<Rightarrow> cluster \<Rightarrow> cluster \<Rightarrow> bool"
  for other H nested ha addr base node where
  round: "PeerSyncWorker (peerLib H other base now) nested ha addr node rand ph (d, \<lparr>netHa = sh, netStore = s, netFates = []\<rparr>)
      = (Ok ph', (d', n)) \<Longrightarrow> innerUrlResolve H nested d addr = Ok base \<Longrightarrow>
    calm_step other H nested ha addr base node (ph, d, sh, s) (ph', d', netHa n, netStore n)"
| source: "store_step (haNodeId ha) s s' \<Longrightarrow> calm_step other H nested ha addr base node (ph, d, sh, s) (ph, d, sh, s')"
| follower: "other_step node d d' \<Longrightarrow> calm_step other H nested ha addr base node (ph, d, sh, s) (ph, d', sh, s)"
| health: "CheckPeerHealth now (sh, s) = (r, (sh', s')) \<Longrightarrow>
    \<forall>t. (haNodeId ha, t) \<in> set (ClientPeerMapping sh) \<longrightarrow> now - 20000 \<le> t \<Longrightarrow>
    calm_step other H nested ha addr base node (ph, d, sh, s) (ph, d, sh', s')"
| request: "ServeHTTP other now meth path r (sh, s) = (x, (sh', s')) \<Longrightarrow>
    FormValue r ''from'' \<noteq> haNodeId ha \<or> clusterMismatch sh r \<Longrightarrow>
    calm_step other H nested ha addr base node (ph, d, sh, s) (ph, d, sh', s')"

definition following :: "string \<Rightarrow> string \<Rightarrow> HaModule \<Rightarrow> cluster \<Rightarrow> bool" where
  "following node peer sh0 c \<longleftrightarrow> (case c of (ph, d, sh, s) \<Rightarrow>
     ph \<noteq> MainLoop \<and> mget (ClientPeerMapping sh) peer \<noteq> None \<and> (\<exists>l. linked node peer sh0 c l \<and> good l))"

lemma exact_following: "exact node peer sh0 s (ph, d, sh, s') \<Longrightarrow> ph \<noteq> MainLoop \<Longrightarrow> following node peer sh0 (ph, d, sh, s')"
  by (auto simp: exact_def following_def)

lemma following_round:
  assumes f: "following node (haNodeId ha) sh0 (ph, d, sh, s)" and m: "is_member ha sh0"
    and u: "innerUrlResolve H nested d addr = Ok base"
  shows "\<exists>q d' sh' s'. PeerSyncWorker (peerLib H other base now) nested ha addr node rand ph
        (d, \<lparr>netHa = sh, netStore = s, netFates = []\<rparr>)
      = (Ok (NextTrigger q (if full_turn rand ph then retries ph else 0)), (d', \<lparr>netHa = sh', netStore = s', netFates = []\<rparr>))
    \<and> exact node (haNodeId ha) sh0 s (NextTrigger q (if full_turn rand ph then retries ph else 0), d', sh', s')"
proof -
  obtain l q r where l: "linked node (haNodeId ha) sh0 (ph, d, sh, s) l" "good l" "ph = NextTrigger q r"
      "mget (ClientPeerMapping sh) (haNodeId ha) \<noteq> None"
    using f by (cases ph) (auto simp: following_def)
  show ?thesis
  proof (cases "q < rand + 590")
    case True
    then show ?thesis
      using incRound_exact[OF l(1,2) m u l(4), of other now "NextTrigger (q + 1) 0"] l(3) True
      by (fastforce simp: full_turn_def)
  next
    case False
    then show ?thesis using full_turn_exact[OF l(1) m u, of rand other now] l(3) by (auto simp: full_turn_def)
  qed
qed

lemma request_keeps_peer:
  assumes "ServeHTTP other now meth path r (sh, s) = (x, (sh', s'))" "mget (ClientPeerMapping sh) p \<noteq> None"
  shows "mget (ClientPeerMapping sh') p \<noteq> None"
  using assms
  by (auto simp: ServeHTTP_def routerServe_def clusterRoutes_def returnS_def httpClusterAuth_run httpClusterFull_run
      httpClusterIncremental_run Let_def split: if_splits option.splits)

lemma not_stale:
  assumes "\<forall>t. (p, t) \<in> set (ClientPeerMapping sh) \<longrightarrow> now - 20000 \<le> t"
  shows "p \<notin> set (stalePeers now sh)"
  using assms by (auto simp: stalePeers_def)

lemma mdels_other: "p \<notin> set ns \<Longrightarrow> mget (foldl (\<lambda>cm v. mdel v cm) m ns) p = mget m p"
  by (induction ns arbitrary: m) auto

lemma calm_following:
  assumes "calm_step other H nested ha addr base node c c'" "following node (haNodeId ha) sh0 c" "is_member ha sh0"
  shows "following node (haNodeId ha) sh0 c'"
  using assms(1)
proof cases
  case (round now rand ph d sh s ph' d' n)
  then have f: "following node (haNodeId ha) sh0 (ph, d, sh, s)" using assms(2) by simp
  show ?thesis
    using following_round[OF f assms(3) round(4), of other now rand] round(1-3) exact_following by fastforce
next
  case (source s s' ph d sh)
  then show ?thesis using assms(2) linked_source[of node _ sh0 ph d sh s _ s' ph] by (fastforce simp: following_def)
next
  case (follower d d' ph sh s)
  then obtain l where l: "linked node (haNodeId ha) sh0 c l" "good l" using assms(2) by (auto simp: following_def)
  then have "link_step node (haNodeId ha) l (l\<lparr>dst := d'\<rparr>)"
    using follower by (auto simp: linked_def intro: link_step.follower)
  then have "linked node (haNodeId ha) sh0 c' (l\<lparr>dst := d'\<rparr>)" using l follower link_more by (auto simp: linked_def)
  then show ?thesis using assms(2) follower l by (auto simp: following_def)
next
  case (health now sh s r sh' s' ph d)
  note ns = not_stale[OF health(4)]
  obtain l where l: "linked node (haNodeId ha) sh0 (ph, d, sh, s) l" "good l" using assms(2) health by (auto simp: following_def)
  show ?thesis
    using linked_health[OF l(1) health(3)] l(2) ns assms(2) health(1,2)
    by (auto simp: following_def mdels_other[OF ns])
next
  case (request now meth path r sh s x sh' s' ph d)
  then obtain l where l: "linked node (haNodeId ha) sh0 (ph, d, sh, s) l" "good l" using assms(2) by (auto simp: following_def)
  show ?thesis
    using linked_request[OF l(1) request(3,4), of ph] l(2) request_keeps_peer[OF request(3)] assms(2) request(1,2)
    by (auto simp: following_def)
qed

lemma calm_steps_following:
  "(calm_step other H nested ha addr base node)\<^sup>*\<^sup>* c c' \<Longrightarrow> is_member ha sh0 \<Longrightarrow>
    following node (haNodeId ha) sh0 c \<Longrightarrow> following node (haNodeId ha) sh0 c'"
  by (induction rule: rtranclp_induct) (auto intro: calm_following)

section \<open>Properties of the worker\<close>

text \<open>
  C6: the worker recovers. In every state that the worker and its peer reach, whatever was lost
  on the way, a round in which the worker asks for everything and the network delivers succeeds,
  with the queries counted from zero again and the retries as before, and then the copy of the
  follower is the registry of the peer.
\<close>

theorem worker_heals:
  assumes "unrouted_ok other" "is_member ha sh0"
    and "(cluster_step other H nested ha addr base node)\<^sup>*\<^sup>* (MainLoop, NewMemStore, sh0, NewMemStore) (ph, d, sh, s)"
    and "innerUrlResolve H nested d addr = Ok base" "full_turn rand ph"
  shows "\<exists>d' n. PeerSyncWorker (peerLib H other base now) nested ha addr node rand ph
        (d, \<lparr>netHa = sh, netStore = s, netFates = []\<rparr>) = (Ok (NextTrigger 0 (retries ph)), (d', n))
    \<and> currentServices (netStore n) = currentServices s \<and> received d' node = Some (abs_svc (currentServices s))"
proof -
  obtain l where l: "linked node (haNodeId ha) sh0 (ph, d, sh, s) l" using cluster_linked[OF assms(3,1)] by blast
  then show ?thesis
    using full_turn_exact[OF l assms(2,4,5), of other now] by (fastforce simp: exact_def)
qed

text \<open>
  C7: the copy stays exact. After such a round, as long as the network delivers and the worker
  keeps within the 20 seconds of the health check, every further round succeeds and makes the
  copy the registry of the peer again, whatever the two nodes did since the round before; an
  incremental round also resets the retries.
\<close>

theorem worker_follows_peer:
  assumes "unrouted_ok other" "is_member ha sh0"
    and "(cluster_step other H nested ha addr base node)\<^sup>*\<^sup>* (MainLoop, NewMemStore, sh0, NewMemStore) (ph0, d0, sh1, s0)"
    and "innerUrlResolve H nested d0 addr = Ok base" "full_turn rand0 ph0"
    and "PeerSyncWorker (peerLib H other base now0) nested ha addr node rand0 ph0
        (d0, \<lparr>netHa = sh1, netStore = s0, netFates = []\<rparr>) = (Ok ph1, (d1, n1))"
    and "(calm_step other H nested ha addr base node)\<^sup>*\<^sup>* (ph1, d1, netHa n1, netStore n1) (ph, d, sh, s)"
    and "innerUrlResolve H nested d addr = Ok base"
  shows "\<exists>q d' n. PeerSyncWorker (peerLib H other base now) nested ha addr node rand ph
        (d, \<lparr>netHa = sh, netStore = s, netFates = []\<rparr>) = (Ok (NextTrigger q (if full_turn rand ph then retries ph else 0)), (d', n))
    \<and> currentServices (netStore n) = currentServices s \<and> received d' node = Some (abs_svc (currentServices s))"
proof -
  obtain l where l: "linked node (haNodeId ha) sh0 (ph0, d0, sh1, s0) l" using cluster_linked[OF assms(3,1)] by blast
  have "following node (haNodeId ha) sh0 (ph1, d1, netHa n1, netStore n1)"
    using full_turn_exact[OF l assms(2,4,5), of other now0] assms(6) by (auto dest!: exact_following)
  then have f: "following node (haNodeId ha) sh0 (ph, d, sh, s)" using calm_steps_following[OF assms(7,2)] by blast
  show ?thesis
    using following_round[OF f assms(2,8), of other now rand] by (fastforce simp: exact_def)
qed

text \<open>
  A node that follows another: the URL of the peer is already an address.
\<close>

definition sample_lib :: "peer_net halib" where
  "sample_lib = \<lparr>haFqdn = (\<lambda>h. h @ ''.''),
     Parse = (\<lambda>u. Ok \<lparr>Hostname = ''10.0.0.1'', urlPort = ''80'', urlHost = ''10.0.0.1:80'', urlRest = ''http://''\<rparr>),
     String = (\<lambda>u. urlRest u @ urlHost u), Do = (\<lambda>_ _ _ w. (Ok (NetErr (OsError ''no route'')), w))\<rparr>"

definition not_found :: "wire unrouted" where
  "not_found meth path = respond 404"

definition sample_follower :: HaModule where
  "sample_follower = NewHaModule ''B'' ''http://b'' ''cluster'' ''secret'' []"

definition sample_url :: string where
  "sample_url = ''http://10.0.0.1:80''"

lemma sample_net:
  "unrouted_ok not_found" "is_member sample_follower sample_ha"
  "staticDomainMapping m = [] \<Longrightarrow> innerUrlResolve sample_lib [] m sample_url = Ok sample_url"
  by (simp_all add: unrouted_ok_def not_found_def respond_def is_member_def sample_follower_def sample_ha_def NewHaModule_def
      innerUrlResolve_def sample_lib_def must_def ResolveDomain_def resolveStatic_def Let_def sample_url_def)

lemma new_static: "staticDomainMapping NewMemStore = []"
  by (simp add: NewMemStore_def)


theorem worker_heals_witness:
  "\<exists>d' n. PeerSyncWorker (peerLib sample_lib not_found sample_url 5) [] sample_follower sample_url ''A'' 0 MainLoop
        (NewMemStore, \<lparr>netHa = sample_ha, netStore = NewMemStore, netFates = []\<rparr>) = (Ok (NextTrigger 0 0), (d', n))
    \<and> received d' ''A'' = Some (abs_svc [])"
  using worker_heals[OF sample_net(1,2) rtranclp.rtrancl_refl sample_net(3)[OF new_static], where rand = 0 and node = "''A''" and now = 5]
  by (auto simp: full_turn_def NewMemStore_def)

text \<open>The worker leaves the static records of its node alone.\<close>

lemma static_kept [keeps]:
  "keepsS (\<lambda>m. staticDomainMapping m = x) (Abandon node)"
  "keepsS (\<lambda>m. staticDomainMapping m = x) (FullFrom node dat)"
  "keepsS (\<lambda>m. staticDomainMapping m = x) (SyncFrom node node' add del)"
  by (auto simp: keepsS_def Abandon_def FullFrom_def SyncFrom_def run_simps buildMemData_def onMapping_def
      split: option.splits res.splits prod.splits if_splits)

lemma static_worker: "keepsS (\<lambda>s. staticDomainMapping (fst s) = x) (PeerSyncWorker H nested ha addr peer rand ph)"
proof -
  have pr: "keepsS I (f (fst z) (snd z)) \<Longrightarrow> keepsS I (case z of (a, b) \<Rightarrow> f a b)" for I f z
    by (simp add: case_prod_beta)
  have sub: "keepsS (\<lambda>s. staticDomainMapping (fst s) = x) (submit req nx)" for req nx
  proof -
    have reply: "keepsS I (case r of None \<Rightarrow> (\<lambda>s. (Diverge, s)) | Some None \<Rightarrow> returnS nx | Some (Some err) \<Rightarrow> returnS MainLoop)"
      for I r by (simp add: keepsS_def returnS_def split: option.splits)
    show ?thesis unfolding submit_def ProcessSyncWorker_def by (intro keeps reply)
  qed
  have call: "keepsS (\<lambda>s. staticDomainMapping (fst s) = x) (callPeer H nested ha meth addr path failure)" for meth path failure
  proof -
    have resp: "keepsS I (case r of NetErr e \<Rightarrow> failS e
        | NetResp code body \<Rightarrow> if code \<noteq> 200 then failS (ErrorMsg failure) else returnS body)" for I r
      by (cases r) (simp_all add: keepsS_def failS_def returnS_def)
    show ?thesis unfolding callPeer_def by (intro keeps pr resp)
  qed
  have full: "keepsS (\<lambda>s. staticDomainMapping (fst s) = x) (fullRound H nested ha addr peer rc)" for rc
    unfolding fullRound_def queryFullDataSet_def by (intro keeps call sub)
  show ?thesis
  proof (cases ph)
    case MainLoop
    then show ?thesis by (simp add: connectRemote_def) (intro keeps call full)
  next
    case (NextTrigger q r)
    then show ?thesis by (simp add: queryIncrementalData_def) (intro conjI impI keeps call sub full pr)
  qed
qed

theorem worker_follows_peer_witness:
  "\<exists>d1 n1 q d' n. PeerSyncWorker (peerLib sample_lib not_found sample_url 5) [] sample_follower sample_url ''A'' 0 MainLoop
        (NewMemStore, \<lparr>netHa = sample_ha, netStore = NewMemStore, netFates = []\<rparr>) = (Ok (NextTrigger 0 0), (d1, n1))
    \<and> PeerSyncWorker (peerLib sample_lib not_found sample_url 9) [] sample_follower sample_url ''A'' 0 (NextTrigger 0 0)
        (d1, \<lparr>netHa = netHa n1, netStore = snd (PublishService ''svc'' sample_item (netStore n1)), netFates = []\<rparr>)
      = (Ok (NextTrigger q 0), (d', n))
    \<and> received d' ''A'' = Some (abs_svc (currentServices (snd (PublishService ''svc'' sample_item (netStore n1)))))"
proof -
  let ?W = "\<lambda>now. PeerSyncWorker (peerLib sample_lib not_found sample_url now) [] sample_follower sample_url ''A'' 0"
  obtain d1 n1 where r: "?W 5 MainLoop (NewMemStore, \<lparr>netHa = sample_ha, netStore = NewMemStore, netFates = []\<rparr>)
      = (Ok (NextTrigger 0 0), (d1, n1))"
    using worker_heals_witness by blast
  have "staticDomainMapping (fst (snd (?W 5 MainLoop (NewMemStore, \<lparr>netHa = sample_ha, netStore = NewMemStore, netFates = []\<rparr>)))) = []"
    by (rule keepsSD[OF static_worker]) (simp add: new_static)
  then have st: "staticDomainMapping d1 = []" by (simp only: r fst_conv snd_conv)
  have c: "(calm_step not_found sample_lib [] sample_follower sample_url sample_url ''A'')\<^sup>*\<^sup>*
      (NextTrigger 0 0, d1, netHa n1, netStore n1)
      (NextTrigger 0 0, d1, netHa n1, snd (PublishService ''svc'' sample_item (netStore n1)))"
    by (intro r_into_rtranclp calm_step.source store_step.publish[OF prod.collapse[symmetric]])
  show ?thesis
    using r worker_follows_peer[OF sample_net(1,2) rtranclp.rtrancl_refl sample_net(3)[OF new_static] _ r c sample_net(3)[OF st],
        where now = 9 and rand = 0]
    by (auto simp: full_turn_def)
qed







text \<open>
  C40: a peer that answers a full request with \<open>null\<close> stops the worker for good: the request it
  submits is never answered.
\<close>

theorem null_answer_blocks_worker:
  assumes "innerUrlResolve H nested d addr = Ok u" "Do H ''POST'' (u @ HttpAuth) (clusterRequest ha) w = (Ok (NetResp 200 x), w1)"
    and "Do H ''GET'' (u @ HttpFull) (clusterRequest ha) w1 = (Ok (NetResp 200 WNull), w2)"
  shows "fst (PeerSyncWorker H nested ha addr peer rand MainLoop (d, w)) = Diverge"
proof -
  obtain d1 where d1: "Abandon peer d = (Ok (), d1)" using Abandon_Ok by blast
  then have "innerUrlResolve H nested d1 addr = Ok u" using assms(1) by (simp add: resolve_Abandon)
  then show ?thesis
    using d1 assms(2,3)
    by (simp add: tryS_def onFst_def connectRemote_def callPeer_def run_simps onSnd_def fullRound_def queryFullDataSet_def
        decodeFull_def submit_def newSyncReq_def ProcessSyncWorker_def)
qed

theorem null_answer_blocks_worker_witness:
  "fst (PeerSyncWorker (sample_lib\<lparr>Do := \<lambda>_ _ _ w. (Ok (NetResp 200 WNull), w)\<rparr>) [] sample_follower sample_url ''A'' 7 MainLoop
      (NewMemStore, \<lparr>netHa = sample_ha, netStore = NewMemStore, netFates = []\<rparr>)) = Diverge"
  by (rule null_answer_blocks_worker[of _ _ _ _ sample_url]) (simp_all add: sample_net(3) new_static)

end
