(* ===== verification/Spec2Isabelle.thy ===== *)
theory Spec2Isabelle
  imports Bootstrap Replication Wal_Sync Kv_Concurrent Kv_Snapshot Kv_Disk Ha_Cluster
begin

text \<open>
  A verification library for \<open>nekoq-bootstrap\<close>: a node that keeps a registry of services, copies it
  between the nodes of a cluster, answers DNS questions over UDP and HTTP, and a durable
  key-value store with a write-ahead log, its front ends and its replication.

  \<^bold>\<open>How the parts interact.\<close> \<open>main\<close> reads the configuration, starts the dynamic records, makes the
  in-memory store with the static records, the replication module, the DNS service and the
  registration endpoint. The endpoint publishes services into the store and sweeps late clients;
  the replication module serves the registry to the peers and stores theirs; the DNS handlers
  resolve names in the store, then in the dynamic records, then upstream. The key-value store
  writes each change to the log and then to the storage on disk; the HTTP and Redis front ends
  and the primary-standby replicator work on it.

  \<^bold>\<open>What models what\<close> (sources under \<open>src/\<close>).

  \<^item> \<open>Prelude\<close>: outcomes of a Go call (value, error, panic, no return), state passing with early
    return, \<open>recover\<close>, Go maps as association lists whose order stands for the order of \<open>range\<close>,
    wrap-around of the signed integers, string functions, the collections \<open>go_simps\<close> and \<open>keeps\<close>.
  \<^item> \<open>Sequence_Id\<close>, \<open>Crc32\<close>, \<open>Wal_Page\<close>, \<open>Disk_Wal\<close>: \<open>internal/iface/wal.go\<close> and
    \<open>internal/wal/wal.go\<close>: positions and file names, the checksum, pages of a record, writing with
    rotation, start-up and replay over a folder with a schedule of faults. \<open>Disk_Wal_Props\<close> and
    \<open>Disk_Wal_Read\<close> relate the folder to the list of records; \<open>Wal_Properties\<close> states what holds.
    \<open>Wal_Sync\<close>: the goroutine that syncs the current file, interleaved with the pages of a writer.
  \<^item> \<open>Kv_Backend\<close>: \<open>internal/storage\<close>; \<open>Kv_Store\<close>: \<open>internal/service/solestorage.go\<close>;
    \<open>Kv_Recovery\<close> and \<open>Kv_Service\<close>: histories, crashes and restarts of the store;
    \<open>Kv_Concurrent\<close>: changes that overlap, as the steps of \<open>Put\<close> in any order with crashes between;
    \<open>Kv_Snapshot\<close>: what a snapshot holds; \<open>Kv_Disk\<close>: how the store is opened, with SHA-256.
  \<^item> \<open>Http_Lib\<close>: \<open>internal/iface/http.go\<close>, \<open>internal/httpserver/http.go\<close>; \<open>Kv_Frontend\<close>:
    \<open>internal/service/httpservice.go\<close>, \<open>respservice.go\<close>, \<open>respservice.kv.go\<close>,
    \<open>internal/iface/resp2.go\<close>, \<open>client/http.go\<close>.
  \<^item> \<open>Replication\<close>: \<open>internal/replication/simpleps.go\<close>, \<open>communication.go\<close>,
    \<open>internal/service/spskv.go\<close>.
  \<^item> \<open>Mem_Store\<close>: \<open>storage.mem.go\<close>; \<open>Mem_Store_Props\<close> and \<open>Mem_Store_Feed\<close>: its invariant, the
    changes that wait for each peer, and the contract of the feed of changes.
  \<^item> \<open>Http_Endpoint\<close>: \<open>endpoint.http.go\<close>; \<open>Ha_Module\<close> and \<open>Ha_Link\<close>: \<open>core.ha.go\<close>,
    \<open>core.ha.peertalk.go\<close>, and the link between two nodes as a step relation in which requests,
    answers and losses interleave with the changes of both stores. \<open>Ha_Cluster\<close>: the worker of
    \<open>Ha_Module\<close> over a network that routes its requests to the handlers of the peer and delivers or
    loses requests and answers, shown to be a run of the link.
  \<^item> \<open>Dns_Msg\<close>, \<open>Dns_Cache\<close>, \<open>Net_Ip\<close>, \<open>Dns_Handlers\<close>, \<open>Dns_Endpoint\<close>, \<open>Dns_Http\<close>:
    \<open>internal/dnscore\<close>: messages and trace, \<open>cache.go\<close>, \<open>handlers.ptr.utils.go\<close> with the parsing of
    addresses, the handlers and \<open>upstream.go\<close>, \<open>service.standard.go\<close>, \<open>service.httpdns.go\<close> with
    base64. \<open>Dns_Dyn\<close>: \<open>internal/dnsdyn\<close>. \<open>Dns_Properties\<close>: what the DNS service guarantees.
  \<^item> \<open>Bootstrap\<close>: \<open>cmd/nekoq-bootstrap/main.go\<close>. This theory: the properties from the configuration
    to a DNS answer and from the key-value client to the disk.

  \<^bold>\<open>How code is represented.\<close> A struct is a record, a method a function of the same name where HOL
  has it free (with a prefix such as \<open>kv_\<close>, \<open>diskv_\<close>, \<open>dyn_\<close>, \<open>ps_\<close>, \<open>sps_\<close>, \<open>cmd_\<close> for the type
  where not), on the state of its receiver and of what it calls. Errors are the values \<open>Err e\<close>,
  run-time panics \<open>Panic m\<close>. The clock, random numbers and the answers of the network are arguments.
  An operation that holds one lock throughout is one step; the endpoint's publication, which does
  not, is two. Integers keep their width where the code depends on it (lengths in a page, the
  checksum, positions, lifetimes). Strings are their bytes; \<open>ToLower\<close> is that of ASCII.

  \<^bold>\<open>Interfaces\<close> are locales: \<open>kv_backend\<close> (what the store relies on, provided by \<open>DiskvStorage\<close> over
  any \<open>diskv_library\<close>, which \<open>diskv_listing\<close> extends for snapshots), \<open>kv_service\<close> and \<open>kv_store\<close>, \<open>change_feed\<close> (provided by the in-memory store),
  \<open>dns_library\<close>, \<open>dns_storage\<close> (provided by the in-memory store and by the dynamic records),
  \<open>kv_transport\<close>. Library code outside the repository is a record of functions that the definitions
  take as an argument: \<open>diskv\<close>, \<open>cbor\<close>, \<open>dnslib\<close>, \<open>wirelib\<close>, \<open>configlib\<close>, \<open>redislib\<close>, \<open>exchange\<close>, \<open>halib\<close>
  (URLs and the HTTP client, on a state of the network), \<open>listenlib\<close>.

  \<^bold>\<open>What the theorems show.\<close> The log: pages and entries are read back, damage of a byte is found, a
  write returns, replay delivers the records once and in order; and where start-up or the reader
  panics. The background sync keeps an idle log on the disk, but never returns to a full file. The
  store: a read returns the last change over any history, restarts and crashes keep it, also
  while changes overlap, with the exceptions that are proved too; a snapshot copies it. The registry: the changes kept for a peer are
  exact in every reachable state, a copy that follows them equals the registry, the list of a
  service is what the node and its peers provide, a sweep removes what is late. The link: the copy
  converges, the worker heals it and keeps it exact, strangers get nothing, a full copy is asked
  for again and again. DNS: a
  configured name is answered, enclosed names stay on the node, the cache serves what it was given
  for its lifetime, replies are well typed, failures are contained, HTTP and UDP agree. The front
  ends: both protocols are the same service, a client reads what it put. The replicator: no write
  is ever replicated.

  \<^bold>\<open>Loops.\<close> Every loop of the code that ends is a total function; the pages of a file are read by
  recursion on their bytes, retries by recursion on their number. Loops that run for ever (the
  sweep, the health check, the workers, the sync, the clean-up of the cache) are modelled by one
  round, and what they do over time by the runs of step relations.

  \<^bold>\<open>Not modelled.\<close> Listeners, TLS and goroutine scheduling, signals, logging and the sample
  client: they are calls of libraries without state of their own. Routing is a look-up of method
  and path in the table that the code fills; what the library answers for other paths is a
  parameter. JSON, CBOR, TOML, URL and DNS wire formats are library code and parameters. The model
  of the sync takes the page of an entry, with the file it may open, as one step, and a sync that
  returns as the disk holding all of that file. A DNS request is one step: two requests that overlap differ from it only in
  which of them fills the cache.
\<close>

section \<open>From the configuration to an answer\<close>

text \<open>The rules of the configuration for a record type, and what they say about a name.\<close>

definition rules :: "Config \<Rightarrow> DomainType \<Rightarrow> (string, string) gomap" where
  "rules config t =
     (case t of DomainTypeA \<Rightarrow> RulesA config | DomainTypeTxt \<Rightarrow> RulesTXT config | DomainTypeSrv \<Rightarrow> RulesSRV config | _ \<Rightarrow> [])"

definition rule_value :: "dnslib \<Rightarrow> Config \<Rightarrow> DomainType \<Rightarrow> string \<Rightarrow> string option" where
  "rule_value L config t name = last_value (map (\<lambda>(k, v). (Fqdn L (ToLower k), v)) (rules config t)) (ToLower name)"

lemma loaded_rule_resolves:
  assumes "loadRules L config m = (Ok (), m')" "rule_value L config t name = Some v"
  shows "ResolveDomain nested m' name t = Ok v"
proof -
  let ?a = "snd (putRules L (RulesA config) DomainTypeA m)"
  let ?x = "snd (putRules L (RulesTXT config) DomainTypeTxt ?a)"
  let ?s = "snd (putRules L (RulesSRV config) DomainTypeSrv ?x)"
  have p: "putRules L r u n = (Ok (), snd (putRules L r u n))" for r u n
    using putRules_run(1) by (simp add: prod_eq_iff)
  have m': "m' = snd (putReverse L (RulesPTR config) ?s)"
    using assms(1) by (simp add: loadRules_def bindS_Ok[OF p])
  have t: "t \<noteq> DomainTypePtr" using assms(2) by (auto simp: rule_value_def rules_def last_value_def)
  have "ResolveDomain nested ?s name t = Ok v"
    using assms(2) by (cases t) (auto simp: putRules_run(2) rule_value_def rules_def last_value_def)
  then show ?thesis
    using keepsSD[OF putReverse_frame[of t nested name "Ok v" L "RulesPTR config"], of ?s] m' t by simp
qed

lemma main_dns:
  assumes "main L E up K ag dec = Ok node" "nodeDns node = Some h"
  obtains config where "dec = Ok config" "loadRules L config NewMemStore = (Ok (), nodeStore node)"
    and "NewDnsEndpoint L E up (DnsAddress config) (UpstreamDnsServers config)
        (convertEnclosureDomainSuffix (EnclosureDomains config)) (Debug config) = Ok (endpoint h)"
proof -
  have must: "must r = Ok x \<longleftrightarrow> r = Ok x" for r :: "'x res" and x by (auto simp: must_def split: res.splits)
  have bindR_Ok: "bindR r f = Ok x \<longleftrightarrow> (\<exists>a. r = Ok a \<and> f a = Ok x)" for r :: "'x res" and f :: "'x \<Rightarrow> 'y res" and x
    by (cases r) auto
  from assms obtain config where c: "dec = Ok config" "DnsEnable config"
      and run: "bindS (startDns L E up config) (\<lambda>d. returnS (Some d)) NewMemStore = (Ok (Some h), nodeStore node)"
    by (auto simp: main_def bindR_Ok must Let_def case_prod_beta returnS_def prod_eq_iff split: if_splits)
  from run have run: "startDns L E up config NewMemStore = (Ok h, nodeStore node)"
    by (auto simp: bindS_eq_Ok returnS_def)
  obtain m ep where "loadRules L config NewMemStore = (Ok (), m)"
      "NewDnsEndpoint L E up (DnsAddress config) (UpstreamDnsServers config)
        (convertEnclosureDomainSuffix (EnclosureDomains config)) (Debug config) = Ok ep"
      "NewHttpDns up (DnsHttpAddress config) ep (Debug config) = Ok h" "m = nodeStore node"
    using run by (auto simp: startDns_def bindS_eq_Ok liftR_def must)
  moreover from this(3) have "endpoint h = ep" by (auto simp: NewHttpDns_def bindR_Ok)
  ultimately show ?thesis using that[OF c(1)] by blast
qed

text \<open>
  C1: a name with a rule in the configuration is answered. After the start of the node, a
  question of any letter case for a name that has an A, TXT or SRV rule gets one record with the
  value of the rule, whatever the other rules and the upstream servers are, and whatever dynamic
  records (\<open>ds\<close>) were delivered during the start or since; where several rules mean the same name,
  the one loaded last counts.
\<close>

theorem configured_name_answered:
  assumes "dns_library L" "main L E up K ag (Ok config) = Ok node" "nodeDns node = Some h"
    and "Question r = [q]" "domain_type (Qtype q) = Some t"
    and "rule_value L config t (Name q) = Some v" "record_data L (Qtype q) v = Some rd"
  shows "snd (snd (ServeDNS L tGet tPut (node_storage (node\<lparr>dnsStores := ds\<rparr>)) written (endpoint h) r ([], sent)))
      = sent @ [reply_with L r (Name q) (Qtype q) rd]
    \<and> Answer (reply_with L r (Name q) (Qtype q) rd) = [answer_rr (Name q) (Qtype q) rd]"
proof -
  let ?node = "node\<lparr>dnsStores := ds\<rparr>"
  obtain load: "loadRules L config NewMemStore = (Ok (), nodeStore node)"
    and ep: "NewDnsEndpoint L E up (DnsAddress config) (UpstreamDnsServers config)
        (convertEnclosureDomainSuffix (EnclosureDomains config)) (Debug config) = Ok (endpoint h)"
    by (rule main_dns[OF assms(2,3)]) auto
  have v: "node_storage ?node (Name q) t = Ok v"
    using loaded_rule_resolves[OF load assms(6)] by (simp add: node_storage_def)
  obtain k where k: "cacheKey L r = Ok k" using cacheKey_Ok assms(4) by metis
  have miss: "fst (cache_Get L tGet r []) = Ok None" by (simp add: cache_Get_run[OF k])
  obtain f t' where f: "mget (HandlerMapping (endpoint h)) (Qtype q) = Some f"
      "f (node_storage ?node) r ([] @ [''resolve:t='' @ dec_digits (unat (Qtype q)) @ '',domain:'' @ Name q])
        = (Ok (reply_with L r (Name q) (Qtype q) rd), t')"
    using local_handler[where storage = "node_storage ?node", OF ep assms(4,5) v assms(7)] by blast
  show ?thesis
    using ServeDNS_reply[OF ProcessDnsMsg_miss[where storage = "node_storage ?node", OF assms(4) miss f]]
      reply_with_Answer[OF assms(1)] by simp
qed

definition sampleConfig :: Config where
  "sampleConfig = \<lparr>StorageProvider = ''mem'', Debug = False, cfgClusterName = ''c'', cfgClusterSecret = ''s'', cfgNodeName = ''n1'',
     cfgClusterListener = ''http://:8081'', cfgNodes = [], DnsEnable = True, DnsAddress = ''udp://:53'', DnsHttpAddress = ''http://:8053'',
     UpstreamDnsServers = [''8.8.8.8''], RulesA = [(''Db.Lan'', ''10.0.0.1'')], RulesTXT = [(''db.lan'', ''text'')], RulesSRV = [],
     RulesPTR = [(''10.0.0.1'', ''Db.Lan'')], DynServers = None, HttpListener = ''http://:8080'', cfgEnableAuth = False,
     cfgAccessPassword = [], EnclosureDomains = []\<rparr>"

definition noConfigLib :: configlib where
  "noConfigLib = \<lparr>Fill = (\<lambda>_. Ok ()), Register = (\<lambda>_ _. Ok ()), StartClient = (\<lambda>_. Ok ()), StopClient = (\<lambda>_. Ok ()), Delivered = (\<lambda>_. []),
     WaitStartupConfigureLoaded = (\<lambda>_. Ok ())\<rparr>"

lemma sample_start:
  "\<exists>node h. main plain_dns (\<lambda>m a. Ok sampleAnswer) urlOk noConfigLib (Ok ()) (Ok sampleConfig) = Ok node \<and> nodeDns node = Some h"
proof -
  have v: "IsValidIPAddress ''10.0.0.1''" by code_simp
  obtain n where n: "FromIPAddressToPtrFqdn plain_dns ''10.0.0.1'' = Ok n"
    using valid_ptr_name[OF v] by blast
  have load: "\<exists>m'. loadRules plain_dns sampleConfig m = (Ok (), m')" for m
    using v n by (auto simp: loadRules_def putRules_def putReverse_def sampleConfig_def AddIpReverseDnsToStorage_def PutDomain_def
        bindS_def tryS_def liftR_def modifyS_def returnS_def)
  then obtain m' where m': "loadRules plain_dns sampleConfig NewMemStore = (Ok (), m')" by blast
  then obtain h where dns: "startDns plain_dns (\<lambda>m a. Ok sampleAnswer) urlOk sampleConfig NewMemStore = (Ok h, m')"
    by (simp add: startDns_def bindS_def liftR_def must_def NewDnsEndpoint_def NewHttpDns_def urlOk_def Let_def)
  have c: "StorageProvider sampleConfig = ''mem''" "DnsEnable sampleConfig" "DynServers sampleConfig = None"
    by (simp_all add: sampleConfig_def)
  show ?thesis
    by (simp add: main_def must_def startDyn_def c bindS_def dns returnS_def OpenHttpEndpoint_def urlOk_def Let_def)
qed

theorem configured_name_answered_witness:
  "\<exists>node (h :: DnsHttp). main plain_dns (\<lambda>m a. Ok sampleAnswer) urlOk noConfigLib (Ok ()) (Ok sampleConfig) = Ok node
    \<and> snd (snd (ServeDNS plain_dns 5 5 (node_storage node) written (endpoint h) (sampleQuestion ''DB.lan.'') ([], [])))
      = [reply_with plain_dns (sampleQuestion ''DB.lan.'') ''DB.lan.'' TypeA (RdA (ParseIP ''10.0.0.1''))]"
proof -
  let ?q = "\<lparr>Name = ''DB.lan.'', Qtype = TypeA\<rparr>"
  obtain node h where n: "main plain_dns (\<lambda>m a. Ok sampleAnswer) urlOk noConfigLib (Ok ()) (Ok sampleConfig) = Ok node"
      "nodeDns node = Some h" using sample_start by blast
  have t: "domain_type (Qtype ?q) = Some DomainTypeA" by (simp add: domain_type_def)
  have v: "rule_value plain_dns sampleConfig DomainTypeA (Name ?q) = Some ''10.0.0.1''" by code_simp
  have rd: "record_data plain_dns (Qtype ?q) ''10.0.0.1'' = Some (RdA (ParseIP ''10.0.0.1''))" by (simp add: record_data_def)
  show ?thesis
    using configured_name_answered[OF plain_dns_library n sampleQuestion_Question t v rd, where tGet = 5 and tPut = 5
        and ds = "dnsStores node" and sent = "[]"] n
    by (intro exI[of _ node] exI[of _ h]) simp
qed

section \<open>From the client to the disk\<close>

lemma unat_of_char: "unat (of_char c :: byte) = of_char c"
proof -
  have "(of_char c :: byte) = of_nat (of_char c)" by (simp add: of_nat_of_char)
  then show ?thesis by (simp add: unsigned_of_nat take_bit_eq_mod)
qed

lemma keyBytes_inj: "keyBytes a = keyBytes b \<longleftrightarrow> a = b"
proof -
  have "inj (of_char :: char \<Rightarrow> byte)"
    by (rule injI) (metis of_char_eq_iff unat_of_char)
  then show ?thesis by (simp add: keyBytes_def inj_map_eq_map)
qed

text \<open>
  C10: what a client puts it gets back. With the server of the store behind any transport that
  delivers requests, a put of a value under a user key succeeds, a get of that key then returns
  the value, and a get of any other user key what the history of the store says.
\<close>

theorem client_reads_what_it_put:
  assumes "diskv_library D contents" "cbor_ok C" "kv_rep C contents (d, k) es"
    and "kv_transport send (SetupKVStorage (kv_Put C (diskv_Put D)) (kv_Get (diskv_Get D)) (NewHttpServer [])) addr"
    and "user_key (keyBytes key)" "fits C d (keyBytes key, v)" "curCollection d + 1 < 2 ^ 63"
  shows "\<exists>s'. KvPut send (NewHttpServiceClient addr) key v (d, k) = (Ok (), s')
    \<and> KvGet send (NewHttpServiceClient addr) key s' = (Ok (Some v), s')
    \<and> (\<forall>key'. user_key (keyBytes key') \<and> key' \<noteq> key \<longrightarrow>
         KvGet send (NewHttpServiceClient addr) key' s' = (Ok (map_of (rev es) (keyBytes key')), s'))"
proof -
  have svc: "kv_service (diskv_Put D) (diskv_Get D) contents C" by (rule serviceI[OF assms(1,2)])
  obtain s' where s': "kv_Put C (diskv_Put D) (keyBytes key) v (d, k) = (Ok (), s')" "kv_rep C contents s' (es @ [(keyBytes key, v)])"
    using kv_service.kv_Put_rep[OF svc assms(3,5-7)] by blast
  have ok: "validateKeyFormat (keyBytes x)" "x \<noteq> []" if "user_key (keyBytes x)" for x
    using that by (auto simp: user_key_def valid_key_def keyBytes_def)
  have "KvPut send (NewHttpServiceClient addr) key v (d, k) = (Ok (), s')"
    by (rule kv_transport.KvPut_run[OF assms(4) refl ok[OF assms(5)] s'(1)]) (simp add: returns_def)
  moreover have "KvGet send (NewHttpServiceClient addr) x s' = (Ok (map_of (rev (es @ [(keyBytes key, v)])) (keyBytes x)), s')"
    if "user_key (keyBytes x)" for x
    by (rule kv_transport.KvGet_run[OF assms(4) refl ok[OF that] kv_service.kv_Get_rep[OF svc s'(2) that]])
  ultimately show ?thesis using assms(5) by (auto simp: keyBytes_inj)
qed

theorem client_reads_what_it_put_witness:
  "\<exists>d k s'. let h = SetupKVStorage (kv_Put unary_cbor (diskv_Put map_diskv)) (kv_Get (diskv_Get map_diskv)) (NewHttpServer []);
              send = direct h ''http://kv'' in
     KvPut send (NewHttpServiceClient ''http://kv'') ''b'' [2] (d, k) = (Ok (), s')
   \<and> KvGet send (NewHttpServiceClient ''http://kv'') ''b'' s' = (Ok (Some [2]), s')"
proof -
  obtain d k where dk: "kv_rep unary_cbor (\<lambda>s. mget s) (d, k) [([0x61], [1])]" "maxPageSize d = 4096" "curCollection d + 1 < 2 ^ 63"
    using sample_store by blast
  have f: "fits unary_cbor d (keyBytes ''b'', [2])"
    using witness_fits[of "[0x62]" "[2]"] dk(2) by (simp add: fits_def NewDiskWal_def keyBytes_def)
  have u: "user_key (keyBytes ''b'')" by code_simp
  show ?thesis
    using client_reads_what_it_put[OF map_diskv_library unary_cbor_ok dk(1) direct.kv_transport_axioms u f dk(3), of "''http://kv''"]
    by (auto simp: Let_def)
qed

end
